(* ===== verification/Prelude.thy ===== *)
theory Prelude
  imports Main
begin

text \<open>
  What every component of the development shares: the collections of facts the component
  proofs are driven by, option-valued traversal of a list (a JavaScript \<open>map\<close> whose
  callback can throw), the string operations of the ECMAScript library that the code calls
  (\<open>trim\<close>, \<open>split\<close>, \<open>join\<close>, \<open>includes\<close>, \<open>startsWith\<close>), and the interface of an
  event-driven component with an invariant.

  A JavaScript string is a sequence of UTF-16 code units. The model's \<^typ>\<open>string\<close>
  is a list of 8-bit characters, read as the code units below 256 (Latin-1); no operation of
  the code looks at anything but ASCII delimiters and white space, so the restriction is on
  the alphabet only.
\<close>

named_theorems wf_intros \<open>introduction rules for the invariants of the components\<close>
named_theorems step_defs \<open>definitions of the handlers a step of a component unfolds to\<close>

section \<open>Loops that may throw\<close>

text \<open>A state and the error that ended the operation, if one did.\<close>

type_synonym 's outcome = "'s \<times> string option"

text \<open>A \<open>for ... of\<close> loop whose body may throw.\<close>

fun for_each :: "('a \<Rightarrow> 's \<Rightarrow> 's outcome) \<Rightarrow> 'a list \<Rightarrow> 's \<Rightarrow> 's outcome" where
  "for_each f [] s = (s, None)"
| "for_each f (x # xs) s = (case f x s of (s', None) \<Rightarrow> for_each f xs s' | r \<Rightarrow> r)"

lemma for_each_rule:
  assumes "for_each f xs s = (s', None)" "I s"
    and step: "\<And>x s s'. x \<in> set xs \<Longrightarrow> I s \<Longrightarrow> f x s = (s', None) \<Longrightarrow>
      I s' \<and> Q x s' \<and> (\<forall>y \<in> set xs. y \<noteq> x \<longrightarrow> Q y s \<longrightarrow> Q y s')"
  shows "I s' \<and> (\<forall>x \<in> set xs. Q x s')"
proof -
  have "I s' \<and> (\<forall>x \<in> set rest. Q x s') \<and> (\<forall>x \<in> set xs. Q x s \<longrightarrow> Q x s')"
    if "for_each f rest s = (s', None)" "set rest \<subseteq> set xs" "I s" for rest s
    using that
  proof (induction rest arbitrary: s)
    case (Cons x rest)
    obtain s1 where s1: "f x s = (s1, None)" "for_each f rest s1 = (s', None)"
      using Cons.prems(1) by (auto split: prod.splits option.splits)
    have x: "x \<in> set xs" using Cons.prems(2) by simp
    note st = step [OF x Cons.prems(3) s1(1)]
    have ih: "I s' \<and> (\<forall>x \<in> set rest. Q x s') \<and> (\<forall>x \<in> set xs. Q x s1 \<longrightarrow> Q x s')"
      by (rule Cons.IH [OF s1(2)]) (use Cons.prems(2) st in auto)
    have "Q x s1" using st by blast
    moreover have "\<forall>y \<in> set xs. Q y s \<longrightarrow> Q y s1"
    proof
      fix y assume "y \<in> set xs"
      then show "Q y s \<longrightarrow> Q y s1" using st by (cases "y = x") blast+
    qed
    ultimately show ?case using ih x by auto
  qed simp
  then show ?thesis using assms(1,2) by blast
qed

lemma for_each_count:
  fixes c :: "'s \<Rightarrow> nat"
  assumes "for_each f xs s = (s', None)" "\<And>x s s'. x \<in> set xs \<Longrightarrow> f x s = (s', None) \<Longrightarrow> c s' = c s + k"
  shows "c s' = c s + k * length xs"
  using assms
proof (induction xs arbitrary: s)
  case (Cons x xs)
  then obtain s1 where "f x s = (s1, None)" "for_each f xs s1 = (s', None)"
    by (auto split: prod.splits option.splits)
  moreover have "c s1 = c s + k" by (rule Cons.prems(2) [of x]) (simp_all add: calculation)
  moreover have "c s' = c s1 + k * length xs" by (rule Cons.IH) (use calculation Cons.prems(2) in auto)
  ultimately show ?case by simp
qed simp

section \<open>Option-valued traversal\<close>

fun traverse :: "('a \<Rightarrow> 'b option) \<Rightarrow> 'a list \<Rightarrow> 'b list option" where
  "traverse f [] = Some []"
| "traverse f (x # xs) =
     (case f x of
        None \<Rightarrow> None
      | Some y \<Rightarrow> (case traverse f xs of None \<Rightarrow> None | Some ys \<Rightarrow> Some (y # ys)))"

lemma traverse_Some_iff:
  "traverse f xs = Some ys \<longleftrightarrow> list_all2 (\<lambda>x y. f x = Some y) xs ys"
proof (induction xs arbitrary: ys)
  case Nil
  then show ?case by auto
next
  case (Cons x xs)
  show ?case
  proof (cases "traverse f xs")
    case None
    then show ?thesis using Cons.IH by (auto simp: list_all2_Cons1 split: option.splits)
  next
    case (Some zs)
    then have "\<And>ws. list_all2 (\<lambda>x y. f x = Some y) xs ws \<longleftrightarrow> zs = ws"
      by (simp add: Cons.IH [symmetric])
    then show ?thesis using Some by (auto simp: list_all2_Cons1 split: option.splits)
  qed
qed

lemma traverse_None_iff: "traverse f xs = None \<longleftrightarrow> (\<exists>x \<in> set xs. f x = None)"
  by (induction xs) (auto split: option.splits)

lemma traverse_map_Some [simp]: "traverse (\<lambda>x. Some (g x)) xs = Some (map g xs)"
  by (induction xs) auto

lemma traverse_length: "traverse f xs = Some ys \<Longrightarrow> length ys = length xs"
  by (auto simp: traverse_Some_iff list_all2_lengthD)

lemma traverse_all_Some:
  "(\<And>x. x \<in> set xs \<Longrightarrow> f x = Some (g x)) \<Longrightarrow> traverse f xs = Some (map g xs)"
  by (induction xs) auto

lemma traverse_cong [fundef_cong]:
  "xs = ys \<Longrightarrow> (\<And>x. x \<in> set ys \<Longrightarrow> f x = g x) \<Longrightarrow> traverse f xs = traverse g ys"
  by (induction xs arbitrary: ys) (auto split: option.splits)

section \<open>Lists\<close>

lemma distinct_map_filter [simp]: "distinct (map f xs) \<Longrightarrow> distinct (map f (filter P xs))"
  by (induction xs) auto

lemma advance_less: "x \<noteq> [] \<Longrightarrow> i < n \<Longrightarrow> n - (i + length x) < n - (i :: nat)"
  by (cases x) auto

lemma takeWhile_replicate:
  "takeWhile (\<lambda>c. c = a) xs = replicate (length (takeWhile (\<lambda>c. c = a) xs)) a"
  by (induction xs) auto

lemma list_all_take: "list_all P xs \<Longrightarrow> list_all P (take n xs)"
  by (auto simp: list_all_iff dest: in_set_takeD)

lemma list_all_drop: "list_all P xs \<Longrightarrow> list_all P (drop n xs)"
  by (auto simp: list_all_iff dest: in_set_dropD)

lemma list_all_replicate: "P x \<Longrightarrow> list_all P (replicate n x)"
  by (simp add: list_all_iff)

text \<open>Deleting the first element that satisfies a predicate, as \<open>findIndex\<close> and
  \<open>splice(index, 1)\<close> do; \<open>None\<close> when there is none.\<close>

fun take_first :: "('a \<Rightarrow> bool) \<Rightarrow> 'a list \<Rightarrow> ('a \<times> 'a list) option" where
  "take_first P [] = None"
| "take_first P (x # xs) =
     (if P x then Some (x, xs)
      else (case take_first P xs of None \<Rightarrow> None | Some (y, ys) \<Rightarrow> Some (y, x # ys)))"

lemma take_first_None_iff: "take_first P xs = None \<longleftrightarrow> (\<forall>x \<in> set xs. \<not> P x)"
  by (induction xs) (auto split: option.splits)

lemma take_first_SomeD:
  "take_first P xs = Some (y, ys) \<Longrightarrow>
     \<exists>us vs. xs = us @ y # vs \<and> ys = us @ vs \<and> P y \<and> (\<forall>u \<in> set us. \<not> P u)"
proof (induction xs arbitrary: y ys)
  case Nil
  then show ?case by simp
next
  case (Cons x xs)
  show ?case
  proof (cases "P x")
    case True
    with Cons.prems have "x # xs = [] @ y # xs \<and> ys = [] @ xs \<and> P y" by simp
    then show ?thesis by fastforce
  next
    case False
    with Cons.prems obtain zs where t: "take_first P xs = Some (y, zs)" and "ys = x # zs"
      by (auto split: option.splits)
    from Cons.IH [OF t] obtain us vs
      where "xs = us @ y # vs \<and> zs = us @ vs \<and> P y \<and> (\<forall>u \<in> set us. \<not> P u)" by blast
    with False \<open>ys = x # zs\<close>
    have "x # xs = (x # us) @ y # vs \<and> ys = (x # us) @ vs \<and> P y \<and> (\<forall>u \<in> set (x # us). \<not> P u)"
      by simp
    then show ?thesis by blast
  qed
qed

text \<open>The values of a list in insertion order with later duplicates dropped, as
  \<open>[...new Set(xs)]\<close> lists them.\<close>

fun add_once :: "'a list \<Rightarrow> 'a \<Rightarrow> 'a list" where
  "add_once seen x = (if x \<in> set seen then seen else seen @ [x])"

lemma foldl_add_once_set: "set (foldl add_once seen xs) = set seen \<union> set xs"
  by (induction xs arbitrary: seen) auto

lemma foldl_add_once_distinct: "distinct seen \<Longrightarrow> distinct (foldl add_once seen xs)"
  by (induction xs arbitrary: seen) auto

section \<open>Strings of the ECMAScript library\<close>

text \<open>White space and line terminators of ECMAScript below code unit 256: tab, line feed,
  vertical tab, form feed, carriage return, space, no-break space. \<open>trim\<close> and the
  regular-expression class \<open>\s\<close> use the same set.\<close>

definition js_space :: "char \<Rightarrow> bool" where
  "js_space c \<longleftrightarrow>
     c = CHR 0x09 \<or> c = CHR 0x0A \<or> c = CHR 0x0B \<or> c = CHR 0x0C \<or> c = CHR 0x0D \<or>
     c = CHR 0x20 \<or> c = CHR 0xA0"

definition js_trim :: "string \<Rightarrow> string" where
  "js_trim s = rev (dropWhile js_space (rev (dropWhile js_space s)))"

text \<open>The class \<open>\w\<close> of a regular expression.\<close>

definition word_char :: "char \<Rightarrow> bool" where
  "word_char c \<longleftrightarrow>
     (let n = of_char c :: nat
      in 48 \<le> n \<and> n \<le> 57 \<or> 65 \<le> n \<and> n \<le> 90 \<or> 97 \<le> n \<and> n \<le> 122 \<or> n = 95)"

definition newline :: char where
  "newline = CHR 0x0A"

text \<open>\<open>s.split(c)\<close> for a one-character separator: always at least one piece.\<close>

fun split_on :: "char \<Rightarrow> string \<Rightarrow> string list" where
  "split_on c [] = [[]]"
| "split_on c (x # xs) =
     (if x = c then [] # split_on c xs
      else (case split_on c xs of [] \<Rightarrow> [[x]] | p # ps \<Rightarrow> (x # p) # ps))"

text \<open>\<open>xs.join(sep)\<close>, on lists of anything.\<close>

fun join :: "'a list \<Rightarrow> 'a list list \<Rightarrow> 'a list" where
  "join sep [] = []"
| "join sep [x] = x"
| "join sep (x # y # xs) = x @ sep @ join sep (y # xs)"

lemma split_on_not_Nil [simp]: "split_on c s \<noteq> []"
  by (induction s) (auto split: list.splits)

lemma join_Cons: "ps \<noteq> [] \<Longrightarrow> join sep (p # ps) = p @ sep @ join sep ps"
  by (cases ps) auto

lemma concat_map_join: "concat (map f (join sep parts)) = join (concat (map f sep)) (map (\<lambda>p. concat (map f p)) parts)"
  by (induction sep parts rule: join.induct) auto

lemma join_split_on [simp]: "join [c] (split_on c s) = s"
proof (induction s)
  case Nil
  then show ?case by simp
next
  case (Cons x xs)
  obtain p ps where sp: "split_on c xs = p # ps"
    by (cases "split_on c xs") auto
  show ?case
  proof (cases "x = c")
    case True
    then show ?thesis using Cons.IH by (simp add: join_Cons)
  next
    case False
    then show ?thesis using Cons.IH sp by (cases ps) auto
  qed
qed

lemma split_on_join:
  assumes "xs \<noteq> []" and "\<forall>x \<in> set xs. c \<notin> set x"
  shows "split_on c (join [c] xs) = xs"
proof -
  have one: "c \<notin> set x \<Longrightarrow> split_on c x = [x]" for x
    by (induction x) auto
  have app: "c \<notin> set x \<Longrightarrow> split_on c (x @ c # r) = x # split_on c r" for x r
    by (induction x) auto
  show ?thesis using assms
  proof (induction xs)
    case Nil
    then show ?case by simp
  next
    case (Cons x xs)
    then show ?case by (cases xs) (auto simp: one app)
  qed
qed

lemma split_on_pieces: "p \<in> set (split_on c s) \<Longrightarrow> c \<notin> set p"
  by (induction s arbitrary: p) (auto split: list.splits if_splits)

text \<open>\<open>s.split(/\s+/u)\<close>: the pieces between maximal runs of white space.\<close>

function split_spaces :: "string \<Rightarrow> string list" where
  "split_spaces s =
     (case dropWhile (\<lambda>c. \<not> js_space c) s of
        [] \<Rightarrow> [s]
      | c # r \<Rightarrow> takeWhile (\<lambda>c. \<not> js_space c) s # split_spaces (dropWhile js_space r))"
  by pat_completeness auto
termination
proof (relation "measure length", goal_cases)
  case 1
  then show ?case by simp
next
  case (2 s c r)
  have "length (dropWhile js_space r) \<le> length r" by (rule length_dropWhile_le)
  moreover have "length (c # r) \<le> length s"
    using length_dropWhile_le [of "\<lambda>c. \<not> js_space c" s] 2 by simp
  ultimately show ?case by simp
qed

declare split_spaces.simps [simp del]

text \<open>\<open>s.startsWith(p)\<close>, \<open>s.endsWith(p)\<close> and \<open>s.includes(p)\<close>.\<close>

fun starts_with :: "string \<Rightarrow> string \<Rightarrow> bool" where
  "starts_with [] s = True"
| "starts_with (p # ps) [] = False"
| "starts_with (p # ps) (c # cs) \<longleftrightarrow> p = c \<and> starts_with ps cs"

definition ends_with :: "string \<Rightarrow> string \<Rightarrow> bool" where
  "ends_with p s \<longleftrightarrow> starts_with (rev p) (rev s)"

fun js_includes :: "string \<Rightarrow> string \<Rightarrow> bool" where
  "js_includes [] p \<longleftrightarrow> p = []"
| "js_includes (c # cs) p \<longleftrightarrow> starts_with p (c # cs) \<or> js_includes cs p"

lemma starts_with_iff: "starts_with p s \<longleftrightarrow> (\<exists>r. s = p @ r)"
  by (induction p s rule: starts_with.induct) auto

lemma js_includes_iff: "js_includes s p \<longleftrightarrow> (\<exists>u v. s = u @ p @ v)"
proof (induction s)
  case Nil
  then show ?case by auto
next
  case (Cons c cs)
  show ?case
  proof
    assume "js_includes (c # cs) p"
    then consider (a) r where "c # cs = p @ r" | (b) u v where "cs = u @ p @ v"
      using Cons.IH by (auto simp: starts_with_iff)
    then show "\<exists>u v. c # cs = u @ p @ v"
    proof cases
      case a
      then show ?thesis by (metis append_Nil)
    next
      case b
      then show ?thesis by (metis append_Cons)
    qed
  next
    assume "\<exists>u v. c # cs = u @ p @ v"
    then obtain u v where e: "c # cs = u @ p @ v" by blast
    show "js_includes (c # cs) p"
    proof (cases u)
      case Nil
      then have "starts_with p (c # cs)" using e by (auto simp: starts_with_iff)
      then show ?thesis by simp
    next
      case (Cons a as)
      then have "\<exists>u v. cs = u @ p @ v" using e by auto
      then show ?thesis using \<open>js_includes cs p = (\<exists>u v. cs = u @ p @ v)\<close> by simp
    qed
  qed
qed

lemma js_trim_blank: "js_trim s = [] \<longleftrightarrow> (\<forall>c \<in> set s. js_space c)"
proof
  assume "js_trim s = []"
  then have "\<forall>c \<in> set (dropWhile js_space s). js_space c"
    by (simp add: js_trim_def dropWhile_eq_Nil_conv)
  then have "dropWhile js_space s = []"
    by (metis hd_dropWhile list.set_sel(1))
  then show "\<forall>c \<in> set s. js_space c" by (simp add: dropWhile_eq_Nil_conv)
next
  assume "\<forall>c \<in> set s. js_space c"
  then show "js_trim s = []" by (auto simp: js_trim_def dest: set_dropWhileD)
qed

lemma js_trim_infix: "\<exists>u v. s = u @ js_trim s @ v \<and> (\<forall>c \<in> set u \<union> set v. js_space c)"
proof -
  let ?t = "dropWhile js_space s"
  have 1: "s = takeWhile js_space s @ ?t" by simp
  have "rev ?t = takeWhile js_space (rev ?t) @ dropWhile js_space (rev ?t)" by simp
  then have "?t = rev (dropWhile js_space (rev ?t)) @ rev (takeWhile js_space (rev ?t))"
    by (metis rev_append rev_rev_ident)
  then have "?t = js_trim s @ rev (takeWhile js_space (rev ?t))" by (simp add: js_trim_def)
  then have "s = takeWhile js_space s @ js_trim s @ rev (takeWhile js_space (rev ?t))"
    using 1 by simp
  moreover have "\<forall>c \<in> set (takeWhile js_space s) \<union> set (rev (takeWhile js_space (rev ?t))). js_space c"
    by (auto dest: set_takeWhileD)
  ultimately show ?thesis by blast
qed

lemma js_trim_idem [simp]: "js_trim (js_trim s) = js_trim s"
proof (cases "js_trim s")
  case Nil
  show ?thesis unfolding Nil by (simp add: js_trim_def)
next
  case (Cons a as)
  let ?t = "dropWhile js_space s"
  have last: "\<not> js_space (last (js_trim s))"
  proof -
    have ne: "dropWhile js_space (rev ?t) \<noteq> []"
      using Cons by (auto simp: js_trim_def)
    then have "\<not> js_space (hd (dropWhile js_space (rev ?t)))" by (rule hd_dropWhile)
    then show ?thesis using ne by (simp add: js_trim_def last_rev)
  qed
  have first: "\<not> js_space a"
  proof -
    have t: "?t = js_trim s @ rev (takeWhile js_space (rev ?t))"
      unfolding js_trim_def by (metis rev_append rev_rev_ident takeWhile_dropWhile_id)
    then have "?t \<noteq> []" "hd ?t = a" using Cons by (auto simp del: dropWhile_eq_Nil_conv) (metis append_Cons list.sel(1))+
    then show ?thesis by (metis hd_dropWhile)
  qed
  have "dropWhile js_space (js_trim s) = js_trim s" using Cons first by simp
  moreover have "dropWhile js_space (rev (js_trim s)) = rev (js_trim s)"
    using last Cons by (cases "rev (js_trim s)") (auto simp: last_rev hd_rev [symmetric])
  ultimately show ?thesis unfolding js_trim_def [of "js_trim s"] by simp
qed

section \<open>Event-driven components\<close>

text \<open>
  A component that reacts to events: \<open>step\<close> is its handler, \<open>inv\<close> what each handler
  keeps. Every state the component can reach by a sequence of events from a good state is
  good, and what one step bounds, a run bounds.
\<close>

locale event_machine =
  fixes step :: "'s \<Rightarrow> 'e \<Rightarrow> 's"
    and inv :: "'s \<Rightarrow> bool"
  assumes step_inv: "inv s \<Longrightarrow> inv (step s e)"
begin

lemma run_inv: "inv s \<Longrightarrow> inv (foldl step s es)"
  by (induction es arbitrary: s) (auto intro: step_inv)

lemma prefix_inv: "inv s \<Longrightarrow> inv (foldl step s (take n es))"
  by (rule run_inv)

lemma run_frame:
  assumes "\<And>s e. inv s \<Longrightarrow> f (step s e) = f s" and "inv s"
  shows "f (foldl step s es) = f s"
  using assms(2)
proof (induction es arbitrary: s)
  case Nil
  then show ?case by simp
next
  case (Cons e es)
  have "f (foldl step (step s e) es) = f (step s e)"
    by (rule Cons.IH [OF step_inv [OF Cons.prems]])
  then show ?case by (simp add: assms(1) [OF Cons.prems])
qed

lemma run_monotone:
  fixes f :: "'s \<Rightarrow> 'o :: order"
  assumes "\<And>s e. inv s \<Longrightarrow> f s \<le> f (step s e)" and "inv s"
  shows "f s \<le> f (foldl step s es)"
  using assms(2)
proof (induction es arbitrary: s)
  case Nil
  then show ?case by simp
next
  case (Cons e es)
  have "f s \<le> f (step s e)" by (rule assms(1) [OF Cons.prems])
  also have "\<dots> \<le> f (foldl step (step s e) es)"
    by (rule Cons.IH [OF step_inv [OF Cons.prems]])
  finally show ?case by simp
qed

end

end
