(* ===== verification/JsValue.thy ===== *)
theory JsValue
  imports Prelude
begin

text \<open>
  The values that cross the process boundary as \<open>unknown\<close>: what \<open>JSON.parse\<close> yields in
  the service worker and \<open>postMessage\<close> clones to the page, plus \<open>undefined\<close> for a member
  that is absent. An object is the list of its own enumerable members in enumeration order,
  with distinct keys (\<open>js_wf\<close>).

  The operations are those of ECMAScript that the code applies to such a value: member access,
  \<open>typeof\<close>, truthiness, \<open>String\<close>, \<open>Number\<close>, \<open>Object.entries\<close> and \<open>JSON.stringify\<close>
  with and without indentation. \<open>String\<close> of an object throws a TypeError when the object has
  an own member \<open>toString\<close>, because no value read from JSON is callable: \<open>None\<close> is
  that exception.
\<close>

section \<open>Numbers\<close>

text \<open>
  A finite Number is the sign, the significand and the point position that ECMAScript's
  \<open>Number::toString\<close> prints it from: \<open>Dec neg s n\<close> has the value
  \<open>s * 10 ^ (n - k)\<close>, with \<open>k\<close> the number of decimal digits of \<open>s\<close>. Reading a decimal
  literal is exact; the rounding to binary64 of a literal with more than fifteen significant
  digits or outside binary64's range is not modelled.
\<close>

datatype number = NaN | Infinity bool | Dec bool nat int

fun digit_char :: "nat \<Rightarrow> char" where
  "digit_char d = char_of (48 + d)"

fun digits :: "nat \<Rightarrow> string" where
  "digits n = (if n < 10 then [digit_char n] else digits (n div 10) @ [digit_char (n mod 10)])"

declare digits.simps [simp del]

definition is_digit :: "char \<Rightarrow> bool" where
  "is_digit c \<longleftrightarrow> 48 \<le> (of_char c :: nat) \<and> (of_char c :: nat) \<le> 57"

definition digit_val :: "char \<Rightarrow> nat" where
  "digit_val c = of_char c - 48"

definition parse_digits :: "string \<Rightarrow> nat" where
  "parse_digits ds = foldl (\<lambda>acc c. 10 * acc + digit_val c) 0 ds"

text \<open>\<open>Number::toString\<close>, radix 10.\<close>

definition dec_to_string :: "nat \<Rightarrow> int \<Rightarrow> string" where
  "dec_to_string s n =
     (let ds = digits s; k = int (length ds); e = n - 1
      in if k \<le> n \<and> n \<le> 21 then ds @ replicate (nat (n - k)) (CHR ''0'')
         else if 0 < n \<and> n \<le> 21 then take (nat n) ds @ ''.'' @ drop (nat n) ds
         else if -6 < n \<and> n \<le> 0 then ''0.'' @ replicate (nat (- n)) (CHR ''0'') @ ds
         else (if k = 1 then ds else take 1 ds @ ''.'' @ drop 1 ds)
              @ ''e'' @ (if 0 \<le> e then ''+'' else ''-'') @ digits (nat \<bar>e\<bar>))"

fun number_to_string :: "number \<Rightarrow> string" where
  "number_to_string NaN = ''NaN''"
| "number_to_string (Infinity neg) = (if neg then ''-Infinity'' else ''Infinity'')"
| "number_to_string (Dec neg s n) =
     (if s = 0 then ''0''
      else (if neg then ''-'' else '''') @ dec_to_string s n)"

section \<open>Values\<close>

datatype js =
    Undefined
  | Null
  | Bool bool
  | Num number
  | Str string
  | Arr "js list"
  | Obj "(string \<times> js) list"

fun js_wf :: "js \<Rightarrow> bool" where
  "js_wf (Arr xs) \<longleftrightarrow> (\<forall>x \<in> set xs. js_wf x)"
| "js_wf (Obj ms) \<longleftrightarrow> distinct (map fst ms) \<and> (\<forall>m \<in> set ms. js_wf (snd m))"
| "js_wf _ \<longleftrightarrow> True"

text \<open>\<open>v?.key\<close> for the keys the code reads, none of which is a member of a prototype.\<close>

fun member :: "js \<Rightarrow> string \<Rightarrow> js" where
  "member (Obj ms) k = (case map_of ms k of None \<Rightarrow> Undefined | Some v \<Rightarrow> v)"
| "member _ k = Undefined"

fun is_object :: "js \<Rightarrow> bool" where
  "is_object (Arr xs) = True"
| "is_object (Obj ms) = True"
| "is_object _ = False"

fun is_string :: "js \<Rightarrow> bool" where
  "is_string (Str s) = True"
| "is_string _ = False"

fun truthy :: "js \<Rightarrow> bool" where
  "truthy Undefined = False"
| "truthy Null = False"
| "truthy (Bool b) = b"
| "truthy (Num NaN) = False"
| "truthy (Num (Infinity neg)) = True"
| "truthy (Num (Dec neg s n)) = (s \<noteq> 0)"
| "truthy (Str s) = (s \<noteq> [])"
| "truthy (Arr xs) = True"
| "truthy (Obj ms) = True"

text \<open>\<open>v ?? d\<close>.\<close>

fun nullish_or :: "js \<Rightarrow> js \<Rightarrow> js" where
  "nullish_or Undefined d = d"
| "nullish_or Null d = d"
| "nullish_or v d = v"

text \<open>\<open>typeof v === "string" ? v : d\<close>.\<close>

fun string_or :: "js \<Rightarrow> string \<Rightarrow> string" where
  "string_or (Str s) d = s"
| "string_or _ d = d"

text \<open>\<open>Object.entries(v)\<close> of an array or an object, and of a string, whose code units are
  its members; other primitives have none.\<close>

fun entries :: "js \<Rightarrow> (string \<times> js) list" where
  "entries (Obj ms) = ms"
| "entries (Arr xs) = zip (map digits [0..<length xs]) xs"
| "entries (Str s) = zip (map digits [0..<length s]) (map (\<lambda>c. Str [c]) s)"
| "entries _ = []"

text \<open>\<open>v[k]\<close>, indices of arrays and strings included.\<close>

definition at_key :: "js \<Rightarrow> string \<Rightarrow> js" where
  "at_key v k = (case map_of (entries v) k of None \<Rightarrow> Undefined | Some x \<Rightarrow> x)"

text \<open>The elements of \<open>for (const x of v)\<close>, \<open>None\<close> when \<open>v\<close> is not iterable.\<close>

fun iterate :: "js \<Rightarrow> js list option" where
  "iterate (Arr xs) = Some xs"
| "iterate (Str s) = Some (map (\<lambda>c. Str [c]) s)"
| "iterate v = None"

definition nullish :: "js \<Rightarrow> bool" where
  "nullish v \<longleftrightarrow> v = Undefined \<or> v = Null"

section \<open>String and Number\<close>

fun js_String :: "js \<Rightarrow> string option" and js_elems :: "js list \<Rightarrow> string list option" where
  "js_String Undefined = Some ''undefined''"
| "js_String Null = Some ''null''"
| "js_String (Bool b) = Some (if b then ''true'' else ''false'')"
| "js_String (Num x) = Some (number_to_string x)"
| "js_String (Str s) = Some s"
| "js_String (Arr xs) = map_option (join '','') (js_elems xs)"
| "js_String (Obj ms) = (if ''toString'' \<in> set (map fst ms) then None else Some ''[object Object]'')"
| "js_elems [] = Some []"
| "js_elems (x # xs) =
     (case (if x = Undefined \<or> x = Null then Some [] else js_String x) of
        None \<Rightarrow> None
      | Some s \<Rightarrow> (case js_elems xs of None \<Rightarrow> None | Some ss \<Rightarrow> Some (s # ss)))"

text \<open>
  The decimal part of StringNumericLiteral: digits, an optional fraction and an optional
  exponent, at least one digit before or after the point.
\<close>

definition canonical_dec :: "bool \<Rightarrow> string \<Rightarrow> int \<Rightarrow> number" where
  "canonical_dec neg ds pt =
     (let z = length (takeWhile (\<lambda>c. c = CHR ''0'') ds);
          core = rev (dropWhile (\<lambda>c. c = CHR ''0'') (rev (drop z ds)))
      in if core = [] then Dec neg 0 1 else Dec neg (parse_digits core) (pt - int z))"

fun parse_exponent :: "string \<Rightarrow> int option" where
  "parse_exponent [] = Some 0"
| "parse_exponent (e # r) =
     (if e = CHR ''e'' \<or> e = CHR ''E'' then
        (let neg = (r \<noteq> [] \<and> hd r = CHR ''-'');
             ds = (if r \<noteq> [] \<and> (hd r = CHR ''-'' \<or> hd r = CHR ''+'') then tl r else r)
         in if ds \<noteq> [] \<and> list_all is_digit ds
            then Some (if neg then - int (parse_digits ds) else int (parse_digits ds)) else None)
      else None)"

definition parse_unsigned :: "bool \<Rightarrow> string \<Rightarrow> number" where
  "parse_unsigned neg s =
     (if s = ''Infinity'' then Infinity neg
      else
        (let ip = takeWhile is_digit s; r = dropWhile is_digit s;
             point = (r \<noteq> [] \<and> hd r = CHR ''.'');
             fp = (if point then takeWhile is_digit (tl r) else []);
             ep = (if point then dropWhile is_digit (tl r) else r)
         in if ip = [] \<and> fp = [] then NaN
            else (case parse_exponent ep of
                    None \<Rightarrow> NaN
                  | Some e \<Rightarrow> canonical_dec neg (ip @ fp) (int (length ip) + e))))"

definition radix_val :: "nat \<Rightarrow> char \<Rightarrow> nat option" where
  "radix_val b c =
     (let x = of_char c :: nat;
          v = (if 48 \<le> x \<and> x \<le> 57 then x - 48
               else if 97 \<le> x \<and> x \<le> 102 then x - 87
               else if 65 \<le> x \<and> x \<le> 70 then x - 55 else 99)
      in if v < b then Some v else None)"

definition parse_radix :: "nat \<Rightarrow> string \<Rightarrow> number" where
  "parse_radix b ds =
     (case traverse (radix_val b) ds of
        None \<Rightarrow> NaN
      | Some vs \<Rightarrow>
          if vs = [] then NaN
          else (let ds' = digits (foldl (\<lambda>acc v. b * acc + v) 0 vs)
                in canonical_dec False ds' (int (length ds'))))"

definition string_to_number :: "string \<Rightarrow> number" where
  "string_to_number s =
     (case js_trim s of
        [] \<Rightarrow> Dec False 0 1
      | c # r \<Rightarrow>
          if c = CHR ''-'' then parse_unsigned True r
          else if c = CHR ''+'' then parse_unsigned False r
          else if c = CHR ''0'' \<and> r \<noteq> [] \<and> hd r \<in> {CHR ''x'', CHR ''X''} then parse_radix 16 (tl r)
          else if c = CHR ''0'' \<and> r \<noteq> [] \<and> hd r \<in> {CHR ''o'', CHR ''O''} then parse_radix 8 (tl r)
          else if c = CHR ''0'' \<and> r \<noteq> [] \<and> hd r \<in> {CHR ''b'', CHR ''B''} then parse_radix 2 (tl r)
          else parse_unsigned False (c # r))"

fun js_Number :: "js \<Rightarrow> number option" where
  "js_Number Undefined = Some NaN"
| "js_Number Null = Some (Dec False 0 1)"
| "js_Number (Bool b) = Some (if b then Dec False 1 1 else Dec False 0 1)"
| "js_Number (Num x) = Some x"
| "js_Number (Str s) = Some (string_to_number s)"
| "js_Number v = map_option string_to_number (js_String v)"

section \<open>JSON.stringify\<close>

definition hex_digit :: "nat \<Rightarrow> char" where
  "hex_digit v = (if v < 10 then char_of (48 + v) else char_of (87 + v))"

definition quote_char :: "char \<Rightarrow> string" where
  "quote_char c =
     (if c = CHR 0x22 then [CHR 0x5C, CHR 0x22]
      else if c = CHR 0x5C then [CHR 0x5C, CHR 0x5C]
      else if c = CHR 0x08 then [CHR 0x5C, CHR ''b'']
      else if c = CHR 0x0C then [CHR 0x5C, CHR ''f'']
      else if c = CHR 0x0A then [CHR 0x5C, CHR ''n'']
      else if c = CHR 0x0D then [CHR 0x5C, CHR ''r'']
      else if c = CHR 0x09 then [CHR 0x5C, CHR ''t'']
      else if (of_char c :: nat) < 32
        then [CHR 0x5C, CHR ''u'', CHR ''0'', CHR ''0'',
              hex_digit (of_char c div 16), hex_digit (of_char c mod 16)]
      else [c])"

definition json_quote :: "string \<Rightarrow> string" where
  "json_quote s = [CHR 0x22] @ concat (map quote_char s) @ [CHR 0x22]"

fun json_number :: "number \<Rightarrow> string" where
  "json_number (Dec neg s n) = number_to_string (Dec neg s n)"
| "json_number x = ''null''"

text \<open>\<open>JSON.stringify(v)\<close>: \<open>None\<close> is \<open>undefined\<close>. An undefined element of an array is
  printed \<open>null\<close>, an undefined member of an object is left out.\<close>

fun stringify :: "js \<Rightarrow> string option"
  and stringify_elems :: "js list \<Rightarrow> string list"
  and stringify_members :: "(string \<times> js) list \<Rightarrow> string list" where
  "stringify Undefined = None"
| "stringify Null = Some ''null''"
| "stringify (Bool b) = Some (if b then ''true'' else ''false'')"
| "stringify (Num x) = Some (json_number x)"
| "stringify (Str s) = Some (json_quote s)"
| "stringify (Arr xs) = Some (''['' @ join '','' (stringify_elems xs) @ '']'')"
| "stringify (Obj ms) = Some (''{'' @ join '','' (stringify_members ms) @ ''}'')"
| "stringify_elems [] = []"
| "stringify_elems (x # xs) =
     (case stringify x of None \<Rightarrow> ''null'' | Some s \<Rightarrow> s) # stringify_elems xs"
| "stringify_members [] = []"
| "stringify_members ((k, v) # ms) =
     (case stringify v of
        None \<Rightarrow> stringify_members ms
      | Some s \<Rightarrow> (json_quote k @ '':'' @ s) # stringify_members ms)"

text \<open>\<open>JSON.stringify(v, null, 2)\<close> of a value nested at an indentation of \<open>ind\<close> spaces.\<close>

definition spaces :: "nat \<Rightarrow> string" where
  "spaces n = replicate n (CHR '' '')"

definition block :: "char \<Rightarrow> char \<Rightarrow> nat \<Rightarrow> string list \<Rightarrow> string" where
  "block l r ind parts =
     (if parts = [] then [l, r]
      else [l, newline] @ spaces (ind + 2)
           @ join ([CHR '','', newline] @ spaces (ind + 2)) parts
           @ [newline] @ spaces ind @ [r])"

fun pretty :: "nat \<Rightarrow> js \<Rightarrow> string option"
  and pretty_elems :: "nat \<Rightarrow> js list \<Rightarrow> string list"
  and pretty_members :: "nat \<Rightarrow> (string \<times> js) list \<Rightarrow> string list" where
  "pretty ind Undefined = None"
| "pretty ind Null = Some ''null''"
| "pretty ind (Bool b) = Some (if b then ''true'' else ''false'')"
| "pretty ind (Num x) = Some (json_number x)"
| "pretty ind (Str s) = Some (json_quote s)"
| "pretty ind (Arr xs) = Some (block (CHR ''['') (CHR '']'') ind (pretty_elems (ind + 2) xs))"
| "pretty ind (Obj ms) = Some (block (CHR ''{'') (CHR ''}'') ind (pretty_members (ind + 2) ms))"
| "pretty_elems ind [] = []"
| "pretty_elems ind (x # xs) =
     (case pretty ind x of None \<Rightarrow> ''null'' | Some s \<Rightarrow> s) # pretty_elems ind xs"
| "pretty_members ind [] = []"
| "pretty_members ind ((k, v) # ms) =
     (case pretty ind v of
        None \<Rightarrow> pretty_members ind ms
      | Some s \<Rightarrow> (json_quote k @ '': '' @ s) # pretty_members ind ms)"

section \<open>Facts about the conversions\<close>

lemma digit_char_is_digit: "d < 10 \<Longrightarrow> is_digit (digit_char d)"
  by (simp add: is_digit_def)

lemma digits_are_digits: "list_all is_digit (digits n) \<and> digits n \<noteq> []"
proof (induction n rule: digits.induct)
  case (1 n)
  show ?case
  proof (cases "n < 10")
    case True
    then show ?thesis using digit_char_is_digit [of n] by (subst (1 2) digits.simps) simp
  next
    case False
    then show ?thesis using 1 digit_char_is_digit [of "n mod 10"]
      by (subst (1 2) digits.simps) simp
  qed
qed

lemma digit_val_char [simp]: "d < 10 \<Longrightarrow> digit_val (char_of (48 + d)) = d"
  by (simp add: digit_val_def)

lemma parse_digits_snoc [simp]: "parse_digits (ds @ [c]) = 10 * parse_digits ds + digit_val c"
  by (simp add: parse_digits_def)

lemma digits_small: "n < 10 \<Longrightarrow> digits n = [digit_char n]"
  by (subst digits.simps) simp

lemma digits_large: "\<not> n < 10 \<Longrightarrow> digits n = digits (n div 10) @ [digit_char (n mod 10)]"
  by (subst digits.simps) simp

lemma parse_digits_digits [simp]: "parse_digits (digits n) = n"
proof (induction n rule: digits.induct)
  case (1 n)
  show ?case
  proof (cases "n < 10")
    case True
    then show ?thesis by (simp add: digits_small parse_digits_def)
  next
    case False
    then show ?thesis using 1 by (simp add: digits_large mult.commute [of 10])
  qed
qed

lemma member_not_object: "\<not> is_object v \<Longrightarrow> member v k = Undefined"
  by (cases v) auto

lemma member_Arr [simp]: "member (Arr xs) k = Undefined"
  by simp

lemma stringify_None_iff: "stringify v = None \<longleftrightarrow> v = Undefined"
  by (cases v) auto

lemma pretty_None_iff: "pretty ind v = None \<longleftrightarrow> v = Undefined"
  by (cases v) auto

text \<open>A value without an object anywhere in it is always convertible.\<close>

fun object_free :: "js \<Rightarrow> bool" where
  "object_free (Arr xs) \<longleftrightarrow> (\<forall>x \<in> set xs. object_free x)"
| "object_free (Obj ms) \<longleftrightarrow> False"
| "object_free _ \<longleftrightarrow> True"

lemma object_free_convertible:
  "object_free v \<Longrightarrow> js_String v \<noteq> None"
  "\<forall>x \<in> set vs. object_free x \<Longrightarrow> js_elems vs \<noteq> None"
proof (induction v and vs rule: js_String_js_elems.induct)
  case (9 x xs)
  then show ?case by (cases x) (auto split: option.splits)
qed (auto split: option.splits)

end
