(* ===== verification/JsonLexemes.thy ===== *)
theory JsonLexemes
  imports JsonHighlight
begin

text \<open>
  The reference tokenization of a JSON value, defined on the value: the lexemes of its
  pretty-printed form in order (\<open>lexemes\<close>), with neighbouring punctuation merged
  (\<open>merge_punctuation\<close>). The scanner of \<open>JsonHighlight\<close> is shown to compute exactly this
  from the text.
\<close>

section \<open>The reference tokenization\<close>

definition punct :: "string \<Rightarrow> json_token" where
  "punct s = \<lparr>tk_value = s, tk_kind = KPunctuation\<rparr>"

definition null_token :: json_token where
  "null_token = \<lparr>tk_value = ''null'', tk_kind = KNull\<rparr>"

definition block_lexemes :: "char \<Rightarrow> char \<Rightarrow> nat \<Rightarrow> json_token list list \<Rightarrow> json_token list" where
  "block_lexemes l r ind parts =
     (if parts = [] then [punct [l, r]]
      else [punct ([l, newline] @ spaces (ind + 2))]
           @ join [punct ([CHR '','', newline] @ spaces (ind + 2))] parts
           @ [punct ([newline] @ spaces ind @ [r])])"

fun number_lexeme :: "number \<Rightarrow> json_token" where
  "number_lexeme (Dec neg s n) = \<lparr>tk_value = number_to_string (Dec neg s n), tk_kind = KNumber\<rparr>"
| "number_lexeme x = null_token"

fun lexemes :: "nat \<Rightarrow> js \<Rightarrow> json_token list"
  and lexemes_elems :: "nat \<Rightarrow> js list \<Rightarrow> json_token list list"
  and lexemes_members :: "nat \<Rightarrow> (string \<times> js) list \<Rightarrow> json_token list list" where
  "lexemes ind Undefined = []"
| "lexemes ind Null = [null_token]"
| "lexemes ind (Bool b) = [\<lparr>tk_value = (if b then ''true'' else ''false''), tk_kind = KBoolean\<rparr>]"
| "lexemes ind (Num x) = [number_lexeme x]"
| "lexemes ind (Str s) = [\<lparr>tk_value = json_quote s, tk_kind = KString\<rparr>]"
| "lexemes ind (Arr xs) = block_lexemes (CHR ''['') (CHR '']'') ind (lexemes_elems (ind + 2) xs)"
| "lexemes ind (Obj ms) = block_lexemes (CHR ''{'') (CHR ''}'') ind (lexemes_members (ind + 2) ms)"
| "lexemes_elems ind [] = []"
| "lexemes_elems ind (x # xs) =
     (if x = Undefined then [null_token] else lexemes ind x) # lexemes_elems ind xs"
| "lexemes_members ind [] = []"
| "lexemes_members ind ((k, v) # ms) =
     (if v = Undefined then lexemes_members ind ms
      else (\<lparr>tk_value = json_quote k, tk_kind = KKey\<rparr> # punct '': '' # lexemes ind v)
           # lexemes_members ind ms)"

definition pending_token :: "string \<Rightarrow> json_token list" where
  "pending_token p = (if p = [] then [] else [punct p])"

fun merge_punctuation :: "string \<Rightarrow> json_token list \<Rightarrow> json_token list" where
  "merge_punctuation p [] = pending_token p"
| "merge_punctuation p (t # ts) =
     (if tk_kind t = KPunctuation then merge_punctuation (p @ tk_value t) ts
      else pending_token p @ t # merge_punctuation [] ts)"

definition text_of :: "json_token list \<Rightarrow> string" where
  "text_of ts = concat (map tk_value ts)"

lemma text_of_simps [simp]:
  "text_of [] = []" "text_of (t # ts) = tk_value t @ text_of ts"
  "text_of (ts @ us) = text_of ts @ text_of us"
  by (simp_all add: text_of_def)

lemma text_of_join: "text_of (join sep parts) = join (text_of sep) (map text_of parts)"
  by (simp add: text_of_def [abs_def] concat_map_join)

lemma text_of_block:
  "text_of (block_lexemes l r ind parts) = block l r ind (map text_of parts)"
  by (simp add: block_lexemes_def block_def text_of_join punct_def)

lemma text_of_lexemes:
  "text_of (lexemes ind v) = (case pretty ind v of None \<Rightarrow> [] | Some s \<Rightarrow> s)"
  "map text_of (lexemes_elems ind vs) = pretty_elems ind vs"
  "map text_of (lexemes_members ind ms) = pretty_members ind ms"
proof (induction ind v and ind vs and ind ms rule: lexemes_lexemes_elems_lexemes_members.induct)
  case (4 ind x)
  then show ?case by (cases x) (auto simp: null_token_def)
qed (auto simp: null_token_def punct_def text_of_block pretty_None_iff split: option.splits)

section \<open>The scanner on a suffix\<close>

lemma char_at_shift [simp]: "char_at (u @ v) (length u + k) = char_at v k"
  by (auto simp: char_at_def)

lemma scan_string_shift [simp]: "scan_string (u @ v) (length u + k) = length u + scan_string v k"
proof (induction v k rule: scan_string.induct)
  case (1 v k)
  then show ?case
    using scan_string.simps [of "u @ v" "length u + k"] scan_string.simps [of v k] by (auto simp: add.assoc)
qed

lemma skip_blank_shift [simp]: "skip_blank (u @ v) (length u + k) = length u + skip_blank v k"
proof (induction v k rule: skip_blank.induct)
  case (1 v k)
  then show ?case
    using skip_blank.simps [of "u @ v" "length u + k"] skip_blank.simps [of v k] by auto
qed

lemma scan_number_shift [simp]: "scan_number (u @ v) (length u + k) = length u + scan_number v k"
proof (induction v k rule: scan_number.induct)
  case (1 v k)
  then show ?case
    using scan_number.simps [of "u @ v" "length u + k"] scan_number.simps [of v k] by auto
qed

lemma startsValue_shift [simp]: "startsValue (u @ v) (length u + k) = startsValue v k"
  by (simp add: startsValue_def)

lemma scan_punctuation_shift [simp]:
  "scan_punctuation (u @ v) (length u + k) = length u + scan_punctuation v k"
proof (induction v k rule: scan_punctuation.induct)
  case (1 v k)
  then show ?case
    using scan_punctuation.simps [of "u @ v" "length u + k"] scan_punctuation.simps [of v k] by auto
qed

lemma slice_shift [simp]: "slice (u @ v) (length u + i) (length u + e) = slice v i e"
  by (simp add: slice_def)

lemma readToken_shift [simp]: "readToken (u @ v) (length u + k) = readToken v k"
  using scan_string_shift [of u v "k + 1"] scan_number_shift [of u v "k + 1"]
    scan_punctuation_shift [of u v "k + 1"]
  by (simp add: readToken_def endOfString_def endOfNumber_def endOfPunctuation_def isKey_def
      literalAt_def Let_def del: scan_string_shift scan_number_shift scan_punctuation_shift)

lemma tokens_from_shift: "tokens_from (u @ v) (length u + k) = tokens_from v k"
proof (induction v k rule: tokens_from.induct)
  case (1 v k)
  then show ?case
    using tokens_from.simps [of "u @ v" "length u + k"] tokens_from.simps [of v k]
    by (auto simp: Let_def add.assoc)
qed

text \<open>Hence one step consumes the first lexeme and goes on with the rest of the text.\<close>

lemma tokens_step:
  assumes "u \<noteq> []" and "readToken (u @ v) 0 = \<lparr>tk_value = u, tk_kind = k\<rparr>"
  shows "tokens_from (u @ v) 0 = \<lparr>tk_value = u, tk_kind = k\<rparr> # tokens_from v 0"
  using assms tokens_from_shift [of u v 0] by (subst tokens_from.simps) (simp add: Let_def)

section \<open>Reading one lexeme\<close>

subsection \<open>Strings\<close>

lemma scan_plain: "c \<noteq> backslash \<Longrightarrow> c \<noteq> quote \<Longrightarrow> scan_string (c # r) 0 = Suc (scan_string r 0)"
  using scan_string_shift [of "[c]" r 0] by (subst scan_string.simps) simp

lemma scan_escape: "scan_string (backslash # c # r) 0 = Suc (Suc (scan_string r 0))"
  using scan_string_shift [of "[backslash, c]" r 0] by (subst scan_string.simps) simp

lemma scan_close: "scan_string (quote # r) 0 = 1"
  by (subst scan_string.simps) (simp add: quote_def backslash_def)

lemma hex_digit_plain: "v < 16 \<Longrightarrow> hex_digit v \<noteq> backslash \<and> hex_digit v \<noteq> quote"
proof -
  assume "v < 16"
  then have "v \<in> set [0..<16]" by simp
  moreover have "\<forall>v \<in> set [0..<16]. hex_digit v \<noteq> backslash \<and> hex_digit v \<noteq> quote"
    by code_simp
  ultimately show ?thesis by blast
qed

lemma scan_quote_char: "scan_string (quote_char c @ r) 0 = length (quote_char c) + scan_string r 0"
proof -
  have hex: "of_char c div 16 < (16 :: nat)" "of_char c mod 16 < (16 :: nat)" 
    using nat_of_char_less_256 [of c] by (auto simp: less_mult_imp_div_less)
  have zero: "CHR ''0'' \<noteq> backslash" "CHR ''0'' \<noteq> quote" by (simp_all add: backslash_def quote_def)
  have "[CHR 0x5C, x] @ r = backslash # x # r" for x by (simp add: backslash_def)
  then show ?thesis
    using hex_digit_plain [OF hex(1)] hex_digit_plain [OF hex(2)] zero
    unfolding quote_char_def
    by (auto simp: scan_escape scan_plain simp flip: backslash_def quote_def)
qed

lemma scan_body: "scan_string (concat (map quote_char s) @ quote # r) 0 = Suc (length (concat (map quote_char s)))"
  by (induction s) (simp_all add: scan_close scan_quote_char)

definition key_follows :: "string \<Rightarrow> bool" where
  "key_follows r \<longleftrightarrow> starts_with '':'' (dropWhile (\<lambda>c. c = CHR '' '' \<or> c = newline) r)"

lemma isKey_suffix: "isKey (u @ r) (length u) \<longleftrightarrow> key_follows r"
proof -
  have "isKey r 0 \<longleftrightarrow> key_follows r"
  proof (induction r)
    case Nil
    then show ?case by (simp add: isKey_def key_follows_def char_at_def)
  next
    case (Cons c r)
    have "isKey (c # r) 1 \<longleftrightarrow> isKey r 0"
      using skip_blank_shift [of "[c]" r 0] char_at_shift [of "[c]" r "skip_blank r 0"]
      by (simp add: isKey_def)
    moreover have "isKey (c # r) 0 \<longleftrightarrow> (if c = CHR '' '' \<or> c = newline then isKey (c # r) 1 else c = CHR '':'')"
      unfolding isKey_def using skip_blank.simps [of "c # r" 0] by (auto simp: char_at_def)
    ultimately show ?case using Cons.IH by (auto simp: key_follows_def)
  qed
  moreover have "isKey (u @ r) (length u) \<longleftrightarrow> isKey r 0"
    using skip_blank_shift [of u r 0] char_at_shift [of u r "skip_blank r 0"] by (simp add: isKey_def)
  ultimately show ?thesis by simp
qed

lemma tokens_string:
  "tokens_from (json_quote s @ r) 0 =
     \<lparr>tk_value = json_quote s, tk_kind = (if key_follows r then KKey else KString)\<rparr> # tokens_from r 0"
proof (rule tokens_step)
  let ?b = "concat (map quote_char s)"
  have q: "json_quote s = quote # ?b @ [quote]" by (simp add: json_quote_def quote_def)
  have "scan_string (quote # ?b @ quote # r) 1 = Suc (scan_string (?b @ quote # r) 0)"
    using scan_string_shift [of "[quote]" "?b @ quote # r" 0] by simp
  then have e: "endOfString (json_quote s @ r) 0 = length (json_quote s)"
    by (simp add: endOfString_def q scan_body)
  have "char_at (json_quote s @ r) 0 = Some quote" by (simp add: q char_at_def)
  then show "readToken (json_quote s @ r) 0 =
      \<lparr>tk_value = json_quote s, tk_kind = (if key_follows r then KKey else KString)\<rparr>"
    by (simp add: readToken_def e isKey_suffix slice_def Let_def)
qed (simp add: json_quote_def)

subsection \<open>Numbers, literals, punctuation\<close>

lemma scan_number_body:
  assumes "list_all number_body v" and "r = [] \<or> \<not> number_body (hd r)"
  shows "scan_number (v @ r) 0 = length v"
  using assms(1)
proof (induction v)
  case Nil
  then show ?case using assms(2) by (subst scan_number.simps) (cases r; simp)
next
  case (Cons c v)
  then show ?case
    using scan_number_shift [of "[c]" "v @ r" 0] by (subst scan_number.simps) simp
qed

lemma number_start_cases: "number_start c \<Longrightarrow> number_body c \<and> c \<noteq> quote"
  by (auto simp: number_start_def number_body_def is_digit_def quote_def)

lemma tokens_number:
  assumes "number_start c" and "list_all number_body v" and "r = [] \<or> \<not> number_body (hd r)"
  shows "tokens_from ((c # v) @ r) 0 = \<lparr>tk_value = c # v, tk_kind = KNumber\<rparr> # tokens_from r 0"
proof (rule tokens_step)
  have "endOfNumber ((c # v) @ r) 0 = length (c # v)"
    using scan_number_shift [of "[c]" "v @ r" 0] scan_number_body [OF assms(2,3)]
    by (simp add: endOfNumber_def)
  then show "readToken ((c # v) @ r) 0 = \<lparr>tk_value = c # v, tk_kind = KNumber\<rparr>"
    using number_start_cases [OF assms(1)] assms(1)
    by (simp add: readToken_def char_at_def slice_def)
qed simp

lemma tokens_literal:
  "tokens_from (''true'' @ r) 0 = \<lparr>tk_value = ''true'', tk_kind = KBoolean\<rparr> # tokens_from r 0"
  "tokens_from (''false'' @ r) 0 = \<lparr>tk_value = ''false'', tk_kind = KBoolean\<rparr> # tokens_from r 0"
  "tokens_from (''null'' @ r) 0 = \<lparr>tk_value = ''null'', tk_kind = KNull\<rparr> # tokens_from r 0"
  using tokens_step [of "''true''" r KBoolean] tokens_step [of "''false''" r KBoolean]
    tokens_step [of "''null''" r KNull]
  by (simp_all add: readToken_def char_at_def literalAt_def number_start_def is_digit_def quote_def)

definition punct_char :: "char \<Rightarrow> bool" where
  "punct_char c \<longleftrightarrow>
     c \<in> {CHR ''['', CHR '']'', CHR ''{'', CHR ''}'', CHR '','', CHR '':'', CHR '' '', newline}"

text \<open>What may follow a run of punctuation: nothing, a string or a bare value.\<close>

definition value_follows :: "string \<Rightarrow> bool" where
  "value_follows r \<longleftrightarrow> r = [] \<or> hd r = quote \<or> startsValue r 0"

lemma punct_char_plain:
  "punct_char c \<Longrightarrow> c \<noteq> quote \<and> \<not> number_start c \<and> c \<noteq> CHR ''t'' \<and> c \<noteq> CHR ''f'' \<and> c \<noteq> CHR ''n''"
  unfolding punct_char_def newline_def
  by (elim insertE) (simp_all add: quote_def number_start_def is_digit_def)

lemma punct_char_not_value:
  "punct_char c \<Longrightarrow> c \<noteq> quote \<and> \<not> startsValue (c # r) 0 \<and> literalAt (c # r) 0 = None \<and> \<not> number_start c"
  using punct_char_plain [of c] by (auto simp: startsValue_def literalAt_def char_at_def)

lemma scan_punctuation_body:
  assumes "list_all punct_char p" and "value_follows r"
  shows "scan_punctuation (p @ r) 0 = length p"
  using assms(1)
proof (induction p)
  case Nil
  then show ?case using assms(2)
    by (subst scan_punctuation.simps) (cases r; auto simp: value_follows_def)
next
  case (Cons c p)
  then show ?case
    using scan_punctuation_shift [of "[c]" "p @ r" 0] punct_char_not_value [of c "p @ r"]
    by (subst scan_punctuation.simps) simp
qed

lemma tokens_punctuation:
  assumes "list_all punct_char p" and "value_follows r"
  shows "tokens_from (p @ r) 0 = pending_token p @ tokens_from r 0"
proof (cases p)
  case Nil
  then show ?thesis by (simp add: pending_token_def)
next
  case (Cons c p')
  have "endOfPunctuation (p @ r) 0 = length p"
    using scan_punctuation_shift [of "[c]" "p' @ r" 0] scan_punctuation_body [of p' r] assms Cons
    by (simp add: endOfPunctuation_def)
  then have "readToken (p @ r) 0 = \<lparr>tk_value = p, tk_kind = KPunctuation\<rparr>"
    using punct_char_not_value [of c "p' @ r"] assms(1) Cons
    by (simp add: readToken_def char_at_def slice_def)
  then show ?thesis using Cons tokens_step [of p r KPunctuation]
    by (simp add: pending_token_def punct_def)
qed

section \<open>Lexeme sequences that can be read back\<close>

fun lexeme_ok :: "token_kind \<Rightarrow> string \<Rightarrow> string \<Rightarrow> bool" where
  "lexeme_ok KKey s r \<longleftrightarrow> (\<exists>k. s = json_quote k) \<and> key_follows r"
| "lexeme_ok KString s r \<longleftrightarrow> (\<exists>k. s = json_quote k) \<and> \<not> key_follows r"
| "lexeme_ok KNumber s r \<longleftrightarrow>
     (\<exists>c v. s = c # v \<and> number_start c \<and> list_all number_body v) \<and> (r = [] \<or> \<not> number_body (hd r))"
| "lexeme_ok KBoolean s r \<longleftrightarrow> s = ''true'' \<or> s = ''false''"
| "lexeme_ok KNull s r \<longleftrightarrow> s = ''null''"
| "lexeme_ok KPunctuation s r \<longleftrightarrow> list_all punct_char s"

fun lexemes_ok :: "json_token list \<Rightarrow> bool" where
  "lexemes_ok [] \<longleftrightarrow> True"
| "lexemes_ok (t # ts) \<longleftrightarrow> lexeme_ok (tk_kind t) (tk_value t) (text_of ts) \<and> lexemes_ok ts"

lemma tokens_lexeme:
  assumes "lexeme_ok (tk_kind t) (tk_value t) r" and "tk_kind t \<noteq> KPunctuation"
  shows "tokens_from (tk_value t @ r) 0 = t # tokens_from r 0"
    and "value_follows (tk_value t @ r)"
proof -
  show "tokens_from (tk_value t @ r) 0 = t # tokens_from r 0"
    using assms
    by (cases t; cases "tk_kind t")
      (auto simp: tokens_string tokens_literal [simplified] tokens_number [simplified]
        tokens_number [where r = "[]", simplified])
  show "value_follows (tk_value t @ r)"
    using assms
    by (cases t; cases "tk_kind t")
      (auto simp: value_follows_def json_quote_def quote_def startsValue_def char_at_def)
qed

lemma tokens_merge:
  "lexemes_ok ts \<Longrightarrow> list_all punct_char p \<Longrightarrow> tokens_from (p @ text_of ts) 0 = merge_punctuation p ts"
proof (induction ts arbitrary: p)
  case Nil
  then show ?case using tokens_punctuation [of p "[]"]
    by (simp add: value_follows_def highlighter.run_end)
next
  case (Cons t ts)
  show ?case
  proof (cases "tk_kind t = KPunctuation")
    case True
    then show ?thesis using Cons.prems Cons.IH [of "p @ tk_value t"] by simp
  next
    case False
    note t = tokens_lexeme [OF _ False, of "text_of ts"]
    have ok: "lexeme_ok (tk_kind t) (tk_value t) (text_of ts)" "lexemes_ok ts"
      using Cons.prems by simp_all
    show ?thesis
      using t [OF ok(1)] Cons.IH [of "[]"] ok(2) False
        tokens_punctuation [OF Cons.prems(2), of "tk_value t @ text_of ts"]
      by simp
  qed
qed

text \<open>A text after which no string is a key and no number goes on, as after every value of a
  pretty-printed document.\<close>

definition ends_value :: "string \<Rightarrow> bool" where
  "ends_value r \<longleftrightarrow> \<not> key_follows r \<and> (r = [] \<or> \<not> number_body (hd r))"

definition fits :: "json_token list \<Rightarrow> bool" where
  "fits ts \<longleftrightarrow> (\<forall>rest. ends_value (text_of rest) \<and> lexemes_ok rest \<longrightarrow> lexemes_ok (ts @ rest))"

lemma key_follows_spaces: "key_follows (spaces n @ r) = key_follows r"
proof -
  have "dropWhile (\<lambda>c. c = CHR '' '' \<or> c = newline) (spaces n @ r)
          = dropWhile (\<lambda>c. c = CHR '' '' \<or> c = newline) r"
    by (induction n) (auto simp: spaces_def)
  then show ?thesis by (simp add: key_follows_def)
qed

lemma key_follows_Cons:
  "key_follows (c # r) = (if c = CHR '' '' \<or> c = newline then key_follows r else c = CHR '':'')"
  by (auto simp: key_follows_def)

lemma ends_value_Nil: "ends_value []"
  by (simp add: ends_value_def key_follows_def)

lemma punct_char_not_body: "punct_char c \<Longrightarrow> \<not> number_body c"
  unfolding punct_char_def newline_def
  by (elim insertE) (simp_all add: number_body_def is_digit_def)

lemma ends_value_comma: "ends_value (CHR '','' # r)"
  by (simp add: ends_value_def key_follows_Cons newline_def number_body_def is_digit_def)

lemma ends_value_close:
  assumes "c = CHR '']'' \<or> c = CHR ''}''"
  shows "ends_value (newline # spaces n @ c # r)"
proof -
  have "\<not> number_body newline" by (simp add: newline_def number_body_def is_digit_def)
  then show ?thesis using assms
    by (auto simp: ends_value_def key_follows_Cons key_follows_spaces newline_def)
qed

lemma punct_spaces: "list_all punct_char (spaces n)"
  by (simp add: spaces_def punct_char_def list_all_iff)

lemma punct_simps [simp]:
  "tk_value (punct s) = s" "tk_kind (punct s) = KPunctuation"
  by (simp_all add: punct_def)

lemma punct_char_simps [simp]:
  "punct_char (CHR ''['')" "punct_char (CHR '']'')" "punct_char (CHR ''{'')" "punct_char (CHR ''}'')"
  "punct_char (CHR '','')" "punct_char (CHR '':'')" "punct_char (CHR '' '')" "punct_char newline"
  by (simp_all add: punct_char_def)

lemma fits_join:
  assumes "\<forall>p \<in> set parts. fits p" and "ends_value (text_of rest)" and "lexemes_ok rest"
  shows "lexemes_ok (join [punct ([CHR '','', newline] @ spaces n)] parts @ rest)"
  using assms
proof (induction "[punct ([CHR '','', newline] @ spaces n)]" parts rule: join.induct)
  case (3 p q ps)
  let ?tail = "punct ([CHR '','', newline] @ spaces n) # join [punct ([CHR '','', newline] @ spaces n)] (q # ps) @ rest"
  have "lexemes_ok (join [punct ([CHR '','', newline] @ spaces n)] (q # ps) @ rest)"
    using 3 by simp
  then have "lexemes_ok ?tail" by (simp add: punct_spaces)
  moreover have "ends_value (text_of ?tail)" by (simp add: ends_value_comma)
  ultimately show ?case using 3 by (auto simp: fits_def)
qed (auto simp: fits_def)

lemma fits_block:
  assumes parts: "\<forall>p \<in> set parts. fits p"
    and l: "l = CHR ''['' \<or> l = CHR ''{''" and r: "r = CHR '']'' \<or> r = CHR ''}''"
  shows "fits (block_lexemes l r ind parts)"
  unfolding fits_def
proof (intro allI impI)
  fix rest
  assume rest: "ends_value (text_of rest) \<and> lexemes_ok rest"
  let ?close = "punct ([newline] @ spaces ind @ [r]) # rest"
  have "ends_value (text_of ?close)" using ends_value_close [OF r] by simp
  moreover have "lexemes_ok ?close" using rest r by (auto simp: punct_spaces)
  ultimately have "lexemes_ok (join [punct ([CHR '','', newline] @ spaces (ind + 2))] parts @ ?close)"
    using parts by (intro fits_join)
  then show "lexemes_ok (block_lexemes l r ind parts @ rest)"
    using rest l r by (auto simp: block_lexemes_def punct_spaces)
qed

subsection \<open>Printed numbers are number lexemes\<close>

lemma is_digit_body: "is_digit c \<Longrightarrow> number_body c"
  by (simp add: number_body_def)

lemma digits_body: "list_all number_body (digits n)"
  using digits_are_digits [of n] by (auto simp: list_all_iff intro: is_digit_body)

definition number_text :: "string \<Rightarrow> bool" where
  "number_text s \<longleftrightarrow> (\<exists>c v. s = c # v \<and> number_start c \<and> list_all number_body v)"

lemma number_textI: "s \<noteq> [] \<Longrightarrow> number_start (hd s) \<Longrightarrow> list_all number_body s \<Longrightarrow> number_text s"
  by (cases s) (auto simp: number_text_def)

lemma dec_to_string_text: "number_text (dec_to_string s n) \<and> list_all number_body (dec_to_string s n)"
proof -
  obtain d ds where ds: "digits s = d # ds" using digits_are_digits [of s] by (cases "digits s") auto
  have d: "is_digit d" "list_all number_body (d # ds)"
    using digits_are_digits [of s] digits_body [of s] ds by simp_all
  have zero: "is_digit (CHR ''0'')" by (simp add: is_digit_def)
  have body: "list_all number_body (dec_to_string s n)"
    using d digits_body zero
    by (simp add: dec_to_string_def Let_def ds list_all_take list_all_drop list_all_replicate
        is_digit_body number_body_def [of "CHR ''.''"] number_body_def [of "CHR ''e''"]
        number_body_def [of "CHR ''+''"] number_body_def [of "CHR ''-''"])
  have "number_start (hd (dec_to_string s n)) \<and> dec_to_string s n \<noteq> []"
    using d(1) zero
    by (auto simp: dec_to_string_def Let_def ds number_start_def hd_append take_Cons split: nat.splits)
  then show ?thesis using body by (blast intro: number_textI)
qed

lemma number_to_string_text: "number_text (number_to_string (Dec neg s n))"
proof -
  have "number_start (CHR ''0'')" "number_start (CHR ''-'')" by (simp_all add: number_start_def is_digit_def)
  then show ?thesis using dec_to_string_text [of s n] by (auto simp: number_text_def)
qed

lemma fits_token:
  assumes "\<And>r. ends_value r \<Longrightarrow> lexeme_ok (tk_kind t) (tk_value t) r"
  shows "fits [t]"
  using assms by (simp add: fits_def)

lemma fits_number: "fits [number_lexeme x]"
  using number_to_string_text
  by (cases x; intro fits_token) (auto simp: null_token_def ends_value_def number_text_def)

lemma fits_member:
  assumes "fits ts"
  shows "fits (\<lparr>tk_value = json_quote k, tk_kind = KKey\<rparr> # punct '': '' # ts)"
  using assms by (auto simp: fits_def key_follows_Cons newline_def)

lemma fits_lexemes:
  "fits (lexemes ind v)"
  "\<forall>p \<in> set (lexemes_elems ind vs). fits p"
  "\<forall>p \<in> set (lexemes_members ind ms). fits p"
proof (induction ind v and ind vs and ind ms rule: lexemes_lexemes_elems_lexemes_members.induct)
  case (1 ind)
  then show ?case by (simp add: fits_def)
next
  case (2 ind)
  then show ?case by (simp add: null_token_def fits_token)
next
  case (3 ind b)
  then show ?case by (simp add: fits_token)
next
  case (4 ind x)
  then show ?case by (simp add: fits_number)
next
  case (5 ind s)
  show ?case by (simp, rule fits_token) (auto simp: ends_value_def)
next
  case (6 ind xs)
  then show ?case by (simp add: fits_block)
next
  case (7 ind ms)
  then show ?case by (simp add: fits_block)
next
  case (9 ind x xs)
  then show ?case by (auto simp: null_token_def intro: fits_token)
next
  case (11 ind k v ms)
  then show ?case by (auto intro: fits_member)
qed simp_all

section \<open>Properties\<close>

text \<open>
  C10. The highlighter loses nothing: for every value the tokens' texts, concatenated, are the
  pretty-printed JSON of the value, character for character, and no token is empty (so the
  loop always advances, and the number of tokens is at most the length of the text).
\<close>

theorem tokenize_lossless:
  "concat (map tk_value (tokenizeJson v)) = (case pretty 0 v of None \<Rightarrow> [] | Some json \<Rightarrow> json) \<and>
   [] \<notin> tk_value ` set (tokenizeJson v) \<and>
   length (tokenizeJson v) \<le> length (case pretty 0 v of None \<Rightarrow> [] | Some json \<Rightarrow> json)"
  using highlighter.run_no_empty highlighter.run_length [of _ 0]
  by (fastforce simp: tokenizeJson_def highlighter.run_concat)

text \<open>
  C9. The highlighter classifies correctly: on every JSON value the scanner's tokens are
  exactly the value's lexemes, member names as keys, string values as strings (whatever
  digits, words, quotes or colons they contain), numbers, booleans and null as such, with each
  maximal run of brackets, commas, colons and blanks as one punctuation token.
\<close>

theorem tokenize_classifies: "tokenizeJson v = merge_punctuation [] (lexemes 0 v)"
proof -
  have "lexemes_ok (lexemes 0 v)"
    using fits_lexemes(1) [of 0 v] ends_value_Nil by (auto simp: fits_def dest: spec [of _ "[]"])
  then have "tokens_from (text_of (lexemes 0 v)) 0 = merge_punctuation [] (lexemes 0 v)"
    using tokens_merge [of "lexemes 0 v" "[]"] by simp
  then show ?thesis by (simp add: tokenizeJson_def text_of_lexemes(1))
qed

end
