(* ===== verification/LocalStorage.thy ===== *)
theory LocalStorage
  imports Prelude
begin

text \<open>
  The browser's \<open>localStorage\<close> as the code uses it: \<open>getItem\<close>, \<open>setItem\<close> and
  \<open>removeItem\<close>, each of which can throw (\<open>None\<close>). With storage disabled every access
  throws; with the quota used up only \<open>setItem\<close> does. The locale \<open>key_value_store\<close> is
  what the broker settings and the theme rely on, proved once and interpreted on this store.
\<close>

record storage =
  st_items :: "string \<Rightarrow> string option"
  st_enabled :: bool
  st_full :: bool

definition getItem :: "storage \<Rightarrow> string \<Rightarrow> string option option" where
  "getItem st k = (if st_enabled st then Some (st_items st k) else None)"

definition setItem :: "storage \<Rightarrow> string \<Rightarrow> string \<Rightarrow> storage option" where
  "setItem st k v =
     (if st_enabled st \<and> \<not> st_full st then Some (st\<lparr>st_items := (st_items st)(k \<mapsto> v)\<rparr>) else None)"

definition removeItem :: "storage \<Rightarrow> string \<Rightarrow> storage option" where
  "removeItem st k =
     (if st_enabled st then Some (st\<lparr>st_items := (st_items st)(k := None)\<rparr>) else None)"

text \<open>A write inside \<open>try { ... } catch { }\<close>: an exception leaves the store as it was.\<close>

definition attempt :: "('s \<Rightarrow> 's option) \<Rightarrow> 's \<Rightarrow> 's" where
  "attempt f s = (case f s of None \<Rightarrow> s | Some s' \<Rightarrow> s')"

locale key_value_store =
  fixes get :: "'s \<Rightarrow> 'k \<Rightarrow> 'v option option"
    and put :: "'s \<Rightarrow> 'k \<Rightarrow> 'v \<Rightarrow> 's option"
    and erase :: "'s \<Rightarrow> 'k \<Rightarrow> 's option"
  assumes get_put: "put s k v = Some s' \<Longrightarrow> get s' k = Some (Some v)"
    and get_put_other: "put s k v = Some s' \<Longrightarrow> j \<noteq> k \<Longrightarrow> get s' j = get s j"
    and get_erase: "erase s k = Some s' \<Longrightarrow> get s' k = Some None"
    and get_erase_other: "erase s k = Some s' \<Longrightarrow> j \<noteq> k \<Longrightarrow> get s' j = get s j"
begin

lemma attempt_write_other: "j \<noteq> k \<Longrightarrow> get (attempt (\<lambda>s. put s k v) s) j = get s j"
  by (cases "put s k v") (auto simp: attempt_def get_put_other)

lemma attempt_erase_other: "j \<noteq> k \<Longrightarrow> get (attempt (\<lambda>s. erase s k) s) j = get s j"
  by (cases "erase s k") (auto simp: attempt_def get_erase_other)

lemma attempt_write_read:
  "get (attempt (\<lambda>s. put s k v) s) k = (if put s k v = None then get s k else Some (Some v))"
  by (cases "put s k v") (auto simp: attempt_def get_put)

lemma attempt_erase_read:
  "get (attempt (\<lambda>s. erase s k) s) k = (if erase s k = None then get s k else Some None)"
  by (cases "erase s k") (auto simp: attempt_def get_erase)

end

interpretation local_storage: key_value_store getItem setItem removeItem
  by unfold_locales (auto simp: getItem_def setItem_def removeItem_def split: if_splits)

lemmas storage_simps =
  local_storage.attempt_write_other local_storage.attempt_erase_other
  local_storage.attempt_write_read local_storage.attempt_erase_read

lemma setItem_None_iff: "setItem st k v = None \<longleftrightarrow> \<not> st_enabled st \<or> st_full st"
  by (simp add: setItem_def)

lemma removeItem_None_iff: "removeItem st k = None \<longleftrightarrow> \<not> st_enabled st"
  by (simp add: removeItem_def)

end
