(* ===== verification/Theme.thy ===== *)
theory Theme
  imports LocalStorage
begin

text \<open>
  \<^verbatim>\<open>apps/web/src/lib/theme.tsx\<close>, the toggle of
  \<^verbatim>\<open>apps/web/src/components/theme-toggle.tsx\<close> and the bootstrap script inlined by
  \<^verbatim>\<open>apps/web/app/layout.tsx\<close>. The provider is a state machine: its React state, what it has
  painted on \<open><html>\<close>, whether it listens to the operating system, the store and the
  operating system's setting. An effect runs after the commit that changed its dependency;
  \<open>None\<close> is an exception that escapes to the error boundary.
\<close>

section \<open>The code\<close>

definition THEME_STORAGE_KEY :: string where
  "THEME_STORAGE_KEY = ''allowlister-remote-theme''"

datatype preference = System | Light | Dark

datatype resolved = RLight | RDark

definition parse_preference :: "string option \<Rightarrow> preference" where
  "parse_preference stored =
     (if stored = Some ''light'' then Light
      else if stored = Some ''dark'' then Dark
      else if stored = Some ''system'' then System
      else System)"

fun preference_string :: "preference \<Rightarrow> string" where
  "preference_string System = ''system''"
| "preference_string Light = ''light''"
| "preference_string Dark = ''dark''"

text \<open>\<open>readStoredPreference\<close> has no \<open>try\<close>: a store that throws propagates.\<close>

definition readStoredPreference :: "storage \<Rightarrow> preference option" where
  "readStoredPreference st = map_option parse_preference (getItem st THEME_STORAGE_KEY)"

fun resolveTheme :: "bool \<Rightarrow> preference \<Rightarrow> resolved" where
  "resolveTheme prefersDark System = (if prefersDark then RDark else RLight)"
| "resolveTheme prefersDark Light = RLight"
| "resolveTheme prefersDark Dark = RDark"

text \<open>\<open>matchMedia\<close> of the color scheme: \<open>None\<close> where the function is missing.\<close>

definition prefersDark :: "bool option \<Rightarrow> bool" where
  "prefersDark media = (case media of None \<Rightarrow> False | Some matches \<Rightarrow> matches)"

record theme_state =
  th_preference :: preference
  th_resolved :: resolved
  th_html_dark :: bool
  th_color_scheme :: "resolved option"
  th_listening :: bool
  th_os_dark :: bool
  th_storage :: storage

definition applyTheme :: "resolved \<Rightarrow> theme_state \<Rightarrow> theme_state" where
  "applyTheme r s = s\<lparr>th_html_dark := (r = RDark), th_color_scheme := Some r\<rparr>"

text \<open>The local function \<open>apply\<close> of the second effect.\<close>

definition theme_apply :: "theme_state \<Rightarrow> theme_state" where
  "theme_apply s =
     (let next_theme = resolveTheme (th_os_dark s) (th_preference s)
      in applyTheme next_theme (s\<lparr>th_resolved := next_theme\<rparr>))"

text \<open>The effect on \<open>[preference]\<close>: the cleanup of the previous run drops the listener, and
  only a system preference adds one again.\<close>

definition preference_effect :: "theme_state \<Rightarrow> theme_state" where
  "preference_effect s = (theme_apply s)\<lparr>th_listening := (th_preference s = System)\<rparr>"

text \<open>A state update of the preference: a commit, and the effect if the value changed.\<close>

definition commit_preference :: "preference \<Rightarrow> theme_state \<Rightarrow> theme_state" where
  "commit_preference p s =
     (if th_preference s = p then s else preference_effect (s\<lparr>th_preference := p\<rparr>))"

text \<open>Mounting: the first effect reads the store and queues the preference it finds, the second
  applies the initial one, then the queued update commits.\<close>

definition initial_theme :: "storage \<Rightarrow> bool \<Rightarrow> bool \<Rightarrow> theme_state" where
  "initial_theme st os html_dark =
     \<lparr>th_preference = System, th_resolved = RDark, th_html_dark = html_dark,
      th_color_scheme = None, th_listening = False, th_os_dark = os, th_storage = st\<rparr>"

definition mount_theme :: "storage \<Rightarrow> bool \<Rightarrow> bool \<Rightarrow> theme_state option" where
  "mount_theme st os html_dark =
     (case readStoredPreference st of
        None \<Rightarrow> None
      | Some p \<Rightarrow> Some (commit_preference p (preference_effect (initial_theme st os html_dark))))"

text \<open>\<open>setPreference\<close> updates the state first; a store that throws leaves it updated.\<close>

definition setPreference :: "preference \<Rightarrow> theme_state \<Rightarrow> theme_state" where
  "setPreference p s =
     (commit_preference p s)
       \<lparr>th_storage := attempt (\<lambda>st. setItem st THEME_STORAGE_KEY (preference_string p)) (th_storage s)\<rparr>"

definition os_change :: "bool \<Rightarrow> theme_state \<Rightarrow> theme_state" where
  "os_change dark s =
     (let s' = s\<lparr>th_os_dark := dark\<rparr> in if th_listening s then theme_apply s' else s')"

datatype theme_event = Choose preference | OsChange bool

fun theme_step :: "theme_state \<Rightarrow> theme_event \<Rightarrow> theme_state" where
  "theme_step s (Choose p) = setPreference p s"
| "theme_step s (OsChange dark) = os_change dark s"

text \<open>The toggle: the next preference of \<open>ORDER\<close>, and the label it announces.\<close>

definition ORDER :: "preference list" where
  "ORDER = [System, Light, Dark]"

fun index_of :: "'a list \<Rightarrow> 'a \<Rightarrow> int" where
  "index_of [] x = -1"
| "index_of (y # ys) x = (if y = x then 0 else (let i = index_of ys x in if i = -1 then -1 else i + 1))"

definition next_preference :: "preference \<Rightarrow> preference" where
  "next_preference p =
     (let i = nat ((index_of ORDER p + 1) mod int (length ORDER))
      in if i < length ORDER then ORDER ! i else System)"

fun LABELS :: "preference \<Rightarrow> string" where
  "LABELS System = ''System''"
| "LABELS Light = ''Light''"
| "LABELS Dark = ''Dark''"

definition toggle_label :: "preference \<Rightarrow> string" where
  "toggle_label p = ''Theme: '' @ LABELS p @ ''. Switch to '' @ LABELS (next_preference p) @ ''.''"

definition press_toggle :: "theme_state \<Rightarrow> theme_state" where
  "press_toggle s = setPreference (next_preference (th_preference s)) s"

text \<open>The bootstrap script: whether it puts the \<open>dark\<close> class on \<open><html>\<close>; an exception is
  caught and leaves the element as it was (no class, before first paint).\<close>

definition themeBootstrap :: "storage \<Rightarrow> bool \<Rightarrow> bool" where
  "themeBootstrap st os =
     (case getItem st THEME_STORAGE_KEY of
        None \<Rightarrow> False
      | Some stored \<Rightarrow>
          (let p = (case stored of None \<Rightarrow> ''system'' | Some s \<Rightarrow> (if s = [] then ''system'' else s))
           in p = ''dark'' \<or> (p = ''system'' \<and> os)))"

text \<open>The context: what the provider hands down, and the error of a component outside it.\<close>

record theme_context =
  tc_preference :: preference
  tc_resolved :: resolved

definition ThemeProvider :: "theme_state \<Rightarrow> theme_context" where
  "ThemeProvider s = \<lparr>tc_preference = th_preference s, tc_resolved = th_resolved s\<rparr>"

definition useTheme :: "theme_context option \<Rightarrow> string + theme_context" where
  "useTheme context =
     (case context of
        None \<Rightarrow> Inl ''useTheme must be used within a ThemeProvider''
      | Some c \<Rightarrow> Inr c)"

section \<open>Lemmas\<close>

definition painted :: "theme_state \<Rightarrow> bool" where
  "painted s \<longleftrightarrow>
     th_resolved s = resolveTheme (th_os_dark s) (th_preference s) \<and>
     th_html_dark s = (th_resolved s = RDark) \<and>
     th_color_scheme s = Some (th_resolved s) \<and>
     th_listening s = (th_preference s = System)"

lemma preference_effect_painted [wf_intros]: "painted (preference_effect s)"
  by (simp add: painted_def preference_effect_def theme_apply_def applyTheme_def Let_def)

lemma commit_preference_painted [wf_intros]: "painted s \<Longrightarrow> painted (commit_preference p s)"
  by (simp add: commit_preference_def wf_intros)

lemma os_change_painted [wf_intros]: "painted s \<Longrightarrow> painted (os_change dark s)"
  by (cases "th_preference s")
    (auto simp: painted_def os_change_def theme_apply_def applyTheme_def Let_def)

lemma theme_step_painted: "painted s \<Longrightarrow> painted (theme_step s e)"
proof (cases e)
  case (Choose p)
  assume "painted s"
  then have "painted (commit_preference p s)" by (rule commit_preference_painted)
  then show ?thesis using Choose by (simp add: setPreference_def painted_def)
next
  case (OsChange dark)
  assume "painted s"
  then show ?thesis using OsChange by (simp add: os_change_painted)
qed

interpretation theme: event_machine theme_step painted
  by unfold_locales (rule theme_step_painted)

lemma commit_preference_fields [simp]:
  "th_preference (commit_preference p s) = p"
  "th_storage (commit_preference p s) = th_storage s"
  "th_os_dark (commit_preference p s) = th_os_dark s"
  by (simp_all add: commit_preference_def preference_effect_def theme_apply_def applyTheme_def Let_def)

lemma preference_effect_fields [simp]:
  "th_preference (preference_effect s) = th_preference s"
  "th_storage (preference_effect s) = th_storage s"
  "th_os_dark (preference_effect s) = th_os_dark s"
  by (simp_all add: preference_effect_def theme_apply_def applyTheme_def Let_def)

lemma mount_theme_SomeD:
  assumes "mount_theme st os h = Some s"
  shows "painted s" and "readStoredPreference st = Some (th_preference s)"
    and "th_os_dark s = os" and "th_storage s = st"
  using assms
  by (auto simp: mount_theme_def initial_theme_def intro!: wf_intros split: option.splits)

lemma parse_preference_string [simp]: "parse_preference (Some (preference_string p)) = p"
  by (cases p) (auto simp: parse_preference_def)

lemma index_of_ORDER: "index_of ORDER System = 0" "index_of ORDER Light = 1" "index_of ORDER Dark = 2"
  by (simp_all add: ORDER_def Let_def)

lemma next_preference_simps [simp]:
  "next_preference System = Light" "next_preference Light = Dark" "next_preference Dark = System"
  by (simp_all add: next_preference_def index_of_ORDER) (simp_all add: ORDER_def)

section \<open>Properties\<close>

text \<open>
  C21. What is painted always follows the choice: from a mounted provider, after any choices
  and any changes of the operating system's setting, the class and the colour scheme on
  \<open><html>\<close> are those of the current preference, a system preference tracks the operating
  system live, and a pinned one does not listen to it.
\<close>

theorem theme_paint_invariant:
  assumes "mount_theme st os h = Some s"
  shows "painted (foldl theme_step s es)"
  using mount_theme_SomeD(1) [OF assms] by (rule theme.run_inv)

theorem theme_paint_invariant_witness:
  "\<exists>s. mount_theme \<lparr>st_items = Map.empty, st_enabled = True, st_full = False\<rparr> False True = Some s \<and>
       painted (foldl theme_step s [OsChange True, Choose Light, OsChange False])"
proof -
  let ?st = "\<lparr>st_items = Map.empty, st_enabled = True, st_full = False\<rparr>"
  obtain s where s: "mount_theme ?st False True = Some s"
    by (auto simp: mount_theme_def readStoredPreference_def getItem_def)
  show ?thesis using s theme_paint_invariant [OF s] by blast
qed

text \<open>
  A choice survives a reload: with a usable store, mounting again after a choice adopts
  that choice, whatever was chosen before and whatever the operating system's setting.
\<close>

lemma theme_choice_persists:
  assumes "st_enabled (th_storage s)" and "\<not> st_full (th_storage s)"
  shows "\<exists>s'. mount_theme (th_storage (setPreference p s)) os h = Some s' \<and>
              th_preference s' = p \<and> th_html_dark s' = (resolveTheme os p = RDark)"
proof -
  have "readStoredPreference (th_storage (setPreference p s)) = Some p"
    using assms by (simp add: readStoredPreference_def setPreference_def storage_simps setItem_None_iff)
  then obtain s' where s': "mount_theme (th_storage (setPreference p s)) os h = Some s'"
    by (simp add: mount_theme_def)
  note m = mount_theme_SomeD [OF s']
  show ?thesis using s' m \<open>readStoredPreference _ = Some p\<close> by (auto simp: painted_def)
qed

text \<open>
  The bootstrap script seeds the class the provider settles on exactly when the stored
  value is absent, empty or one of the three preferences, or the operating system is light: an
  unrecognized value counts as light in the script but as the system preference in the
  provider, so the page flashes under a dark operating system.
\<close>

lemma bootstrap_agrees_iff:
  assumes "mount_theme st os h = Some s"
  shows "themeBootstrap st os = th_html_dark s \<longleftrightarrow>
           (\<not> os \<or> st_items st THEME_STORAGE_KEY \<in>
             {None, Some '''', Some ''system'', Some ''light'', Some ''dark''})"
proof -
  note m = mount_theme_SomeD [OF assms]
  have e: "st_enabled st"
    using m(2) by (auto simp: readStoredPreference_def getItem_def split: if_splits)
  then have p: "th_preference s = parse_preference (st_items st THEME_STORAGE_KEY)"
    using m(2) by (simp add: readStoredPreference_def getItem_def)
  have h: "th_html_dark s = (resolveTheme os (th_preference s) = RDark)"
    using m(1,3) by (simp add: painted_def)
  show ?thesis
    unfolding h p using e
    by (cases "st_items st THEME_STORAGE_KEY")
      (auto simp: themeBootstrap_def getItem_def parse_preference_def Let_def)
qed

lemma bootstrap_agrees_iff_witness:
  "\<exists>s. mount_theme \<lparr>st_items = [THEME_STORAGE_KEY \<mapsto> ''neon''], st_enabled = True, st_full = False\<rparr>
         True False = Some s \<and>
       themeBootstrap \<lparr>st_items = [THEME_STORAGE_KEY \<mapsto> ''neon''], st_enabled = True, st_full = False\<rparr>
         True \<noteq> th_html_dark s"
proof -
  let ?st = "\<lparr>st_items = [THEME_STORAGE_KEY \<mapsto> ''neon''], st_enabled = True, st_full = False\<rparr>"
  obtain s where s: "mount_theme ?st True False = Some s"
    by (auto simp: mount_theme_def readStoredPreference_def getItem_def)
  show ?thesis using s bootstrap_agrees_iff [OF s] by auto
qed

text \<open>
  The toggle cycles through the three preferences, every press persists its choice and
  repaints, and three presses return to where they started.
\<close>

lemma toggle_cycles:
  "next_preference (next_preference (next_preference p)) = p \<and>
   next_preference p \<noteq> p \<and> next_preference (next_preference p) \<noteq> p \<and>
   th_preference (press_toggle s) = next_preference (th_preference s) \<and>
   th_preference (press_toggle (press_toggle (press_toggle s))) = th_preference s"
proof -
  have "th_preference (press_toggle s) = next_preference (th_preference s)" for s
    by (simp add: press_toggle_def setPreference_def)
  then show ?thesis by (cases p; cases "th_preference s") simp_all
qed

end
