(* ===== verification/ApprovalTypes.thy ===== *)
theory ApprovalTypes
  imports JsValue
begin

text \<open>
  The normalized data model of \<^verbatim>\<open>apps/web/src/types.ts\<close>: verdicts, the fragments of a
  shell request, a tool call, and the approval request as a record of the fields both
  subjects share with the subject's own fields in a datatype. The record fields carry a
  prefix for the interface they belong to (\<open>fr_\<close>, \<open>tc_\<close>, \<open>rq_\<close>, \<open>dc_\<close>).
\<close>

datatype verdict = Allow | Deny | Ask | Defer

fun verdict_string :: "verdict \<Rightarrow> string" where
  "verdict_string Allow = ''allow''"
| "verdict_string Deny = ''deny''"
| "verdict_string Ask = ''ask''"
| "verdict_string Defer = ''defer''"

record fragment =
  fr_display :: string
  fr_argv :: "string list"
  fr_role :: string
  fr_verdict :: verdict
  fr_rule :: "string option"
  fr_reason :: string

record tool_call =
  tc_name :: string
  tc_capability :: string
  tc_params :: js
  tc_raw :: js

datatype subject =
    is_Shell: Shell (shell_command: string) (shell_fragments: "fragment list")
  | is_Tool: Tool (tool_of: tool_call)

record approval_request =
  rq_id :: string
  rq_protocolVersion :: number
  rq_harness :: string
  rq_sessionId :: "string option"
  rq_cwd :: string
  rq_currentVerdict :: verdict
  rq_currentReason :: string
  rq_subject :: subject

definition isShellRequest :: "approval_request \<Rightarrow> bool" where
  "isShellRequest r = is_Shell (rq_subject r)"

definition isToolRequest :: "approval_request \<Rightarrow> bool" where
  "isToolRequest r = is_Tool (rq_subject r)"

text \<open>The verdict an operator can give; its other two values exist only on the wire.\<close>

datatype choice = ChooseAllow | ChooseDeny

fun choice_string :: "choice \<Rightarrow> string" where
  "choice_string ChooseAllow = ''allow''"
| "choice_string ChooseDeny = ''deny''"

record approval_decision =
  dc_requestId :: string
  dc_verdict :: choice
  dc_reason :: string

lemma verdict_string_inj [simp]: "verdict_string v = verdict_string w \<longleftrightarrow> v = w"
  by (cases v; cases w) auto

lemma choice_string_inj [simp]: "choice_string v = choice_string w \<longleftrightarrow> v = w"
  by (cases v; cases w) auto

lemma subject_exclusive: "isToolRequest r \<longleftrightarrow> \<not> isShellRequest r"
  by (cases "rq_subject r") (auto simp: isShellRequest_def isToolRequest_def)

end
