(* ===== verification/Normalize.thy ===== *)
theory Normalize
  imports ApprovalTypes "HOL-Library.Monad_Syntax"
begin

text \<open>
  \<^verbatim>\<open>apps/web/src/approval-normalize.ts\<close>: the page's reading of an untrusted broker payload.
  Every function is a function of a \<^typ>\<open>js\<close> value; \<open>None\<close> is a TypeError thrown by
  \<open>String\<close> or \<open>Number\<close> (see \<open>JsValue\<close>). \<open>crypto.randomUUID()\<close> is the supply
  \<open>uuid\<close> of the identifiers the browser draws, with the number of identifiers drawn so far
  passed through.

  The lemmas say when normalization throws, that a well-formed request survives the wire
  (\<open>encode_request\<close> is the payload the daemon announces for it), and that a garbled payload
  never turns a verdict into \<open>allow\<close>.
\<close>

section \<open>The code\<close>

definition asRecord :: "js \<Rightarrow> js" where
  "asRecord v = (if is_object v then v else Obj [])"

definition asVerdict :: "js \<Rightarrow> verdict" where
  "asVerdict v =
     (if v = Str ''allow'' then Allow
      else if v = Str ''deny'' then Deny
      else if v = Str ''ask'' then Ask
      else if v = Str ''defer'' then Defer
      else Defer)"

definition wholeCommandFragment :: "string \<Rightarrow> fragment" where
  "wholeCommandFragment command =
     \<lparr>fr_display = command,
      fr_argv = filter (\<lambda>w. w \<noteq> []) (split_spaces command),
      fr_role = ''standalone'',
      fr_verdict = Ask,
      fr_rule = None,
      fr_reason = ''''\<rparr>"

definition read_argv :: "js \<Rightarrow> string list option" where
  "read_argv v = (case v of Arr xs \<Rightarrow> traverse js_String xs | _ \<Rightarrow> Some [])"

definition read_fragment :: "js \<Rightarrow> fragment option" where
  "read_fragment entry =
     (let fragment = asRecord entry in do {
        argv \<leftarrow> read_argv (member fragment ''argv'');
        Some \<lparr>fr_display = string_or (member fragment ''display'') (join '' '' argv),
              fr_argv = argv,
              fr_role = string_or (member fragment ''role'') ''standalone'',
              fr_verdict = asVerdict (member fragment ''verdict''),
              fr_rule = (case member fragment ''rule'' of Str s \<Rightarrow> Some s | _ \<Rightarrow> None),
              fr_reason = string_or (member fragment ''reason'') ''''\<rparr>
      })"

definition readFragments :: "js \<Rightarrow> string \<Rightarrow> fragment list option" where
  "readFragments raw command =
     (case raw of
        Arr xs \<Rightarrow> traverse read_fragment xs
      | _ \<Rightarrow> Some (if command \<noteq> [] then [wholeCommandFragment command] else []))"

definition readTool :: "js \<Rightarrow> tool_call" where
  "readTool raw =
     (let tool = asRecord raw in
      \<lparr>tc_name = string_or (member tool ''name'') '''',
       tc_capability = string_or (member tool ''capability'') ''other'',
       tc_params = asRecord (member tool ''params''),
       tc_raw = asRecord (member tool ''raw'')\<rparr>)"

definition read_subject :: "js \<Rightarrow> subject option" where
  "read_subject input =
     (if member input ''subject'' = Str ''tool''
      then Some (Tool (readTool (member input ''tool'')))
      else do {
        command \<leftarrow> js_String (nullish_or (member input ''command'') (Str ''''));
        fragments \<leftarrow> readFragments (member input ''fragments'') command;
        Some (Shell command fragments)
      })"

definition normalizePluginRequest :: "js \<Rightarrow> string \<Rightarrow> approval_request option" where
  "normalizePluginRequest input ident = do {
     version \<leftarrow> js_Number (nullish_or (member input ''protocol_version'') (Num (Dec False 3 1)));
     harness \<leftarrow> js_String (nullish_or (member input ''harness'') (Str ''allowlister''));
     cwd \<leftarrow> js_String (nullish_or (member input ''cwd'') (Str ''''));
     reason \<leftarrow> js_String (nullish_or (member input ''current_reason'') (Str ''''));
     subject \<leftarrow> read_subject input;
     Some \<lparr>rq_id = ident,
           rq_protocolVersion = version,
           rq_harness = harness,
           rq_sessionId =
             (case member input ''session_id'' of
                Str s \<Rightarrow> (if s \<noteq> [] then Some s else None)
              | _ \<Rightarrow> None),
           rq_cwd = cwd,
           rq_currentVerdict = asVerdict (member input ''current_verdict''),
           rq_currentReason = reason,
           rq_subject = subject\<rparr>
   }"

definition normalizeBrokerRequest ::
    "(nat \<Rightarrow> string) \<Rightarrow> nat \<Rightarrow> js \<Rightarrow> (approval_request \<times> nat) option" where
  "normalizeBrokerRequest uuid n raw =
     (let record = asRecord raw in
      case member record ''id'' of
        Str ident \<Rightarrow> map_option (\<lambda>r. (r, n)) (normalizePluginRequest record ident)
      | _ \<Rightarrow> map_option (\<lambda>r. (r, Suc n)) (normalizePluginRequest record (uuid n)))"

section \<open>What a well-formed payload looks like\<close>

text \<open>The wire form of a normalized request: the protocol-v3 payload of the plugin plus the
  identifier, as the fixtures in \<^verbatim>\<open>apps/web/src/test/broker-fixtures.ts\<close> carry it.\<close>

definition encode_fragment :: "fragment \<Rightarrow> js" where
  "encode_fragment f =
     Obj [(''display'', Str (fr_display f)),
          (''argv'', Arr (map Str (fr_argv f))),
          (''role'', Str (fr_role f)),
          (''verdict'', Str (verdict_string (fr_verdict f))),
          (''rule'', (case fr_rule f of None \<Rightarrow> Null | Some s \<Rightarrow> Str s)),
          (''reason'', Str (fr_reason f))]"

definition encode_tool :: "tool_call \<Rightarrow> js" where
  "encode_tool t =
     Obj [(''name'', Str (tc_name t)), (''capability'', Str (tc_capability t)),
          (''params'', tc_params t), (''raw'', tc_raw t)]"

definition encode_request :: "approval_request \<Rightarrow> js" where
  "encode_request r =
     Obj ([(''id'', Str (rq_id r)),
           (''protocol_version'', Num (rq_protocolVersion r)),
           (''harness'', Str (rq_harness r))]
          @ (case rq_sessionId r of None \<Rightarrow> [] | Some s \<Rightarrow> [(''session_id'', Str s)])
          @ [(''cwd'', Str (rq_cwd r)),
             (''current_verdict'', Str (verdict_string (rq_currentVerdict r))),
             (''current_reason'', Str (rq_currentReason r))]
          @ (case rq_subject r of
               Shell command fragments \<Rightarrow>
                 [(''subject'', Str ''shell''), (''command'', Str command),
                  (''fragments'', Arr (map encode_fragment fragments))]
             | Tool t \<Rightarrow> [(''subject'', Str ''tool''), (''tool'', encode_tool t)]))"

text \<open>What the normalizer guarantees of its results: an absent session is \<open>None\<close>, never the
  empty string, and a tool's parameters and arguments are objects.\<close>

definition request_wf :: "approval_request \<Rightarrow> bool" where
  "request_wf r \<longleftrightarrow>
     rq_sessionId r \<noteq> Some [] \<and>
     (case rq_subject r of
        Shell _ _ \<Rightarrow> True
      | Tool t \<Rightarrow> is_object (tc_params t) \<and> is_object (tc_raw t))"

text \<open>The members \<open>String\<close> and \<open>Number\<close> are applied to can all be converted.\<close>

definition convertible :: "js \<Rightarrow> bool" where
  "convertible v \<longleftrightarrow> js_String v \<noteq> None"

definition payload_convertible :: "js \<Rightarrow> bool" where
  "payload_convertible p \<longleftrightarrow>
     convertible (member p ''protocol_version'') \<and> convertible (member p ''harness'') \<and>
     convertible (member p ''cwd'') \<and> convertible (member p ''current_reason'') \<and>
     (member p ''subject'' = Str ''tool'' \<or>
      convertible (member p ''command'') \<and>
      (case member p ''fragments'' of
         Arr fs \<Rightarrow> list_all (\<lambda>f. case member f ''argv'' of Arr xs \<Rightarrow> list_all convertible xs | _ \<Rightarrow> True) fs
       | _ \<Rightarrow> True))"

section \<open>Lemmas\<close>

lemma asRecord_is_object [simp]: "is_object (asRecord v)"
  by (simp add: asRecord_def)

lemma asRecord_object [simp]: "is_object v \<Longrightarrow> asRecord v = v"
  by (simp add: asRecord_def)

lemma member_asRecord [simp]: "member (asRecord v) k = member v k"
  by (cases v) (auto simp: asRecord_def)

lemma asVerdict_string [simp]: "asVerdict (Str (verdict_string v)) = v"
  by (cases v) (auto simp: asVerdict_def)

lemma asVerdict_Allow_iff [simp]: "asVerdict v = Allow \<longleftrightarrow> v = Str ''allow''"
  by (auto simp: asVerdict_def)

lemma js_Number_None_iff: "js_Number v = None \<longleftrightarrow> js_String v = None"
  by (cases v) auto

lemma nullish_String_None_iff:
  "js_String (nullish_or v (Str d)) = None \<longleftrightarrow> \<not> convertible v"
  by (cases v) (auto simp: convertible_def)

lemma nullish_Number_None_iff:
  "js_Number (nullish_or v (Num x)) = None \<longleftrightarrow> \<not> convertible v"
  by (cases v) (auto simp: convertible_def)

lemma read_argv_None_iff:
  "read_argv v = None \<longleftrightarrow> \<not> (case v of Arr xs \<Rightarrow> list_all convertible xs | _ \<Rightarrow> True)"
  by (cases v) (auto simp: read_argv_def traverse_None_iff convertible_def list_all_iff)

lemma read_fragment_None_iff:
  "read_fragment f = None \<longleftrightarrow>
     \<not> (case member f ''argv'' of Arr xs \<Rightarrow> list_all convertible xs | _ \<Rightarrow> True)"
  unfolding read_fragment_def Let_def member_asRecord
  by (subst read_argv_None_iff [symmetric]) (auto simp: bind_eq_None_conv)

lemma readFragments_None_iff:
  "readFragments v c = None \<longleftrightarrow>
     \<not> (case v of
           Arr fs \<Rightarrow> list_all (\<lambda>f. case member f ''argv'' of Arr xs \<Rightarrow> list_all convertible xs | _ \<Rightarrow> True) fs
         | _ \<Rightarrow> True)"
  by (cases v) (auto simp: readFragments_def traverse_None_iff read_fragment_None_iff list_all_iff)

lemma read_subject_None_iff:
  "read_subject p = None \<longleftrightarrow>
     \<not> (member p ''subject'' = Str ''tool'' \<or>
        convertible (member p ''command'') \<and>
        (case member p ''fragments'' of
           Arr fs \<Rightarrow> list_all (\<lambda>f. case member f ''argv'' of Arr xs \<Rightarrow> list_all convertible xs | _ \<Rightarrow> True) fs
         | _ \<Rightarrow> True))"
proof (cases "js_String (nullish_or (member p ''command'') (Str []))")
  case None
  then have "\<not> convertible (member p ''command'')" by (simp add: nullish_String_None_iff)
  with None show ?thesis by (simp add: read_subject_def)
next
  case (Some c)
  then have "convertible (member p ''command'')"
    using nullish_String_None_iff [of "member p ''command''" "[]"] by simp
  with Some show ?thesis
    by (simp add: read_subject_def bind_eq_None_conv readFragments_None_iff)
qed

lemma normalizePluginRequest_None_iff:
  "normalizePluginRequest p ident = None \<longleftrightarrow> \<not> payload_convertible p"
  unfolding normalizePluginRequest_def payload_convertible_def
  by (simp add: bind_eq_None_conv nullish_String_None_iff nullish_Number_None_iff
        read_subject_None_iff)

lemma normalizeBrokerRequest_None_iff:
  "normalizeBrokerRequest uuid n raw = None \<longleftrightarrow> \<not> payload_convertible (asRecord raw)"
  by (cases "member raw ''id''")
    (auto simp: normalizeBrokerRequest_def normalizePluginRequest_None_iff)

lemma normalizeBrokerRequest_plugin:
  assumes "normalizeBrokerRequest uuid n raw = Some (r, m)"
  obtains ident where "normalizePluginRequest (asRecord raw) ident = Some r"
    and "ident = (case member raw ''id'' of Str s \<Rightarrow> s | _ \<Rightarrow> uuid n)"
    and "m = (case member raw ''id'' of Str s \<Rightarrow> n | _ \<Rightarrow> Suc n)"
  using assms
  by (cases "member raw ''id''") (auto simp: normalizeBrokerRequest_def)

lemma normalizePluginRequest_SomeD:
  assumes "normalizePluginRequest p ident = Some r"
  shows "rq_id r = ident"
    and "rq_currentVerdict r = asVerdict (member p ''current_verdict'')"
    and "read_subject p = Some (rq_subject r)"
    and "rq_sessionId r \<noteq> Some []"
  using assms
  by (auto simp: normalizePluginRequest_def bind_eq_Some_conv split: js.splits if_splits)

lemma read_subject_wf:
  "read_subject p = Some (Tool t) \<Longrightarrow> is_object (tc_params t) \<and> is_object (tc_raw t)"
  by (auto simp: read_subject_def readTool_def Let_def bind_eq_Some_conv split: if_splits)

lemma normalizePluginRequest_wf [wf_intros]:
  "normalizePluginRequest p ident = Some r \<Longrightarrow> request_wf r"
  using normalizePluginRequest_SomeD(3,4) [of p ident r]
  by (auto simp: request_wf_def split: subject.splits dest: read_subject_wf)

lemma read_fragment_encode [simp]: "read_fragment (encode_fragment f) = Some f"
proof -
  have "traverse js_String (map Str xs) = Some xs" for xs
    by (induction xs) auto
  then show ?thesis
    by (cases f)
      (auto simp: read_fragment_def encode_fragment_def read_argv_def split: option.splits)
qed

lemma readTool_encode:
  "is_object (tc_params t) \<Longrightarrow> is_object (tc_raw t) \<Longrightarrow> readTool (encode_tool t) = t"
  by (cases t) (simp add: readTool_def encode_tool_def)

lemma traverse_encode [simp]: "traverse read_fragment (map encode_fragment fs) = Some fs"
  by (induction fs) auto

lemma normalizeBrokerRequest_encode:
  assumes "request_wf r"
  shows "normalizeBrokerRequest uuid n (encode_request r) = Some (r, n)"
proof (cases "rq_subject r")
  case (Shell command fragments)
  then show ?thesis using assms
    by (cases r)
      (auto simp: normalizeBrokerRequest_def encode_request_def normalizePluginRequest_def
        read_subject_def readFragments_def request_wf_def split: option.splits)
next
  case (Tool t)
  then show ?thesis using assms
    by (cases r)
      (auto simp: normalizeBrokerRequest_def encode_request_def normalizePluginRequest_def
        read_subject_def readTool_encode request_wf_def split: option.splits)
qed

section \<open>Properties\<close>

text \<open>
  C20. Normalizing a payload throws exactly when one of the members \<open>String\<close> or \<open>Number\<close>
  is applied to cannot be converted, that is, is or contains (in an array) an object with an
  own \<open>toString\<close>; every other garbled payload is normalized.
\<close>

theorem normalize_throws_iff:
  "normalizeBrokerRequest uuid n raw = None \<longleftrightarrow> \<not> payload_convertible (asRecord raw)"
  by (rule normalizeBrokerRequest_None_iff)

text \<open>
  C7. Round trip: the payload a daemon announces for a request normalizes to that request,
  draws no fresh identifier, and keeps every field of it.
\<close>

theorem normalize_encode:
  assumes "request_wf r"
  shows "normalizeBrokerRequest uuid n (encode_request r) = Some (r, n)"
  using assms by (rule normalizeBrokerRequest_encode)

theorem normalize_encode_witness:
  "\<exists>r. request_wf r \<and> is_Shell (rq_subject r) \<and>
       normalizeBrokerRequest (\<lambda>_. ''u'') 4 (encode_request r) = Some (r, 4)"
proof -
  let ?f = "\<lparr>fr_display = ''git push'', fr_argv = [''git'', ''push''], fr_role = ''standalone'',
             fr_verdict = Ask, fr_rule = Some ''ask push'', fr_reason = ''r''\<rparr>"
  let ?r = "\<lparr>rq_id = ''req-1'', rq_protocolVersion = Dec False 3 1, rq_harness = ''codex'',
             rq_sessionId = Some ''9f'', rq_cwd = ''/w'', rq_currentVerdict = Ask,
             rq_currentReason = ''why'', rq_subject = Shell ''git push'' [?f]\<rparr>"
  have wf: "request_wf ?r" by (simp add: request_wf_def)
  have "normalizeBrokerRequest (\<lambda>_. ''u'') 4 (encode_request ?r) = Some (?r, 4)"
    by (rule normalize_encode [OF wf])
  with wf show ?thesis by (intro exI [of _ ?r]) simp
qed

text \<open>
  C8. Fail-safe reading: a normalized request whose verdict is \<open>allow\<close>, or whose
  fragment's verdict is \<open>allow\<close>, comes from a payload that says exactly that; every other
  value, unknown or absent, is read as a verdict that needs the operator's attention.
\<close>

theorem normalize_allow_only_if_sent:
  assumes "normalizeBrokerRequest uuid n raw = Some (r, m)"
  shows "(rq_currentVerdict r = Allow \<longleftrightarrow> member raw ''current_verdict'' = Str ''allow'') \<and>
         (\<forall>c fs f. rq_subject r = Shell c fs \<and> f \<in> set fs \<and> fr_verdict f = Allow \<longrightarrow>
            (\<exists>es e. member raw ''fragments'' = Arr es \<and> e \<in> set es \<and>
                    read_fragment e = Some f \<and> member e ''verdict'' = Str ''allow''))"
proof -
  obtain ident where p: "normalizePluginRequest (asRecord raw) ident = Some r"
    using assms by (rule normalizeBrokerRequest_plugin)
  note r = normalizePluginRequest_SomeD [OF p]
  have "\<exists>es e. member raw ''fragments'' = Arr es \<and> e \<in> set es \<and>
                read_fragment e = Some f \<and> member e ''verdict'' = Str ''allow''"
    if s: "rq_subject r = Shell c fs" and f: "f \<in> set fs" and a: "fr_verdict f = Allow" for c fs f
  proof -
    have rf: "readFragments (member raw ''fragments'') c = Some fs"
      using r(3) s by (auto simp: read_subject_def bind_eq_Some_conv split: if_splits)
    then obtain es where es: "member raw ''fragments'' = Arr es"
      using f a by (cases "member raw ''fragments''")
        (auto simp: readFragments_def wholeCommandFragment_def split: if_splits)
    with rf have "list_all2 (\<lambda>x y. read_fragment x = Some y) es fs"
      by (simp add: readFragments_def traverse_Some_iff)
    then have "\<exists>e \<in> set es. read_fragment e = Some f"
      using f by (induction rule: list_all2_induct) auto
    then obtain e where e: "e \<in> set es" "read_fragment e = Some f" by blast
    then have "member e ''verdict'' = Str ''allow''"
      using a by (auto simp: read_fragment_def bind_eq_Some_conv)
    with es e show ?thesis by blast
  qed
  then show ?thesis using r(2) by auto
qed

theorem normalize_allow_only_if_sent_witness:
  "\<exists>r m. normalizeBrokerRequest (\<lambda>_. ''u'') 0
              (Obj [(''id'', Str ''a''), (''current_verdict'', Str ''allow'')]) = Some (r, m) \<and>
          rq_currentVerdict r = Allow"
proof -
  let ?p = "Obj [(''id'', Str ''a''), (''current_verdict'', Str ''allow'')]"
  have "normalizeBrokerRequest (\<lambda>_. ''u'') 0 ?p \<noteq> None"
    by (simp add: normalizeBrokerRequest_None_iff payload_convertible_def convertible_def)
  then obtain r m where n: "normalizeBrokerRequest (\<lambda>_. ''u'') 0 ?p = Some (r, m)" by auto
  show ?thesis using n normalize_allow_only_if_sent [OF n] by auto
qed

end
