(* ===== verification/Approval.thy ===== *)
theory Approval
  imports ApprovalTypes "HOL-Library.Multiset"
begin

text \<open>
  \<^verbatim>\<open>apps/web/src/approval.ts\<close>: what the operator is shown of a request. The functions on shell
  requests take the command and the fragments of the request, the fields they read; the
  functions on tool calls take the \<^typ>\<open>tool_call\<close>.

  The lemmas show that nothing the engine flagged is left out, that the script view is the
  command itself line by line, and that each fragment is shown on at most one line, the one
  it was parsed from.
\<close>

section \<open>Flagged fragments, rules and headline\<close>

definition flaggedFragments :: "fragment list \<Rightarrow> fragment list" where
  "flaggedFragments fragments =
     (let flagged = filter (\<lambda>f. fr_verdict f \<noteq> Allow) fragments
      in if length flagged > 0 then flagged else fragments)"

fun add_rule :: "string list \<Rightarrow> fragment \<Rightarrow> string list" where
  "add_rule rules f =
     (case fr_rule f of
        None \<Rightarrow> rules
      | Some name \<Rightarrow> (if name = [] then rules else add_once rules name))"

definition triggeredRules :: "fragment list \<Rightarrow> string list" where
  "triggeredRules fragments = foldl add_rule [] (flaggedFragments fragments)"

definition requestHeadline :: "approval_request \<Rightarrow> string" where
  "requestHeadline r =
     (case rq_subject r of
        Tool t \<Rightarrow> tc_name t
      | Shell command fragments \<Rightarrow>
          (case find (\<lambda>f. fr_verdict f \<noteq> Allow) fragments of
             Some f \<Rightarrow> fr_display f
           | None \<Rightarrow> (case fragments of [] \<Rightarrow> command | f # _ \<Rightarrow> fr_display f)))"

section \<open>Tool calls\<close>

definition middle_dot :: string where
  "middle_dot = [CHR '' '', CHR 0xB7, CHR '' '']"

definition toolParamSummary :: "tool_call \<Rightarrow> string option" where
  "toolParamSummary t =
     map_option (join middle_dot)
       (traverse (\<lambda>(k, v). map_option (\<lambda>s. k @ '' = '' @ s) (js_String v)) (entries (tc_params t)))"

text \<open>\<open>typeof value === "string" ? value : JSON.stringify(value)\<close> inside a template, where
  \<open>undefined\<close> prints as its name.\<close>

definition argument_text :: "js \<Rightarrow> string" where
  "argument_text v =
     (case v of
        Str s \<Rightarrow> s
      | _ \<Rightarrow> (case stringify v of None \<Rightarrow> ''undefined'' | Some s \<Rightarrow> s))"

definition argument_line :: "string \<times> js \<Rightarrow> string" where
  "argument_line kv = fst kv @ '' = '' @ argument_text (snd kv)"

definition toolCallLines :: "tool_call \<Rightarrow> string list" where
  "toolCallLines t = map argument_line (entries (tc_raw t))"

section \<open>The script, line by line\<close>

record script_line =
  sl_text :: string
  sl_fragment :: "fragment option"

definition exact_match :: "string \<Rightarrow> fragment \<Rightarrow> bool" where
  "exact_match text f \<longleftrightarrow> js_trim (fr_display f) = js_trim text"

definition contained_match :: "string \<Rightarrow> fragment \<Rightarrow> bool" where
  "contained_match text f \<longleftrightarrow>
     length (js_trim (fr_display f)) > 0 \<and> js_includes text (js_trim (fr_display f))"

text \<open>One callback of \<open>map\<close>: the line and the fragments that remain after it.\<close>

definition script_line :: "fragment list \<Rightarrow> string \<Rightarrow> script_line \<times> fragment list" where
  "script_line remaining text =
     (if length (js_trim text) = 0 then (\<lparr>sl_text = text, sl_fragment = None\<rparr>, remaining)
      else
        (case take_first (exact_match text) remaining of
           Some (f, rest) \<Rightarrow> (\<lparr>sl_text = text, sl_fragment = Some f\<rparr>, rest)
         | None \<Rightarrow>
             (case take_first (contained_match text) remaining of
                Some (f, rest) \<Rightarrow> (\<lparr>sl_text = text, sl_fragment = Some f\<rparr>, rest)
              | None \<Rightarrow> (\<lparr>sl_text = text, sl_fragment = None\<rparr>, remaining))))"

fun script_lines_from :: "fragment list \<Rightarrow> string list \<Rightarrow> script_line list" where
  "script_lines_from remaining [] = []"
| "script_lines_from remaining (text # texts) =
     (case script_line remaining text of
        (line, rest) \<Rightarrow> line # script_lines_from rest texts)"

definition scriptLines :: "string \<Rightarrow> fragment list \<Rightarrow> script_line list" where
  "scriptLines command fragments = script_lines_from fragments (split_on newline command)"

section \<open>Lemmas\<close>

lemma flagged_Nil_iff [simp]: "flaggedFragments fs = [] \<longleftrightarrow> fs = []"
  by (auto simp: flaggedFragments_def Let_def)

lemma flagged_subset: "set (flaggedFragments fs) \<subseteq> set fs"
  by (auto simp: flaggedFragments_def Let_def)

lemma find_flagged:
  "find P fs = (case filter P fs of [] \<Rightarrow> None | f # _ \<Rightarrow> Some f)"
  by (induction fs) auto

lemma foldl_add_rule_set:
  "set (foldl add_rule seen fs) = set seen \<union> {name. name \<noteq> [] \<and> (\<exists>f \<in> set fs. fr_rule f = Some name)}"
  by (induction fs arbitrary: seen) (auto split: option.splits if_splits)

lemma foldl_add_rule_distinct: "distinct seen \<Longrightarrow> distinct (foldl add_rule seen fs)"
  by (induction fs arbitrary: seen) (auto split: option.splits)

text \<open>The cases of one line, and what each says of the fragments that remain.\<close>

lemma script_line_cases:
  obtains (blank) "js_trim ln = []" "script_line fs ln = (\<lparr>sl_text = ln, sl_fragment = None\<rparr>, fs)"
  | (paired) f rest us vs where
      "script_line fs ln = (\<lparr>sl_text = ln, sl_fragment = Some f\<rparr>, rest)"
      "fs = us @ f # vs" "rest = us @ vs" "js_trim ln \<noteq> []"
      "exact_match ln f \<or> contained_match ln f"
  | (bare) "js_trim ln \<noteq> []" "script_line fs ln = (\<lparr>sl_text = ln, sl_fragment = None\<rparr>, fs)"
      "\<forall>f \<in> set fs. \<not> exact_match ln f \<and> \<not> contained_match ln f"
proof (cases "js_trim ln = []")
  case True
  then show ?thesis by (intro blank) (auto simp: script_line_def)
next
  case False
  show ?thesis
  proof (cases "take_first (exact_match ln) fs")
    case (Some p)
    obtain f rest where p: "p = (f, rest)" by (cases p)
    have t: "take_first (exact_match ln) fs = Some (f, rest)" using Some p by simp
    have "script_line fs ln = (\<lparr>sl_text = ln, sl_fragment = Some f\<rparr>, rest)"
      using t False by (simp add: script_line_def)
    then show ?thesis using take_first_SomeD [OF t] False paired by blast
  next
    case none: None
    show ?thesis
    proof (cases "take_first (contained_match ln) fs")
      case None
      have "script_line fs ln = (\<lparr>sl_text = ln, sl_fragment = None\<rparr>, fs)"
        using none None False by (simp add: script_line_def)
      then show ?thesis using none None False bare by (simp add: take_first_None_iff)
    next
      case (Some p)
      obtain f rest where p: "p = (f, rest)" by (cases p)
      have t: "take_first (contained_match ln) fs = Some (f, rest)" using Some p by simp
      have "script_line fs ln = (\<lparr>sl_text = ln, sl_fragment = Some f\<rparr>, rest)"
        using t none False by (simp add: script_line_def)
      then show ?thesis using take_first_SomeD [OF t] False paired by blast
    qed
  qed
qed

lemma script_line_text [simp]: "sl_text (fst (script_line fs ln)) = ln"
  by (cases rule: script_line_cases [where fs = fs and ln = ln]) auto

lemma script_lines_texts: "map sl_text (script_lines_from fs lns) = lns"
proof (induction lns arbitrary: fs)
  case Nil
  then show ?case by simp
next
  case (Cons ln lns)
  then show ?case by (cases "script_line fs ln") (use script_line_text [of fs ln] in simp)
qed

text \<open>The fragments a list of lines carries.\<close>

definition carried :: "script_line list \<Rightarrow> fragment list" where
  "carried ls = concat (map (\<lambda>l. case sl_fragment l of None \<Rightarrow> [] | Some f \<Rightarrow> [f]) ls)"

lemma carried_simps [simp]:
  "carried [] = []"
  "carried (l # ls) = (case sl_fragment l of None \<Rightarrow> carried ls | Some f \<Rightarrow> f # carried ls)"
  by (auto simp: carried_def split: option.splits)

lemma script_lines_carried: "mset (carried (script_lines_from fs lns)) \<subseteq># mset fs"
proof (induction lns arbitrary: fs)
  case Nil
  then show ?case by simp
next
  case (Cons ln lns)
  show ?case
  proof (cases rule: script_line_cases [where fs = fs and ln = ln])
    case (paired f rest us vs)
    then show ?thesis using Cons.IH [of "us @ vs"] by auto
  qed (use Cons.IH in auto)
qed

lemma script_lines_paired:
  "l \<in> set (script_lines_from fs lns) \<Longrightarrow> sl_fragment l = Some f \<Longrightarrow>
     f \<in> set fs \<and> js_trim (sl_text l) \<noteq> [] \<and>
     (exact_match (sl_text l) f \<or> contained_match (sl_text l) f)"
proof (induction lns arbitrary: fs)
  case Nil
  then show ?case by simp
next
  case (Cons ln lns)
  show ?case
    by (cases rule: script_line_cases [where fs = fs and ln = ln])
      (use Cons in fastforce)+
qed

lemma script_line_head:
  assumes "js_trim (fr_display f) \<noteq> []"
  shows "script_line (f # fs) (fr_display f) = (\<lparr>sl_text = fr_display f, sl_fragment = Some f\<rparr>, fs)"
  using assms by (simp add: script_line_def exact_match_def)

lemma script_lines_of_displays:
  assumes "\<forall>f \<in> set fs. js_trim (fr_display f) \<noteq> []"
  shows "script_lines_from fs (map fr_display fs) =
           map (\<lambda>f. \<lparr>sl_text = fr_display f, sl_fragment = Some f\<rparr>) fs"
  using assms by (induction fs) (auto simp: script_line_head)

section \<open>Properties\<close>

text \<open>
  The fragments put in front of the operator are fragments of the request, none is shown
  only when the request has none, and every fragment the engine did not allow is among them.
\<close>

lemma flagged_complete:
  "set (flaggedFragments fs) \<subseteq> set fs \<and>
   (flaggedFragments fs = [] \<longleftrightarrow> fs = []) \<and>
   {f \<in> set fs. fr_verdict f \<noteq> Allow} \<subseteq> set (flaggedFragments fs)"
  by (auto simp: flaggedFragments_def Let_def)

text \<open>
  The rule badges are the distinct, non-empty rule names of the flagged fragments, all of
  them and nothing else.
\<close>

lemma triggered_rules_exact:
  "distinct (triggeredRules fs) \<and>
   set (triggeredRules fs) = {name. name \<noteq> [] \<and> (\<exists>f \<in> set (flaggedFragments fs). fr_rule f = Some name)}"
  by (simp add: triggeredRules_def foldl_add_rule_set foldl_add_rule_distinct)

text \<open>
  The headline found without building the list of flagged fragments is the display of its
  first element, or the command when the request has no fragment.
\<close>

lemma headline_first_flagged:
  "requestHeadline r =
     (case rq_subject r of
        Tool t \<Rightarrow> tc_name t
      | Shell command fragments \<Rightarrow>
          (case flaggedFragments fragments of [] \<Rightarrow> command | f # _ \<Rightarrow> fr_display f))"
  by (auto simp: requestHeadline_def flaggedFragments_def find_flagged Let_def
      split: subject.splits list.splits)

text \<open>
  The script view is the command: its lines joined by newlines are the command verbatim,
  whatever the fragments, so no line the engine saw is lost, added or reordered.
\<close>

lemma script_lines_reassemble:
  "join [newline] (map sl_text (scriptLines command fragments)) = command"
  by (simp add: scriptLines_def script_lines_texts)

text \<open>
  Each fragment is shown on at most one line, as often as it occurs in the request at
  most, and only on a line that is not blank and that either equals its display (both
  trimmed) or contains it.
\<close>

lemma script_lines_consume_once:
  "mset (carried (scriptLines command fragments)) \<subseteq># mset fragments \<and>
   list_all (\<lambda>l. case sl_fragment l of
               None \<Rightarrow> True
             | Some f \<Rightarrow> js_trim (sl_text l) \<noteq> [] \<and>
                         (js_trim (fr_display f) = js_trim (sl_text l) \<or>
                          js_includes (sl_text l) (js_trim (fr_display f))))
     (scriptLines command fragments)"
proof -
  have "js_trim (sl_text l) \<noteq> [] \<and>
        (js_trim (fr_display f) = js_trim (sl_text l) \<or>
         js_includes (sl_text l) (js_trim (fr_display f)))"
    if "l \<in> set (scriptLines command fragments)" and "sl_fragment l = Some f" for l f
    using script_lines_paired [OF that [unfolded scriptLines_def]]
    by (auto simp: exact_match_def contained_match_def)
  then show ?thesis
    by (auto simp: scriptLines_def list_all_iff script_lines_carried split: option.splits)
qed

text \<open>
  A command that is its fragments' displays, one per line, is reconstructed completely:
  every line carries its own fragment, repeated lines their fragments in order.
\<close>

lemma script_lines_of_fragments:
  assumes "fs \<noteq> []" and "\<forall>f \<in> set fs. js_trim (fr_display f) \<noteq> [] \<and> newline \<notin> set (fr_display f)"
  shows "scriptLines (join [newline] (map fr_display fs)) fs =
           map (\<lambda>f. \<lparr>sl_text = fr_display f, sl_fragment = Some f\<rparr>) fs"
proof -
  have "split_on newline (join [newline] (map fr_display fs)) = map fr_display fs"
    using assms by (intro split_on_join) auto
  then show ?thesis using assms by (simp add: scriptLines_def script_lines_of_displays)
qed

end
