(* ===== verification/Notifications.thy ===== *)
theory Notifications
  imports Normalize Approval
begin

text \<open>
  The approval notifications of \<^verbatim>\<open>apps/web/public/sw.js\<close>: what a notification of a raw broker
  payload says. The worker reads the payload itself, without the page's normalizer; the
  lemmas show that on a well-formed payload it previews exactly what the page shows. \<open>None\<close>
  is a TypeError of a template literal, on an object with its own \<open>toString\<close>.
\<close>

section \<open>The code\<close>

definition NOTIFICATION_ICON :: string where
  "NOTIFICATION_ICON = ''/icon-192.png''"

definition NOTIFICATION_FRAGMENT_LIMIT :: nat where
  "NOTIFICATION_FRAGMENT_LIMIT = 4"

definition fragment_displays :: "js list \<Rightarrow> string list" where
  "fragment_displays chosen =
     concat (map (\<lambda>fragment. case member fragment ''display'' of Str s \<Rightarrow> [s] | _ \<Rightarrow> []) chosen)"

definition notificationLines :: "js \<Rightarrow> string list" where
  "notificationLines request =
     (if member request ''subject'' = Str ''tool''
      then
        (let raw = (let v = member (member request ''tool'') ''raw'' in if truthy v then v else Obj [])
         in map argument_line (entries raw))
      else
        (let fragments = (case member request ''fragments'' of Arr fs \<Rightarrow> fs | _ \<Rightarrow> []);
             flagged = filter (\<lambda>f. truthy f \<and> member f ''verdict'' \<noteq> Str ''allow'') fragments;
             chosen = (if length flagged > 0 then flagged else fragments)
         in fragment_displays chosen))"

definition notificationTitle :: "js \<Rightarrow> string option" where
  "notificationTitle request =
     (let harness = (let h = member request ''harness'' in if truthy h then h else Str ''allowlister'');
          tool = member request ''tool''
      in if member request ''subject'' = Str ''tool'' \<and> truthy tool \<and> truthy (member tool ''name'')
         then do {
           name \<leftarrow> js_String (member tool ''name'');
           h \<leftarrow> js_String harness;
           Some (name @ middle_dot @ h)
         }
         else do {
           h \<leftarrow> js_String harness;
           Some (''Shell approval'' @ middle_dot @ h)
         })"

record notification =
  nt_title :: string
  nt_body :: string
  nt_tag :: string
  nt_icon :: string
  nt_badge :: string
  nt_requireInteraction :: bool
  nt_data :: js
  nt_actions :: "(string \<times> string) list"

definition notification_body :: "string list \<Rightarrow> string list" where
  "notification_body lines =
     (let shown = take NOTIFICATION_FRAGMENT_LIMIT lines;
          overflow = length lines - length shown
      in if overflow > 0 then shown @ [''+'' @ digits overflow @ '' more''] else shown)"

text \<open>The caller has checked that \<open>request.id\<close> is a string, \<open>ident\<close>.\<close>

definition notificationContent :: "js \<Rightarrow> string \<Rightarrow> notification option" where
  "notificationContent request ident = do {
     title \<leftarrow> notificationTitle request;
     Some \<lparr>nt_title = title,
           nt_body = join [newline] (notification_body (notificationLines request)),
           nt_tag = ident,
           nt_icon = NOTIFICATION_ICON,
           nt_badge = NOTIFICATION_ICON,
           nt_requireInteraction = True,
           nt_data = Obj [(''requestId'', Str ident)],
           nt_actions = [(''allow'', ''Approve''), (''deny'', ''Deny'')]\<rparr>
   }"

section \<open>Lemmas\<close>

text \<open>What the page shows of a request: the preview both surfaces are meant to agree on.\<close>

definition previewed :: "approval_request \<Rightarrow> string list" where
  "previewed r =
     (case rq_subject r of
        Shell command fragments \<Rightarrow> map fr_display (flaggedFragments fragments)
      | Tool t \<Rightarrow> toolCallLines t)"

lemma encode_fragment_simps [simp]:
  "truthy (encode_fragment f)"
  "member (encode_fragment f) ''verdict'' = Str (verdict_string (fr_verdict f))"
  "member (encode_fragment f) ''display'' = Str (fr_display f)"
  by (simp_all add: encode_fragment_def)

lemma verdict_string_allow [simp]: "verdict_string v = ''allow'' \<longleftrightarrow> v = Allow"
  by (cases v) auto

lemma displays_encode [simp]: "fragment_displays (map encode_fragment fs) = map fr_display fs"
  by (induction fs) (simp_all add: fragment_displays_def)

lemma filter_encode:
  "filter (\<lambda>f. truthy f \<and> member f ''verdict'' \<noteq> Str ''allow'') (map encode_fragment fs) =
     map encode_fragment (filter (\<lambda>f. fr_verdict f \<noteq> Allow) fs)"
  by (simp add: filter_map comp_def)

lemma encode_request_subject:
  "rq_subject r = Shell c fs \<Longrightarrow>
     member (encode_request r) ''subject'' = Str ''shell'' \<and>
     member (encode_request r) ''fragments'' = Arr (map encode_fragment fs)"
  "rq_subject r = Tool t \<Longrightarrow>
     member (encode_request r) ''subject'' = Str ''tool'' \<and>
     member (encode_request r) ''tool'' = encode_tool t"
  by (auto simp: encode_request_def split: option.splits)

lemma encode_request_ident [simp]:
  "member (encode_request r) ''id'' = Str (rq_id r)"
  "member (encode_request r) ''harness'' = Str (rq_harness r)"
  "is_object (encode_request r)" "truthy (encode_request r)"
  by (simp_all add: encode_request_def)

lemma object_truthy: "is_object v \<Longrightarrow> truthy v"
  by (cases v) auto

lemma lines_encode: "request_wf r \<Longrightarrow> notificationLines (encode_request r) = previewed r"
proof (cases "rq_subject r")
  case (Shell c fs)
  have "notificationLines (encode_request r) =
          fragment_displays (map encode_fragment (flaggedFragments fs))"
    unfolding notificationLines_def
    by (simp add: encode_request_subject(1) [OF Shell] filter_encode flaggedFragments_def Let_def)
  then show ?thesis by (simp add: previewed_def Shell)
next
  case (Tool t)
  assume "request_wf r"
  then have "is_object (tc_raw t)" by (simp add: request_wf_def Tool)
  then have "notificationLines (encode_request r) = map argument_line (entries (tc_raw t))"
    unfolding notificationLines_def
    by (simp add: encode_request_subject(2) [OF Tool] encode_tool_def object_truthy)
  then show ?thesis by (simp add: previewed_def Tool toolCallLines_def)
qed

lemma title_encode:
  "notificationTitle (encode_request r) =
     Some ((case rq_subject r of
              Shell _ _ \<Rightarrow> ''Shell approval''
            | Tool t \<Rightarrow> if tc_name t = [] then ''Shell approval'' else tc_name t)
           @ middle_dot @ (if rq_harness r = [] then ''allowlister'' else rq_harness r))"
proof (cases "rq_subject r")
  case (Shell c fs)
  then show ?thesis
    by (simp add: notificationTitle_def encode_request_subject(1) [OF Shell])
next
  case (Tool t)
  then show ?thesis
    by (simp add: notificationTitle_def encode_request_subject(2) [OF Tool] encode_tool_def)
qed

lemma digits_no_newline: "newline \<notin> set (digits n)"
proof (induction n rule: digits.induct)
  case (1 n)
  have d: "char_of (48 + k) \<noteq> newline" if "k < 10" for k :: nat
  proof -
    have "k \<in> {0, 1, 2, 3, 4, 5, 6, 7, 8, 9}" using that by auto
    then show ?thesis by (auto simp: newline_def char_of_def)
  qed
  show ?case
    using 1 d [of n] d [of "n mod 10"] by (subst digits.simps) auto
qed

lemma notification_body_no_newline:
  "\<forall>l \<in> set lines. newline \<notin> set l \<Longrightarrow> \<forall>l \<in> set (notification_body lines). newline \<notin> set l"
  using digits_no_newline by (auto simp: notification_body_def Let_def newline_def dest: in_set_takeD)

lemma notification_body_Nil_iff [simp]: "notification_body lines = [] \<longleftrightarrow> lines = []"
  by (auto simp: notification_body_def NOTIFICATION_FRAGMENT_LIMIT_def Let_def)

section \<open>Properties\<close>

text \<open>
  C17. A notification previews what the page shows: on the payload of a well-formed request the
  worker's own reading gives the displays of the flagged fragments, or the tool call's argument
  lines, and the title names the tool or says that a shell command waits.
\<close>

theorem notification_mirrors_page:
  assumes "request_wf r"
  shows "notificationLines (encode_request r) =
           (case rq_subject r of
              Shell command fragments \<Rightarrow> map fr_display (flaggedFragments fragments)
            | Tool t \<Rightarrow> toolCallLines t) \<and>
         notificationTitle (encode_request r) \<noteq> None"
  using lines_encode [OF assms] by (simp add: title_encode previewed_def)

theorem notification_mirrors_page_witness:
  "notificationLines (encode_request
     \<lparr>rq_id = ''a'', rq_protocolVersion = NaN, rq_harness = [], rq_sessionId = None, rq_cwd = [],
      rq_currentVerdict = Ask, rq_currentReason = [],
      rq_subject = Tool \<lparr>tc_name = ''fetch'', tc_capability = [], tc_params = Obj [],
                         tc_raw = Obj [(''n'', Num (Dec False 5 1))]\<rparr>\<rparr>) = [''n = 5'']"
proof -
  let ?r = "\<lparr>rq_id = ''a'', rq_protocolVersion = NaN, rq_harness = [], rq_sessionId = None, rq_cwd = [],
      rq_currentVerdict = Ask, rq_currentReason = [],
      rq_subject = Tool \<lparr>tc_name = ''fetch'', tc_capability = [], tc_params = Obj [],
                         tc_raw = Obj [(''n'', Num (Dec False 5 1))]\<rparr>\<rparr>"
  have "request_wf ?r" by (simp add: request_wf_def)
  from notification_mirrors_page [OF this] show ?thesis
    by (simp add: toolCallLines_def argument_line_def argument_text_def dec_to_string_def digits.simps char_of_def bit_0)
qed

text \<open>
  What the operator reads is complete: when the previewed texts are single lines, the
  notification's lines are the first four of them and, exactly when there are more, a last line
  with the number of the rest; the buttons, the tag and the data name this request.
\<close>

lemma notification_body_lines:
  assumes "request_wf r" and "previewed r \<noteq> []" and "\<forall>l \<in> set (previewed r). newline \<notin> set l"
  shows "\<exists>n. notificationContent (encode_request r) (rq_id r) = Some n \<and>
             split_on newline (nt_body n) =
               take 4 (previewed r) @
               (if length (previewed r) > 4
                then [''+'' @ digits (length (previewed r) - 4) @ '' more''] else []) \<and>
             nt_tag n = rq_id r \<and> member (nt_data n) ''requestId'' = Str (rq_id r) \<and>
             map fst (nt_actions n) = [choice_string ChooseAllow, choice_string ChooseDeny]"
proof -
  have "split_on newline (join [newline] (notification_body (previewed r))) = notification_body (previewed r)"
    using assms(2) notification_body_no_newline [OF assms(3)] by (intro split_on_join) auto
  also have "\<dots> = take 4 (previewed r) @
      (if length (previewed r) > 4 then [''+'' @ digits (length (previewed r) - 4) @ '' more''] else [])"
    by (auto simp: notification_body_def NOTIFICATION_FRAGMENT_LIMIT_def Let_def)
  finally show ?thesis
    using assms(1) by (simp add: notificationContent_def title_encode lines_encode)
qed

end
