(* ===== verification/ServiceWorker.thy ===== *)
theory ServiceWorker
  imports Notifications
begin

text \<open>
  The broker half of \<^verbatim>\<open>apps/web/public/sw.js\<close>: the one WebSocket of the browser, its
  reconnection, the relay of broker events to the pages, the notifications and the decisions
  that travel back.

  The worker's globals, the sockets it has created (numbered in order of creation), its pending
  timers, the open windows and the notifications on display are a state; a callback of the
  browser is an event, and what it does to the outside is appended to \<open>sw_effects\<close>. A promise
  the code chains on an already available value is run with the event that created it. The
  browser (\<open>platform\<close>) says which APIs exist and which URLs \<open>new WebSocket\<close>
  accepts. A socket's event is ignored unless its ready state allows it; \<open>error\<close> is always
  followed by \<open>close\<close>, so the model lets the handler's \<open>close()\<close> move the socket to
  \<open>CLOSING\<close> in between. A received frame is what \<open>JSON.parse\<close> makes of it, \<open>None\<close>
  where it throws.
\<close>

section \<open>Ready states\<close>

datatype ready_state = CONNECTING | OPEN | CLOSING | CLOSED

fun ready_number :: "ready_state \<Rightarrow> nat" where
  "ready_number CONNECTING = 0"
| "ready_number OPEN = 1"
| "ready_number CLOSING = 2"
| "ready_number CLOSED = 3"

lemma ready_number_inj: "ready_number r = ready_number q \<longleftrightarrow> r = q"
  by (cases r; cases q) auto

instantiation ready_state :: linorder
begin

definition less_eq_ready_state :: "ready_state \<Rightarrow> ready_state \<Rightarrow> bool" where
  "less_eq_ready_state r q \<longleftrightarrow> ready_number r \<le> ready_number q"

definition less_ready_state :: "ready_state \<Rightarrow> ready_state \<Rightarrow> bool" where
  "less_ready_state r q \<longleftrightarrow> ready_number r < ready_number q"

instance
  by intro_classes
    (auto simp: less_eq_ready_state_def less_ready_state_def ready_number_inj [symmetric])

end

section \<open>The state\<close>

record platform =
  pf_websocket :: bool
  pf_url_ok :: "string \<Rightarrow> bool"
  pf_showNotification :: bool
  pf_getNotifications :: bool
  pf_openWindow :: bool

record ws =
  ws_url :: string
  ws_ready :: ready_state

record client =
  cl_focused :: bool
  cl_visible :: bool
  cl_focusable :: bool

datatype effect =
    Broadcast js
  | Send nat string
  | FocusClient nat
  | OpenWindow string

record worker =
  sw_sockets :: "ws list"
  sw_brokerSocket :: "nat option"
  sw_brokerUrl :: "string option"
  sw_brokerBackoff :: nat
  sw_timers :: "nat list"
  sw_clients :: "client list"
  sw_permission :: bool
  sw_notifications :: "notification list"
  sw_effects :: "effect list"

definition fresh_worker :: "client list \<Rightarrow> bool \<Rightarrow> worker" where
  "fresh_worker clients permission =
     \<lparr>sw_sockets = [], sw_brokerSocket = None, sw_brokerUrl = None, sw_brokerBackoff = 1000,
      sw_timers = [], sw_clients = clients, sw_permission = permission, sw_notifications = [],
      sw_effects = []\<rparr>"

definition emit :: "effect \<Rightarrow> worker \<Rightarrow> worker" where
  "emit e s = s\<lparr>sw_effects := sw_effects s @ [e]\<rparr>"

definition ready :: "worker \<Rightarrow> nat \<Rightarrow> ready_state" where
  "ready s i = (if i < length (sw_sockets s) then ws_ready (sw_sockets s ! i) else CLOSED)"

definition set_ready :: "nat \<Rightarrow> ready_state \<Rightarrow> worker \<Rightarrow> worker" where
  "set_ready i r s = s\<lparr>sw_sockets := (sw_sockets s)[i := (sw_sockets s ! i)\<lparr>ws_ready := r\<rparr>]\<rparr>"

text \<open>\<open>JSON.stringify\<close> of an object, which is never \<open>undefined\<close>.\<close>

definition frame :: "js \<Rightarrow> string" where
  "frame v = (case stringify v of None \<Rightarrow> [] | Some s \<Rightarrow> s)"

section \<open>The broker bridge\<close>

definition broadcastToClients :: "js \<Rightarrow> worker \<Rightarrow> worker" where
  "broadcastToClients message s = emit (Broadcast message) s"

definition broker_status :: "string \<Rightarrow> js" where
  "broker_status status = Obj [(''type'', Str ''broker-status''), (''status'', Str status)]"

definition broker_event :: "js \<Rightarrow> js" where
  "broker_event payload = Obj [(''type'', Str ''broker-event''), (''event'', payload)]"

definition subscribe_message :: js where
  "subscribe_message = Obj [(''type'', Str ''subscribe'')]"

definition sw_connectBroker :: "platform \<Rightarrow> string \<Rightarrow> worker \<Rightarrow> worker" where
  "sw_connectBroker pf url s0 =
     (let s = s0\<lparr>sw_brokerUrl := Some url\<rparr>;
          state = (case sw_brokerSocket s of None \<Rightarrow> CLOSED | Some i \<Rightarrow> ready s i)
      in if state = CONNECTING \<or> state = OPEN
         then (if state = OPEN
               then emit (Send (the (sw_brokerSocket s)) (frame subscribe_message))
                      (broadcastToClients (broker_status ''open'') s)
               else s)
         else if \<not> pf_websocket pf then s
         else if \<not> pf_url_ok pf url then s
         else s\<lparr>sw_sockets := sw_sockets s @ [\<lparr>ws_url = url, ws_ready = CONNECTING\<rparr>],
                sw_brokerSocket := Some (length (sw_sockets s))\<rparr>)"

text \<open>Notifications: \<open>showNotification\<close> replaces one of the same tag, the empty tag is no tag.\<close>

definition showRequestNotification :: "platform \<Rightarrow> js \<Rightarrow> worker \<Rightarrow> worker" where
  "showRequestNotification pf request s =
     (case member request ''id'' of
        Str ident \<Rightarrow>
          if \<not> pf_showNotification pf then s
          else if list_ex (\<lambda>c. cl_focused c \<or> cl_visible c) (sw_clients s) then s
          else
            (case notificationContent request ident of
               None \<Rightarrow> s
             | Some n \<Rightarrow>
                 if sw_permission s
                 then s\<lparr>sw_notifications :=
                          filter (\<lambda>m. ident = [] \<or> nt_tag m \<noteq> ident) (sw_notifications s) @ [n]\<rparr>
                 else s)
      | _ \<Rightarrow> s)"

definition closeRequestNotification :: "platform \<Rightarrow> string \<Rightarrow> worker \<Rightarrow> worker" where
  "closeRequestNotification pf requestId s =
     (if \<not> pf_getNotifications pf then s
      else s\<lparr>sw_notifications :=
               filter (\<lambda>m. \<not> (requestId = [] \<or> nt_tag m = requestId)) (sw_notifications s)\<rparr>)"

definition on_open :: "nat \<Rightarrow> worker \<Rightarrow> worker" where
  "on_open i s =
     broadcastToClients (broker_status ''open'')
       (emit (Send i (frame subscribe_message)) (s\<lparr>sw_brokerBackoff := 1000\<rparr>))"

definition on_frame :: "platform \<Rightarrow> js option \<Rightarrow> worker \<Rightarrow> worker" where
  "on_frame pf data s =
     (case data of
        None \<Rightarrow> s
      | Some payload \<Rightarrow>
          (let s' = broadcastToClients (broker_event payload) s;
               kind = member payload ''type''
           in if kind = Str ''added'' then showRequestNotification pf (member payload ''request'') s'
              else if kind = Str ''resolved'' \<and> is_string (member payload ''requestId'')
                then closeRequestNotification pf (string_or (member payload ''requestId'') []) s'
              else s'))"

definition on_close :: "worker \<Rightarrow> worker" where
  "on_close s0 =
     (let s = broadcastToClients (broker_status ''closed'') s0
      in case sw_brokerUrl s of
           Some (c # cs) \<Rightarrow>
             s\<lparr>sw_timers := sw_timers s @ [sw_brokerBackoff s],
               sw_brokerBackoff := min (sw_brokerBackoff s * 2) 30000\<rparr>
         | _ \<Rightarrow> s)"

definition on_error :: "nat \<Rightarrow> worker \<Rightarrow> worker" where
  "on_error i s = (if ready s i = CONNECTING \<or> ready s i = OPEN then set_ready i CLOSING s else s)"

definition decision_frame :: "js \<Rightarrow> js \<Rightarrow> js \<Rightarrow> js" where
  "decision_frame requestId verdict reason =
     Obj [(''type'', Str ''decision''), (''requestId'', requestId), (''verdict'', verdict),
          (''reason'', reason)]"

definition sendDecision :: "js \<Rightarrow> js \<Rightarrow> js \<Rightarrow> worker \<Rightarrow> bool \<times> worker" where
  "sendDecision requestId verdict reason s =
     (case sw_brokerSocket s of
        None \<Rightarrow> (False, s)
      | Some i \<Rightarrow>
          if ready s i \<noteq> OPEN then (False, s)
          else (True, emit (Send i (frame (decision_frame requestId verdict reason))) s))"

definition on_page_message :: "platform \<Rightarrow> js \<Rightarrow> worker \<Rightarrow> worker" where
  "on_page_message pf data s =
     (if \<not> is_object data then s
      else if member data ''type'' = Str ''broker-connect'' \<and> is_string (member data ''url'')
        then sw_connectBroker pf (string_or (member data ''url'') []) s
      else if member data ''type'' = Str ''decision''
        then snd (sendDecision (member data ''requestId'') (member data ''verdict'')
                    (member data ''reason'') s)
      else s)"

fun first_focusable :: "nat \<Rightarrow> client list \<Rightarrow> nat option" where
  "first_focusable n [] = None"
| "first_focusable n (c # cs) = (if cl_focusable c then Some n else first_focusable (Suc n) cs)"

definition focusClient :: "platform \<Rightarrow> worker \<Rightarrow> worker" where
  "focusClient pf s =
     (case first_focusable 0 (sw_clients s) of
        Some k \<Rightarrow> emit (FocusClient k) s
      | None \<Rightarrow> if pf_openWindow pf then emit (OpenWindow ''/'') s else s)"

text \<open>A click on the notification at a position of the display; the body's action is empty.\<close>

definition on_notificationclick :: "platform \<Rightarrow> nat \<Rightarrow> string \<Rightarrow> worker \<Rightarrow> worker" where
  "on_notificationclick pf k action s0 =
     (let n = sw_notifications s0 ! k;
          s = s0\<lparr>sw_notifications := take k (sw_notifications s0) @ drop (Suc k) (sw_notifications s0)\<rparr>;
          requestId = member (nt_data n) ''requestId'';
          sent = (if (action = ''allow'' \<or> action = ''deny'') \<and> is_string requestId
                  then sendDecision requestId (Str action) (Str (action @ ''ed from notification'')) s
                  else (False, s))
      in if fst sent then snd sent else focusClient pf (snd sent))"

section \<open>Events\<close>

datatype worker_event =
    FromPage js
  | SocketOpen nat
  | SocketFrame nat "js option"
  | SocketClose nat
  | SocketError nat
  | TimerFires nat
  | Click nat string
  | ClientsChange "client list"
  | Terminated

text \<open>The browser may stop an idle worker at any time: its sockets close, its timers and its
  globals are gone, the notifications stay.\<close>

fun worker_step :: "platform \<Rightarrow> worker \<Rightarrow> worker_event \<Rightarrow> worker" where
  "worker_step pf s (FromPage data) = on_page_message pf data s"
| "worker_step pf s (SocketOpen i) =
     (if ready s i = CONNECTING then on_open i (set_ready i OPEN s) else s)"
| "worker_step pf s (SocketFrame i data) = (if ready s i = OPEN then on_frame pf data s else s)"
| "worker_step pf s (SocketClose i) =
     (if ready s i \<noteq> CLOSED then on_close (set_ready i CLOSED s) else s)"
| "worker_step pf s (SocketError i) = on_error i s"
| "worker_step pf s (TimerFires k) =
     (if k < length (sw_timers s)
      then
        (let s' = s\<lparr>sw_timers := take k (sw_timers s) @ drop (Suc k) (sw_timers s)\<rparr>
         in case sw_brokerUrl s of None \<Rightarrow> s' | Some url \<Rightarrow> sw_connectBroker pf url s')
      else s)"
| "worker_step pf s (Click k action) =
     (if k < length (sw_notifications s) then on_notificationclick pf k action s else s)"
| "worker_step pf s (ClientsChange cs) = s\<lparr>sw_clients := cs\<rparr>"
| "worker_step pf s Terminated =
     s\<lparr>sw_sockets := map (ws_ready_update (\<lambda>_. CLOSED)) (sw_sockets s), sw_brokerSocket := None,
       sw_brokerUrl := None, sw_brokerBackoff := 1000, sw_timers := []\<rparr>"

section \<open>Lemmas\<close>

lemmas worker_defs [step_defs] =
  emit_def broadcastToClients_def on_open_def on_close_def on_frame_def on_error_def
  on_page_message_def sendDecision_def sw_connectBroker_def focusClient_def
  showRequestNotification_def closeRequestNotification_def on_notificationclick_def Let_def

lemma ready_nth: "i < length (sw_sockets s) \<Longrightarrow> ready s i = ws_ready (sw_sockets s ! i)"
  by (simp add: ready_def)

lemma ready_set [simp]:
  "ready (set_ready i r s) j = (if i = j \<and> i < length (sw_sockets s) then r else ready s j)"
  by (auto simp: ready_def set_ready_def)

lemma set_ready_fields [simp]:
  "length (sw_sockets (set_ready i r s)) = length (sw_sockets s)"
  "sw_brokerSocket (set_ready i r s) = sw_brokerSocket s"
  "sw_brokerUrl (set_ready i r s) = sw_brokerUrl s"
  "sw_brokerBackoff (set_ready i r s) = sw_brokerBackoff s"
  "sw_timers (set_ready i r s) = sw_timers s"
  "sw_effects (set_ready i r s) = sw_effects s"
  "sw_notifications (set_ready i r s) = sw_notifications s"
  "sw_clients (set_ready i r s) = sw_clients s"
  by (simp_all add: set_ready_def)

lemma ready_cong: "sw_sockets s' = sw_sockets s \<Longrightarrow> ready s' i = ready s i"
  by (simp add: ready_def)

definition live :: "worker \<Rightarrow> nat \<Rightarrow> bool" where
  "live s i \<longleftrightarrow> ready s i < CLOSING"

lemma live_iff: "live s i \<longleftrightarrow> ready s i = CONNECTING \<or> ready s i = OPEN"
  by (cases "ready s i") (auto simp: live_def less_ready_state_def)

definition worker_inv :: "worker \<Rightarrow> bool" where
  "worker_inv s \<longleftrightarrow>
     (\<forall>i. live s i \<longrightarrow> sw_brokerSocket s = Some i) \<and>
     (\<forall>i. sw_brokerSocket s = Some i \<longrightarrow> i < length (sw_sockets s)) \<and>
     (\<forall>i. ready s i = OPEN \<longrightarrow> Send i (frame subscribe_message) \<in> set (sw_effects s)) \<and>
     (1000 \<le> sw_brokerBackoff s \<and> sw_brokerBackoff s \<le> 30000) \<and>
     (\<forall>t \<in> set (sw_timers s). 1000 \<le> t \<and> t \<le> 30000)"

text \<open>What the invariant looks at; a handler that leaves it alone, and only adds effects and
  drops timers, keeps the invariant.\<close>

definition same_links :: "worker \<Rightarrow> worker \<Rightarrow> bool" where
  "same_links s s' \<longleftrightarrow>
     sw_sockets s' = sw_sockets s \<and> sw_brokerSocket s' = sw_brokerSocket s \<and>
     sw_brokerBackoff s' = sw_brokerBackoff s \<and>
     set (sw_timers s') \<subseteq> set (sw_timers s) \<and> set (sw_effects s) \<subseteq> set (sw_effects s')"

lemma same_links_inv: "same_links s s' \<Longrightarrow> worker_inv s \<Longrightarrow> worker_inv s'"
proof -
  assume l: "same_links s s'" and i: "worker_inv s"
  have r: "ready s' j = ready s j" for j
    using l by (intro ready_cong) (simp add: same_links_def)
  then have v: "live s' j = live s j" for j by (simp add: live_def)
  show "worker_inv s'" using i l unfolding worker_inv_def r v by (auto simp: same_links_def)
qed

lemma same_links_refl: "same_links s s"
  by (simp add: same_links_def)

lemma same_links_trans: "same_links a b \<Longrightarrow> same_links b c \<Longrightarrow> same_links a c"
  by (auto simp: same_links_def)

lemma emit_same: "same_links s (emit e s)"
  by (simp add: same_links_def emit_def subset_insertI)

lemma show_same: "same_links s (showRequestNotification pf r s)"
  by (auto simp: same_links_def showRequestNotification_def split: js.splits option.splits)

lemma close_notification_same: "same_links s (closeRequestNotification pf r s)"
  by (simp add: same_links_def closeRequestNotification_def)

lemma frame_same: "same_links s (on_frame pf data s)"
proof (cases data)
  case None
  then show ?thesis by (simp add: on_frame_def same_links_refl)
next
  case (Some payload)
  have b: "same_links s (broadcastToClients (broker_event payload) s)"
    by (simp add: broadcastToClients_def emit_same)
  show ?thesis
    using same_links_trans [OF b show_same] same_links_trans [OF b close_notification_same] b
    by (simp add: on_frame_def Some Let_def)
qed

lemma decision_same: "same_links s (snd (sendDecision a b c s))"
  by (auto simp: sendDecision_def same_links_refl emit_same split: option.splits)

lemma focus_same: "same_links s (focusClient pf s)"
  by (auto simp: focusClient_def same_links_refl emit_same split: option.splits)

lemma click_same: "same_links s (on_notificationclick pf k action s)"
proof -
  let ?s = "s\<lparr>sw_notifications := take k (sw_notifications s) @ drop (Suc k) (sw_notifications s)\<rparr>"
  let ?d = "member (nt_data (sw_notifications s ! k)) ''requestId''"
  let ?sent = "if (action = ''allow'' \<or> action = ''deny'') \<and> is_string ?d
    then sendDecision ?d (Str action) (Str (action @ ''ed from notification'')) ?s else (False, ?s)"
  have 1: "same_links s ?s" by (simp add: same_links_def)
  have 2: "same_links ?s (snd ?sent)" by (simp add: decision_same same_links_refl)
  have 3: "same_links (snd ?sent) (focusClient pf (snd ?sent))" by (rule focus_same)
  note 12 = same_links_trans [OF 1 2]
  show ?thesis
    unfolding on_notificationclick_def Let_def
    using 12 same_links_trans [OF 12 3] by (simp only: split: if_split) blast
qed

lemma fresh_inv: "worker_inv (fresh_worker cs p)"
  by (simp add: worker_inv_def fresh_worker_def live_iff ready_def)

lemma connect_inv [wf_intros]:
  assumes "worker_inv s"
  shows "worker_inv (sw_connectBroker pf url s)"
proof (cases "\<exists>i. sw_brokerSocket s = Some i \<and> live s i")
  case True
  then obtain i where i: "sw_brokerSocket s = Some i" "live s i" by blast
  let ?s = "s\<lparr>sw_brokerUrl := Some url\<rparr>"
  have r: "ready ?s j = ready s j" for j by (rule ready_cong) simp
  have "same_links s (sw_connectBroker pf url s)"
    using i by (auto simp: same_links_def sw_connectBroker_def live_iff r Let_def emit_def broadcastToClients_def)
  then show ?thesis using assms by (rule same_links_inv)
next
  case False
  let ?s = "s\<lparr>sw_brokerUrl := Some url\<rparr>"
  let ?n = "length (sw_sockets s)"
  let ?new = "s\<lparr>sw_brokerUrl := Some url, sw_sockets := sw_sockets s @ [\<lparr>ws_url = url, ws_ready = CONNECTING\<rparr>],
                 sw_brokerSocket := Some ?n\<rparr>"
  have r: "ready ?s j = ready s j" for j by (rule ready_cong) simp
  have none: "\<not> live s j" for j using False assms unfolding worker_inv_def by blast
  have "sw_connectBroker pf url s = (if pf_websocket pf \<and> pf_url_ok pf url then ?new else ?s)"
    using False by (auto simp: sw_connectBroker_def live_iff r Let_def split: option.splits)
  moreover have "worker_inv ?s"
    by (rule same_links_inv [OF _ assms]) (simp add: same_links_def)
  moreover have "worker_inv ?new"
  proof -
    have rn: "ready ?new j = (if j = ?n then CONNECTING else ready s j)" for j
      by (auto simp: ready_def nth_append)
    have v: "live ?new j \<longrightarrow> ?n = j" for j
      using none [of j] by (cases "j = ?n") (simp_all add: live_def rn)
    have "ready ?new j = OPEN \<longrightarrow> ready s j = OPEN" for j
      by (simp add: rn)
    with v show ?thesis using assms unfolding worker_inv_def by simp
  qed
  ultimately show ?thesis by simp
qed

lemma retire_inv:
  assumes "worker_inv s" and "r \<ge> CLOSING"
  shows "worker_inv (set_ready i r s)"
proof -
  have nr: "r \<noteq> OPEN" "\<not> r < CLOSING" using assms(2) by (auto simp: less_eq_ready_state_def less_ready_state_def)
  have "live (set_ready i r s) j \<longrightarrow> live s j" for j using nr by (simp add: live_def)
  moreover have "ready (set_ready i r s) j = OPEN \<longrightarrow> ready s j = OPEN" for j using nr by simp
  ultimately show ?thesis
    using assms(1) unfolding worker_inv_def by (simp only: set_ready_fields) blast
qed

lemma on_close_inv [wf_intros]: "worker_inv s \<Longrightarrow> worker_inv (on_close s)"
proof -
  assume i: "worker_inv s"
  let ?b = "broadcastToClients (broker_status ''closed'') s"
  have b: "worker_inv ?b"
    by (rule same_links_inv [OF _ i]) (simp add: broadcastToClients_def emit_same)
  show ?thesis
  proof (cases "\<exists>c cs. sw_brokerUrl ?b = Some (c # cs)")
    case True
    then have e: "on_close s = ?b\<lparr>sw_timers := sw_timers ?b @ [sw_brokerBackoff ?b],
                                  sw_brokerBackoff := min (sw_brokerBackoff ?b * 2) 30000\<rparr>"
      by (auto simp: on_close_def Let_def)
    have r: "ready (on_close s) j = ready ?b j" for j unfolding e by (rule ready_cong) simp
    have v: "live (on_close s) j = live ?b j" for j by (simp add: live_def r)
    show ?thesis using b unfolding worker_inv_def r v unfolding e by (auto simp: min_def)
  next
    case False
    then have "on_close s = ?b" by (auto simp: on_close_def Let_def split: option.splits list.splits)
    then show ?thesis using b by simp
  qed
qed

lemma open_inv:
  assumes "worker_inv s" and "ready s i = CONNECTING"
  shows "worker_inv (on_open i (set_ready i OPEN s))"
proof -
  let ?t = "on_open i (set_ready i OPEN s)"
  have "i < length (sw_sockets s)" using assms(2) by (auto simp: ready_def split: if_splits)
  then have r: "ready ?t j = (if i = j then OPEN else ready s j)" for j
    using ready_cong [of ?t "set_ready i OPEN s" j] by (simp add: on_open_def broadcastToClients_def emit_def)
  have "live s i" using assms(2) by (simp add: live_iff)
  then have v: "live ?t j = live s j" for j by (auto simp: live_def r less_ready_state_def)
  show ?thesis using assms(1) unfolding worker_inv_def r v
    by (auto simp: on_open_def broadcastToClients_def emit_def)
qed

lemma terminated_inv:
  assumes "worker_inv s"
  shows "worker_inv (worker_step pf s Terminated)"
proof -
  let ?t = "worker_step pf s Terminated"
  have r: "ready ?t j = CLOSED" for j by (auto simp: ready_def)
  have "\<not> live ?t j" for j by (simp only: live_def r) (simp add: less_ready_state_def)
  then show ?thesis unfolding worker_inv_def r by simp
qed

lemma worker_step_inv: "worker_inv s \<Longrightarrow> worker_inv (worker_step pf s e)"
proof (cases e)
  case (FromPage data)
  assume "worker_inv s"
  then show ?thesis unfolding FromPage
    by (auto simp: on_page_message_def intro: wf_intros same_links_inv [OF decision_same])
next
  case (SocketFrame i data)
  assume "worker_inv s"
  then show ?thesis unfolding SocketFrame by (auto intro: same_links_inv [OF frame_same])
next
  case (SocketClose i)
  assume "worker_inv s"
  then show ?thesis unfolding SocketClose
    by (auto simp: less_eq_ready_state_def intro!: wf_intros retire_inv)
next
  case (SocketError i)
  assume "worker_inv s"
  then show ?thesis unfolding SocketError by (auto simp: on_error_def intro!: retire_inv)
next
  case (TimerFires k)
  assume i: "worker_inv s"
  let ?s = "s\<lparr>sw_timers := take k (sw_timers s) @ drop (Suc k) (sw_timers s)\<rparr>"
  have "worker_inv ?s"
    by (rule same_links_inv [OF _ i]) (auto simp: same_links_def dest: in_set_takeD in_set_dropD)
  then show ?thesis using i unfolding TimerFires
    by (auto simp: Let_def intro: wf_intros split: option.splits)
next
  case (Click k action)
  assume "worker_inv s"
  then show ?thesis unfolding Click by (auto intro: same_links_inv [OF click_same])
next
  case (ClientsChange cs)
  assume "worker_inv s"
  then show ?thesis unfolding ClientsChange
    by (rule same_links_inv [rotated]) (simp add: same_links_def)
qed (auto intro: open_inv terminated_inv simp del: worker_step.simps(9))

interpretation worker: event_machine "worker_step pf" worker_inv for pf
  by unfold_locales (rule worker_step_inv)




lemma connect_backoff [simp]: "sw_brokerBackoff (sw_connectBroker pf url s) = sw_brokerBackoff s"
  by (simp add: sw_connectBroker_def Let_def emit_def broadcastToClients_def)




text \<open>At most one notification of a tag is on display, and no other handler puts one there.\<close>

definition tags_distinct :: "notification list \<Rightarrow> bool" where
  "tags_distinct ns \<longleftrightarrow> distinct (filter (\<lambda>t. t \<noteq> []) (map nt_tag ns))"

lemma tags_distinct_filter: "tags_distinct ns \<Longrightarrow> tags_distinct (filter P ns)"
  by (induction ns) (auto simp: tags_distinct_def)

lemma tags_distinct_drop_nth: "tags_distinct ns \<Longrightarrow> tags_distinct (take k ns @ drop (Suc k) ns)"
proof -
  assume d: "tags_distinct ns"
  show ?thesis
  proof (cases "k < length ns")
    case True
    then have "ns = take k ns @ ns ! k # drop (Suc k) ns" by (rule id_take_nth_drop)
    then have "tags_distinct (take k ns @ ns ! k # drop (Suc k) ns)" using d by simp
    then show ?thesis by (auto simp: tags_distinct_def split: if_splits)
  next
    case False
    then show ?thesis using d by simp
  qed
qed

lemma notificationContent_tag: "notificationContent r i = Some n \<Longrightarrow> nt_tag n = i"
  by (auto simp: notificationContent_def bind_eq_Some_conv)

lemma notificationContent_data:
  "notificationContent r i = Some n \<Longrightarrow> member (nt_data n) ''requestId'' = Str i"
  by (auto simp: notificationContent_def bind_eq_Some_conv)

lemma show_tags:
  assumes "tags_distinct (sw_notifications s)"
  shows "tags_distinct (sw_notifications (showRequestNotification pf r s))"
proof -
  have "tags_distinct (filter (\<lambda>m. i = [] \<or> nt_tag m \<noteq> i) (sw_notifications s) @ [n])"
    if "nt_tag n = i" for i n
    using tags_distinct_filter [OF assms, of "\<lambda>m. i = [] \<or> nt_tag m \<noteq> i"] that
    by (auto simp: tags_distinct_def)
  then show ?thesis
    using assms by (auto simp: showRequestNotification_def dest: notificationContent_tag split: js.splits option.splits)
qed

lemma frame_tags:
  "tags_distinct (sw_notifications s) \<Longrightarrow> tags_distinct (sw_notifications (on_frame pf data s))"
  by (auto simp: on_frame_def Let_def closeRequestNotification_def broadcastToClients_def emit_def
      intro!: show_tags tags_distinct_filter split: option.splits)

lemma quiet_notifications [simp]:
  "sw_notifications (emit e s) = sw_notifications s"
  "sw_notifications (sw_connectBroker pf url s) = sw_notifications s"
  "sw_notifications (snd (sendDecision a b c s)) = sw_notifications s"
  "sw_notifications (focusClient pf s) = sw_notifications s"
  "sw_notifications (on_page_message pf data s) = sw_notifications s"
  "sw_notifications (on_close s) = sw_notifications s"
  "sw_notifications (on_open i s) = sw_notifications s"
  "sw_notifications (on_error i s) = sw_notifications s"
  by (auto simp: worker_defs split: option.splits list.splits)

lemma click_notifications:
  "sw_notifications (on_notificationclick pf k action s) =
     take k (sw_notifications s) @ drop (Suc k) (sw_notifications s)"
  by (simp add: on_notificationclick_def Let_def)

lemma tags_step:
  "tags_distinct (sw_notifications s) \<Longrightarrow> tags_distinct (sw_notifications (worker_step pf s e))"
  by (cases e) (auto simp: frame_tags click_notifications tags_distinct_drop_nth Let_def split: option.splits)

interpretation display: event_machine "worker_step pf" "\<lambda>s. tags_distinct (sw_notifications s)" for pf
  by unfold_locales (rule tags_step)

text \<open>What a fresh attach, a decision and a click add to the effects.\<close>

lemma connect_live:
  assumes "sw_brokerSocket s = Some i" and "live s i"
  shows "sw_sockets (sw_connectBroker pf url s) = sw_sockets s"
    and "sw_effects (sw_connectBroker pf url s) = sw_effects s @
           (if ready s i = OPEN
            then [Broadcast (broker_status ''open''), Send i (frame subscribe_message)] else [])"
proof -
  have r: "ready (s\<lparr>sw_brokerUrl := Some url\<rparr>) j = ready s j" for j by (rule ready_cong) simp
  show "sw_sockets (sw_connectBroker pf url s) = sw_sockets s"
    and "sw_effects (sw_connectBroker pf url s) = sw_effects s @
           (if ready s i = OPEN
            then [Broadcast (broker_status ''open''), Send i (frame subscribe_message)] else [])"
    using assms by (auto simp: sw_connectBroker_def r live_iff Let_def emit_def broadcastToClients_def)
qed

lemma connect_url: "sw_brokerUrl (sw_connectBroker pf url s) = Some url"
  by (simp add: sw_connectBroker_def Let_def emit_def broadcastToClients_def)

lemma connect_dead:
  assumes "\<forall>i. sw_brokerSocket s = Some i \<longrightarrow> \<not> live s i" and "pf_websocket pf" and "pf_url_ok pf url"
  shows "sw_sockets (sw_connectBroker pf url s) = sw_sockets s @ [\<lparr>ws_url = url, ws_ready = CONNECTING\<rparr>]"
    and "sw_brokerSocket (sw_connectBroker pf url s) = Some (length (sw_sockets s))"
    and "sw_effects (sw_connectBroker pf url s) = sw_effects s"
proof -
  have r: "ready (s\<lparr>sw_brokerUrl := Some url\<rparr>) j = ready s j" for j by (rule ready_cong) simp
  show "sw_sockets (sw_connectBroker pf url s) = sw_sockets s @ [\<lparr>ws_url = url, ws_ready = CONNECTING\<rparr>]"
    and "sw_brokerSocket (sw_connectBroker pf url s) = Some (length (sw_sockets s))"
    and "sw_effects (sw_connectBroker pf url s) = sw_effects s"
    using assms by (auto simp: sw_connectBroker_def r live_iff Let_def split: option.splits)
qed

section \<open>Properties\<close>

text \<open>
  C4. One connection per browser: whatever pages, sockets, timers, notifications and restarts
  do, at most one socket is connecting or open, it is the one decisions are sent on, and an
  open socket has been subscribed.
\<close>

theorem one_live_socket:
  assumes "s = foldl (worker_step pf) (fresh_worker cs p) es" and "live s i"
  shows "sw_brokerSocket s = Some i \<and> (\<forall>j. live s j \<longrightarrow> j = i) \<and>
         (ready s i = OPEN \<longrightarrow> Send i (frame subscribe_message) \<in> set (sw_effects s))"
proof -
  have "worker_inv s" unfolding assms(1) by (rule worker.run_inv [OF fresh_inv])
  then have b: "\<forall>i. live s i \<longrightarrow> sw_brokerSocket s = Some i"
    and o: "\<forall>i. ready s i = OPEN \<longrightarrow> Send i (frame subscribe_message) \<in> set (sw_effects s)"
    unfolding worker_inv_def by blast+
  have "j = i" if "live s j" for j
    using b [rule_format, OF assms(2)] b [rule_format, OF that] by simp
  then show ?thesis using b o assms(2) by blast
qed

theorem one_live_socket_witness:
  "\<exists>s. s = foldl (worker_step \<lparr>pf_websocket = True, pf_url_ok = (\<lambda>_. True), pf_showNotification = True,
                               pf_getNotifications = True, pf_openWindow = True\<rparr>)
             (fresh_worker [] True)
             [FromPage (Obj [(''type'', Str ''broker-connect''), (''url'', Str ''wss://b'')]), SocketOpen 0] \<and>
       ready s 0 = OPEN \<and> Send 0 (frame subscribe_message) \<in> set (sw_effects s)"
proof -
  let ?s = "foldl (worker_step \<lparr>pf_websocket = True, pf_url_ok = (\<lambda>_. True), pf_showNotification = True,
                               pf_getNotifications = True, pf_openWindow = True\<rparr>)
             (fresh_worker [] True)
             [FromPage (Obj [(''type'', Str ''broker-connect''), (''url'', Str ''wss://b'')]), SocketOpen 0]"
  have o: "ready ?s 0 = OPEN"
    by (simp add: worker_defs fresh_worker_def ready_def set_ready_def)
  then have l: "live ?s 0" by (simp add: live_iff)
  from one_live_socket [OF refl l] o show ?thesis by blast
qed

text \<open>No event but the end of a connection puts a timer there, and that one waits for the backoff.\<close>

lemma connect_timers [simp]: "sw_timers (sw_connectBroker pf url s) = sw_timers s"
  by (simp add: sw_connectBroker_def Let_def emit_def broadcastToClients_def)





text \<open>
  Attaching a page: over an open connection it is announced and subscribed again at once,
  over a connecting one nothing happens yet, and in both cases the sockets stay as they are,
  even when the page names another broker; without a connection one socket to the named broker
  is created, which becomes the broker socket and, once open, is subscribed and announced.
\<close>

lemma attach_bootstraps:
  assumes "worker_inv s" and "pf_websocket pf" and "pf_url_ok pf url"
    and "s' = worker_step pf s (FromPage (Obj [(''type'', Str ''broker-connect''), (''url'', Str url)]))"
  shows "(\<forall>i. live s i \<longrightarrow>
             sw_sockets s' = sw_sockets s \<and>
             sw_effects s' = sw_effects s @
               (if ready s i = OPEN
                then [Broadcast (broker_status ''open''), Send i (frame subscribe_message)] else [])) \<and>
         ((\<forall>i. \<not> live s i) \<longrightarrow>
             sw_sockets s' = sw_sockets s @ [\<lparr>ws_url = url, ws_ready = CONNECTING\<rparr>] \<and>
             sw_effects s' = sw_effects s \<and>
             sw_effects (worker_step pf s' (SocketOpen (length (sw_sockets s)))) = sw_effects s @
               [Send (length (sw_sockets s)) (frame subscribe_message), Broadcast (broker_status ''open'')])"
proof -
  have s': "s' = sw_connectBroker pf url s" using assms(4) by (simp add: on_page_message_def)
  have "sw_effects (worker_step pf s' (SocketOpen (length (sw_sockets s)))) = sw_effects s @
          [Send (length (sw_sockets s)) (frame subscribe_message), Broadcast (broker_status ''open'')]"
    if "\<forall>i. \<not> live s i"
  proof -
    note d = connect_dead [of s, OF _ assms(2,3)]
    have "ready s' (length (sw_sockets s)) = CONNECTING" using that d(1) by (simp add: s' ready_def)
    then show ?thesis using that d(3)
      by (simp add: s' on_open_def emit_def broadcastToClients_def)
  qed
  moreover have "sw_brokerSocket s = Some i" if "live s i" for i
    using assms(1) that unfolding worker_inv_def by blast
  ultimately show ?thesis using connect_live connect_dead [OF _ assms(2,3)] by (simp add: s')
qed

lemma attach_bootstraps_instance:
  "sw_sockets (worker_step \<lparr>pf_websocket = True, pf_url_ok = (\<lambda>_. True), pf_showNotification = True,
                            pf_getNotifications = True, pf_openWindow = True\<rparr> (fresh_worker [] True)
                 (FromPage (Obj [(''type'', Str ''broker-connect''), (''url'', Str ''wss://b'')]))) =
     [\<lparr>ws_url = ''wss://b'', ws_ready = CONNECTING\<rparr>]"
proof -
  have "\<not> live (fresh_worker [] True) i" for i
    by (simp add: live_iff ready_def fresh_worker_def)
  then show ?thesis
    using attach_bootstraps [OF fresh_inv [of "[]" True], where url = "''wss://b''" and
      pf = "\<lparr>pf_websocket = True, pf_url_ok = (\<lambda>_. True), pf_showNotification = True,
             pf_getNotifications = True, pf_openWindow = True\<rparr>", OF _ _ refl]
    by (simp add: fresh_worker_def)
qed

text \<open>
  C12. A click on a notification's button decides the request the notification was raised for,
  with the button's verdict, if the connection is open; otherwise nothing is sent and the app
  is brought forward. Either way that notification is gone and the others stay.
\<close>

theorem notification_click_decides:
  assumes "k < length (sw_notifications s)"
    and "notificationContent request ident = Some (sw_notifications s ! k)"
    and "c \<in> {ChooseAllow, ChooseDeny}"
    and "s' = worker_step pf s (Click k (choice_string c))"
  shows "(\<forall>i. sw_brokerSocket s = Some i \<and> ready s i = OPEN \<longrightarrow>
            sw_effects s' = sw_effects s @
              [Send i (frame (decision_frame (Str ident) (Str (choice_string c))
                                (Str (choice_string c @ ''ed from notification''))))]) \<and>
         ((\<forall>i. sw_brokerSocket s = Some i \<longrightarrow> ready s i \<noteq> OPEN) \<longrightarrow>
            sw_effects s' = sw_effects s @
              (case first_focusable 0 (sw_clients s) of
                 Some n \<Rightarrow> [FocusClient n]
               | None \<Rightarrow> if pf_openWindow pf then [OpenWindow ''/''] else [])) \<and>
         sw_notifications s' = take k (sw_notifications s) @ drop (Suc k) (sw_notifications s)"
proof -
  let ?s = "s\<lparr>sw_notifications := take k (sw_notifications s) @ drop (Suc k) (sw_notifications s)\<rparr>"
  have r: "ready ?s j = ready s j" for j by (rule ready_cong) simp
  have d: "member (nt_data (sw_notifications s ! k)) ''requestId'' = Str ident"
    using assms(2) by (rule notificationContent_data)
  have s': "s' = on_notificationclick pf k (choice_string c) s" using assms(1,4) by simp
  have a: "choice_string c = ''allow'' \<or> choice_string c = ''deny''" by (cases c) auto
  show ?thesis
    unfolding s' click_notifications
    unfolding on_notificationclick_def Let_def d using a
    by (auto simp: sendDecision_def r focusClient_def emit_def split: option.splits)
qed

theorem notification_click_decides_witness:
  "\<exists>s. sw_effects s = [] \<and>
       sw_effects (worker_step \<lparr>pf_websocket = True, pf_url_ok = (\<lambda>_. True), pf_showNotification = True,
                     pf_getNotifications = True, pf_openWindow = True\<rparr> s (Click 0 (choice_string ChooseDeny)))
         = [Send 0 (frame (decision_frame (Str ''r1'') (Str ''deny'') (Str ''denyed from notification'')))]"
proof -
  let ?pf = "\<lparr>pf_websocket = True, pf_url_ok = (\<lambda>_. True), pf_showNotification = True,
              pf_getNotifications = True, pf_openWindow = True\<rparr>"
  obtain n where n: "notificationContent (Obj []) ''r1'' = Some n"
    by (simp add: notificationContent_def notificationTitle_def)
  let ?s = "(fresh_worker [] True)\<lparr>sw_notifications := [n], sw_brokerSocket := Some 0,
               sw_sockets := [\<lparr>ws_url = [], ws_ready = OPEN\<rparr>]\<rparr>"
  have 1: "0 < length (sw_notifications ?s)" by simp
  have 2: "notificationContent (Obj []) ''r1'' = Some (sw_notifications ?s ! 0)" using n by simp
  have 3: "ChooseDeny \<in> {ChooseAllow, ChooseDeny}" by simp
  have "sw_brokerSocket ?s = Some 0 \<and> ready ?s 0 = OPEN" by (simp add: ready_def)
  then have "sw_effects (worker_step ?pf ?s (Click 0 (choice_string ChooseDeny))) = sw_effects ?s @
      [Send 0 (frame (decision_frame (Str ''r1'') (Str (choice_string ChooseDeny))
                        (Str (choice_string ChooseDeny @ ''ed from notification''))))]"
    using notification_click_decides [OF 1 2 3 refl, of ?pf] by blast
  then show ?thesis by (intro exI [of _ ?s]) (simp add: fresh_worker_def del: worker_step.simps)
qed

text \<open>
  C18. One notification per request: in every run no two notifications on display carry the same
  request, a frame that resolves a request takes its notification down, wherever it was decided,
  and every frame that parses is relayed to the pages first.
\<close>

theorem resolved_clears_notification:
  assumes "s = foldl (worker_step pf) (fresh_worker cs p) es" and "pf_getNotifications pf"
    and "ready s i = OPEN" and "ident \<noteq> []"
    and "s' = worker_step pf s (SocketFrame i (Some (Obj [(''type'', Str ''resolved''), (''requestId'', Str ident)])))"
  shows "distinct (filter (\<lambda>t. t \<noteq> []) (map nt_tag (sw_notifications s))) \<and>
         sw_notifications s' = filter (\<lambda>n. nt_tag n \<noteq> ident) (sw_notifications s) \<and>
         sw_effects s' = sw_effects s @
           [Broadcast (broker_event (Obj [(''type'', Str ''resolved''), (''requestId'', Str ident)]))]"
proof -
  have "tags_distinct (sw_notifications (fresh_worker cs p))" by (simp add: tags_distinct_def fresh_worker_def)
  from display.run_inv [OF this, of pf es] have "tags_distinct (sw_notifications s)" by (simp add: assms(1))
  moreover have "s' = on_frame pf (Some (Obj [(''type'', Str ''resolved''), (''requestId'', Str ident)])) s"
    using assms(3,5) by simp
  ultimately show ?thesis using assms(2,4)
    by (simp add: tags_distinct_def on_frame_def Let_def closeRequestNotification_def broadcastToClients_def emit_def)
qed

theorem resolved_clears_notification_witness:
  "\<exists>s s'. sw_notifications s \<noteq> [] \<and> sw_notifications s' = [] \<and>
     s' = worker_step \<lparr>pf_websocket = True, pf_url_ok = (\<lambda>_. True), pf_showNotification = True,
                       pf_getNotifications = True, pf_openWindow = True\<rparr> s
            (SocketFrame 0 (Some (Obj [(''type'', Str ''resolved''), (''requestId'', Str ''r1'')])))"
proof -
  let ?pf = "\<lparr>pf_websocket = True, pf_url_ok = (\<lambda>_. True), pf_showNotification = True,
              pf_getNotifications = True, pf_openWindow = True\<rparr>"
  let ?es = "[FromPage (Obj [(''type'', Str ''broker-connect''), (''url'', Str ''wss://b'')]), SocketOpen 0,
              SocketFrame 0 (Some (Obj [(''type'', Str ''added''), (''request'', Obj [(''id'', Str ''r1'')])]))]"
  let ?s = "foldl (worker_step ?pf) (fresh_worker [] True) ?es"
  obtain n where n: "notificationContent (Obj [(''id'', Str ''r1'')]) ''r1'' = Some n"
    by (simp add: notificationContent_def notificationTitle_def)
  have o: "ready ?s 0 = OPEN" and d: "sw_notifications ?s = [n]"
    by (simp_all add: worker_defs fresh_worker_def ready_def set_ready_def n)
  have g: "pf_getNotifications ?pf" and ne: "''r1'' \<noteq> []" by simp_all
  have "nt_tag n = ''r1''" using n by (rule notificationContent_tag)
  let ?e = "SocketFrame 0 (Some (Obj [(''type'', Str ''resolved''), (''requestId'', Str ''r1'')]))"
  have "sw_notifications (worker_step ?pf ?s ?e) = filter (\<lambda>n. nt_tag n \<noteq> ''r1'') (sw_notifications ?s)"
    using resolved_clears_notification [OF refl g o ne refl] by (elim conjE)
  then have "sw_notifications (worker_step ?pf ?s ?e) = []" using \<open>nt_tag n = ''r1''\<close> by (simp only: d) simp
  then show ?thesis using d by (intro exI [of _ ?s] exI [of _ "worker_step ?pf ?s ?e"]) simp
qed

end
