(* ===== verification/Reconnect.thy ===== *)
theory Reconnect
  imports ServiceWorker
begin

text \<open>
  That the worker of \<^verbatim>\<open>apps/web/public/sw.js\<close> never gives up: as long as it knows a broker it could
  connect to, a socket that is not closed yet or a pending timer keeps the reconnection going,
  and from wherever a run has led the browser's next callbacks can bring the connection back
  without any page.
\<close>

text \<open>A worker with a broker it can connect to has something to wait for.\<close>

definition keeps_trying :: "platform \<Rightarrow> worker \<Rightarrow> bool" where
  "keeps_trying pf s \<longleftrightarrow>
     (\<forall>c cs. sw_brokerUrl s = Some (c # cs) \<and> pf_websocket pf \<and> pf_url_ok pf (c # cs) \<longrightarrow>
        (\<exists>i. ready s i \<noteq> CLOSED) \<or> sw_timers s \<noteq> [])"

lemma keeps_trying_same:
  assumes "keeps_trying pf s" and "sw_sockets s' = sw_sockets s" and "sw_brokerUrl s' = sw_brokerUrl s"
    and "sw_timers s' = sw_timers s"
  shows "keeps_trying pf s'"
  using assms(1,3,4) ready_cong [OF assms(2)] by (simp add: keeps_trying_def)

lemma connect_waits:
  assumes "pf_websocket pf" and "pf_url_ok pf url"
  shows "\<exists>i. ready (sw_connectBroker pf url s) i \<noteq> CLOSED"
proof (cases "\<exists>i. sw_brokerSocket s = Some i \<and> live s i")
  case True
  then obtain i where i: "sw_brokerSocket s = Some i" "live s i" by blast
  then have "ready (sw_connectBroker pf url s) i = ready s i"
    by (intro ready_cong connect_live)
  then show ?thesis using i(2) by (auto simp: live_iff intro!: exI [of _ i])
next
  case False
  then have "sw_sockets (sw_connectBroker pf url s) =
      sw_sockets s @ [\<lparr>ws_url = url, ws_ready = CONNECTING\<rparr>]"
    using connect_dead(1) [OF _ assms, of s] by blast
  then have "ready (sw_connectBroker pf url s) (length (sw_sockets s)) = CONNECTING"
    by (simp add: ready_def)
  then show ?thesis by (intro exI [of _ "length (sw_sockets s)"]) simp
qed

lemma connect_keeps: "keeps_trying pf (sw_connectBroker pf url s)"
  using connect_waits [of pf url s] by (auto simp: keeps_trying_def connect_url)

lemma links_fields:
  "sw_sockets (on_frame pf data s) = sw_sockets s" "sw_brokerUrl (on_frame pf data s) = sw_brokerUrl s"
  "sw_timers (on_frame pf data s) = sw_timers s"
  "sw_sockets (snd (sendDecision a b c s)) = sw_sockets s"
  "sw_brokerUrl (snd (sendDecision a b c s)) = sw_brokerUrl s"
  "sw_timers (snd (sendDecision a b c s)) = sw_timers s"
  "sw_sockets (focusClient pf s) = sw_sockets s" "sw_brokerUrl (focusClient pf s) = sw_brokerUrl s"
  "sw_timers (focusClient pf s) = sw_timers s"
  by (auto simp: worker_defs split: option.splits js.splits)

lemma click_fields:
  "sw_sockets (on_notificationclick pf k a s) = sw_sockets s"
  "sw_brokerUrl (on_notificationclick pf k a s) = sw_brokerUrl s"
  "sw_timers (on_notificationclick pf k a s) = sw_timers s"
  by (simp_all add: on_notificationclick_def Let_def links_fields)

lemma on_close_timer:
  "sw_brokerUrl s = Some (c # cs) \<Longrightarrow> sw_timers (on_close s) \<noteq> []"
  "sw_brokerUrl (on_close s) = sw_brokerUrl s"
  "sw_sockets (on_close s) = sw_sockets s"
  "sw_brokerSocket (on_close s) = sw_brokerSocket s"
  by (auto simp: on_close_def Let_def broadcastToClients_def emit_def split: option.splits list.splits)

lemma keeps_trying_step: "keeps_trying pf s \<Longrightarrow> keeps_trying pf (worker_step pf s e)"
proof (cases e)
  case (FromPage data)
  assume "keeps_trying pf s"
  then show ?thesis unfolding FromPage
    by (auto simp: on_page_message_def connect_keeps links_fields intro: keeps_trying_same)
next
  case (SocketOpen i)
  assume k: "keeps_trying pf s"
  show ?thesis
  proof (cases "ready s i = CONNECTING")
    case True
    let ?t = "on_open i (set_ready i OPEN s)"
    have "i < length (sw_sockets s)" using True by (auto simp: ready_def split: if_splits)
    then have "ready ?t i = OPEN"
      using ready_cong [of ?t "set_ready i OPEN s" i] by (simp add: on_open_def broadcastToClients_def emit_def)
    then have "\<exists>i. ready ?t i \<noteq> CLOSED" by (intro exI [of _ i]) simp
    then show ?thesis using True SocketOpen by (simp add: keeps_trying_def)
  next
    case False
    then show ?thesis using k SocketOpen by simp
  qed
next
  case (SocketFrame i data)
  assume "keeps_trying pf s"
  then show ?thesis unfolding SocketFrame by (auto simp: links_fields intro: keeps_trying_same)
next
  case (SocketClose i)
  assume "keeps_trying pf s"
  then show ?thesis unfolding SocketClose
    using on_close_timer(1) [of "set_ready i CLOSED s"] by (auto simp: keeps_trying_def on_close_timer(2))
next
  case (SocketError i)
  assume k: "keeps_trying pf s"
  have "ready (on_error i s) j = CLOSED \<longleftrightarrow> ready s j = CLOSED" for j
    by (simp add: on_error_def)
  then show ?thesis using k unfolding SocketError by (simp add: keeps_trying_def on_error_def)
next
  case (TimerFires k)
  assume "keeps_trying pf s"
  then show ?thesis unfolding TimerFires
    by (auto simp: Let_def connect_keeps split: option.splits) (auto simp: keeps_trying_def)
next
  case (Click k action)
  assume "keeps_trying pf s"
  then show ?thesis unfolding Click by (auto simp: click_fields intro: keeps_trying_same)
next
  case (ClientsChange cs)
  assume "keeps_trying pf s"
  then show ?thesis unfolding ClientsChange by (auto intro: keeps_trying_same)
next
  case Terminated
  then show ?thesis by (simp add: keeps_trying_def)
qed

interpretation persistent: event_machine "worker_step pf" "keeps_trying pf" for pf
  by unfold_locales (rule keeps_trying_step)

section \<open>Bringing the connection back\<close>

lemma open_step:
  assumes "ready s i = CONNECTING"
  shows "ready (worker_step pf s (SocketOpen i)) i = OPEN"
    and "sw_brokerSocket (worker_step pf s (SocketOpen i)) = sw_brokerSocket s"
proof -
  let ?t = "on_open i (set_ready i OPEN s)"
  have "i < length (sw_sockets s)" using assms by (auto simp: ready_def split: if_splits)
  then have "ready ?t i = OPEN"
    using ready_cong [of ?t "set_ready i OPEN s" i] by (simp add: on_open_def broadcastToClients_def emit_def)
  then show "ready (worker_step pf s (SocketOpen i)) i = OPEN" using assms by simp
  show "sw_brokerSocket (worker_step pf s (SocketOpen i)) = sw_brokerSocket s"
    by (simp add: on_open_def broadcastToClients_def emit_def)
qed

lemma timer_opens:
  assumes "\<forall>i. \<not> live s i" and "sw_brokerUrl s = Some url" and "pf_websocket pf" and "pf_url_ok pf url"
    and "sw_timers s \<noteq> []"
  defines "t \<equiv> worker_step pf (worker_step pf s (TimerFires 0)) (SocketOpen (length (sw_sockets s)))"
  shows "sw_brokerSocket t = Some (length (sw_sockets s)) \<and> ready t (length (sw_sockets s)) = OPEN"
proof -
  let ?s = "s\<lparr>sw_timers := tl (sw_timers s)\<rparr>"
  let ?u = "worker_step pf s (TimerFires 0)"
  have "\<not> live ?s i" for i using assms(1) ready_cong [of ?s s i] by (simp add: live_def)
  moreover have u: "?u = sw_connectBroker pf url ?s"
    using assms(2,5) by (cases "sw_timers s") (simp_all add: Let_def)
  ultimately have "sw_sockets ?u = sw_sockets s @ [\<lparr>ws_url = url, ws_ready = CONNECTING\<rparr>]"
    and b: "sw_brokerSocket ?u = Some (length (sw_sockets s))"
    using connect_dead [of ?s, OF _ assms(3,4)] by simp_all
  then have "ready ?u (length (sw_sockets s)) = CONNECTING" by (simp add: ready_def)
  from open_step [OF this, of pf] b show ?thesis unfolding t_def by simp
qed

definition callback :: "worker_event \<Rightarrow> bool" where
  "callback e \<longleftrightarrow> (\<exists>i. e \<in> {SocketOpen i, SocketClose i, TimerFires i})"

lemma recovers:
  assumes inv: "worker_inv s" and k: "keeps_trying pf s" and url: "sw_brokerUrl s = Some (c # cs)"
    and ok: "pf_websocket pf" "pf_url_ok pf (c # cs)"
  shows "\<exists>es i. length es \<le> 3 \<and> list_all callback es \<and>
           sw_brokerSocket (foldl (worker_step pf) s es) = Some i \<and>
           ready (foldl (worker_step pf) s es) i = OPEN"
proof (cases "\<exists>i. live s i")
  case True
  then obtain i where l: "live s i" and b: "sw_brokerSocket s = Some i"
    using inv unfolding worker_inv_def by blast
  show ?thesis
  proof (cases "ready s i = OPEN")
    case True
    then show ?thesis using b by (intro exI [of _ "[]"] exI [of _ i]) simp
  next
    case False
    then have "ready s i = CONNECTING" using l by (simp add: live_iff)
    from open_step [OF this, of pf] b show ?thesis
      by (intro exI [of _ "[SocketOpen i]"] exI [of _ i]) (simp add: callback_def del: worker_step.simps)
  qed
next
  case False
  then have dead: "\<forall>i. \<not> live s i" by blast
  show ?thesis
  proof (cases "sw_timers s = []")
    case False
    from timer_opens [OF dead url ok False] show ?thesis
      by (intro exI [of _ "[TimerFires 0, SocketOpen (length (sw_sockets s))]"] exI [of _ "length (sw_sockets s)"])
        (simp add: callback_def del: worker_step.simps)
  next
    case True
    then obtain i where i: "ready s i \<noteq> CLOSED" using k url ok unfolding keeps_trying_def by blast
    let ?u = "worker_step pf s (SocketClose i)"
    have u: "?u = on_close (set_ready i CLOSED s)" using i by simp
    have r: "ready ?u j = ready (set_ready i CLOSED s) j" for j
      unfolding u by (rule ready_cong) (simp add: on_close_timer)
    have "\<not> live ?u j" for j
      using dead [rule_format, of j] unfolding live_def r by (simp add: less_ready_state_def)
    then have "\<forall>j. \<not> live ?u j" by blast
    moreover have "sw_brokerUrl ?u = Some (c # cs)" "sw_timers ?u \<noteq> []"
      using url on_close_timer(1) [of "set_ready i CLOSED s" c cs] unfolding u by (simp_all add: on_close_timer)
    ultimately show ?thesis
      using timer_opens [of ?u "c # cs" pf, OF _ _ ok]
      by (intro exI [of _ "[SocketClose i, TimerFires 0, SocketOpen (length (sw_sockets ?u))]"]
            exI [of _ "length (sw_sockets ?u)"])
        (simp add: callback_def del: worker_step.simps)
  qed
qed

section \<open>Properties\<close>

text \<open>
  C5. The worker never gives up: wherever a run of pages, sockets, timers, clicks and failures has
  led, while it knows a broker it could connect to, at most three callbacks of the browser, none
  of them from a page, lead to an open connection that has been subscribed.
\<close>

theorem always_reconnects:
  assumes "s = foldl (worker_step pf) (fresh_worker clients permission) es"
    and "sw_brokerUrl s = Some url" and "url \<noteq> []" and "pf_websocket pf" and "pf_url_ok pf url"
  shows "\<exists>es' i. length es' \<le> 3 \<and> list_all callback es' \<and>
           sw_brokerSocket (foldl (worker_step pf) s es') = Some i \<and>
           ready (foldl (worker_step pf) s es') i = OPEN \<and>
           Send i (frame subscribe_message) \<in> set (sw_effects (foldl (worker_step pf) s es'))"
proof -
  have inv: "worker_inv s" unfolding assms(1) by (rule worker.run_inv [OF fresh_inv])
  have "keeps_trying pf s" unfolding assms(1)
    by (rule persistent.run_inv) (simp add: keeps_trying_def fresh_worker_def)
  moreover obtain c cs where "url = c # cs" using assms(3) by (cases url) auto
  ultimately obtain es' i where r: "length es' \<le> 3" "list_all callback es'"
      "sw_brokerSocket (foldl (worker_step pf) s es') = Some i" "ready (foldl (worker_step pf) s es') i = OPEN"
    using recovers [OF inv] assms(2,4,5) by blast
  have "worker_inv (foldl (worker_step pf) s es')" by (rule worker.run_inv [OF inv])
  then show ?thesis using r unfolding worker_inv_def by blast
qed

theorem always_reconnects_witness:
  "\<exists>s i pf. sw_timers s = [] \<and> ready s 0 = CLOSING \<and>
     (\<exists>es'. ready (foldl (worker_step pf) s es') i = OPEN)"
proof -
  let ?pf = "\<lparr>pf_websocket = True, pf_url_ok = (\<lambda>_. True), pf_showNotification = True,
              pf_getNotifications = True, pf_openWindow = True\<rparr>"
  let ?s = "foldl (worker_step ?pf) (fresh_worker [] True)
              [FromPage (Obj [(''type'', Str ''broker-connect''), (''url'', Str ''wss://b'')]), SocketError 0]"
  have u: "sw_brokerUrl ?s = Some ''wss://b''" and t: "sw_timers ?s = []" and r: "ready ?s 0 = CLOSING"
    by (simp_all add: worker_defs fresh_worker_def ready_def set_ready_def)
  have ok: "''wss://b'' \<noteq> []" "pf_websocket ?pf" "pf_url_ok ?pf ''wss://b''" by simp_all
  from always_reconnects [OF refl u ok] t r show ?thesis by blast
qed

end
