(* ===== verification/ServiceWorkerCache.thy ===== *)
theory ServiceWorkerCache
  imports Prelude
begin

text \<open>
  The offline half of \<^verbatim>\<open>apps/web/public/sw.js\<close>: the \<open>install\<close>, \<open>activate\<close> and \<open>fetch\<close>
  handlers over the Cache API. The caches are a list of named caches in creation order, the
  order \<open>caches.match\<close> searches them in; a cache maps the path of a GET request to a response.
  The network is an argument of each handler: what \<open>fetch\<close> resolves to at that moment,
  \<open>None\<close> where it rejects. The rejections of \<open>cache.put\<close> for a partial response or a
  response with \<open>Vary: *\<close> are not modelled.

  The lemmas show that the cache refines a map from paths to the latest response worth keeping,
  and that the page and its offline fallback are answered without a network from then on.
\<close>

section \<open>The Cache API\<close>

record response =
  rs_status :: nat
  rs_body :: string

definition response_ok :: "response \<Rightarrow> bool" where
  "response_ok r \<longleftrightarrow> 200 \<le> rs_status r \<and> rs_status r \<le> 299"

type_synonym network = "string \<Rightarrow> response option"
type_synonym named_cache = "string \<times> (string \<rightharpoonup> response)"

definition cache_open :: "string \<Rightarrow> named_cache list \<Rightarrow> named_cache list" where
  "cache_open name cs = (if name \<in> set (map fst cs) then cs else cs @ [(name, Map.empty)])"

definition cache_put :: "string \<Rightarrow> string \<Rightarrow> response \<Rightarrow> named_cache list \<Rightarrow> named_cache list" where
  "cache_put name url r cs =
     map (\<lambda>(n, c). if n = name then (n, c(url \<mapsto> r)) else (n, c)) (cache_open name cs)"

definition cache_match :: "string \<Rightarrow> string \<Rightarrow> named_cache list \<Rightarrow> response option" where
  "cache_match name url cs = (case map_of cs name of None \<Rightarrow> None | Some c \<Rightarrow> c url)"

fun caches_match :: "string \<Rightarrow> named_cache list \<Rightarrow> response option" where
  "caches_match url [] = None"
| "caches_match url ((n, c) # cs) = (case c url of Some r \<Rightarrow> Some r | None \<Rightarrow> caches_match url cs)"

section \<open>The handlers\<close>

definition CACHE :: string where
  "CACHE = ''allowlister-remote-v1''"

definition APP_SHELL :: "string list" where
  "APP_SHELL = [''/'', ''/offline'', ''/manifest.webmanifest'', ''/icon-192.png'', ''/icon-512.png'']"

text \<open>\<open>install\<close>: \<open>addAll\<close> stores every shell file or, if one is missing or is not a
  success, rejects and stores none; then the browser discards the worker (\<open>False\<close>).\<close>

definition on_install :: "network \<Rightarrow> named_cache list \<Rightarrow> bool \<times> named_cache list" where
  "on_install net cs =
     (case traverse net APP_SHELL of
        Some rs \<Rightarrow>
          if list_all response_ok rs
          then (True, foldl (\<lambda>cs (url, r). cache_put CACHE url r cs) (cache_open CACHE cs) (zip APP_SHELL rs))
          else (False, cache_open CACHE cs)
      | None \<Rightarrow> (False, cache_open CACHE cs))"

definition on_activate :: "named_cache list \<Rightarrow> named_cache list" where
  "on_activate cs = filter (\<lambda>(key, _). \<not> (key \<noteq> CACHE)) cs"

record http_request =
  hr_method :: string
  hr_navigate :: bool
  hr_url :: string

text \<open>What a fetch ends in: the browser's own handling, a response, or a network error where
  \<open>respondWith\<close> is given \<open>undefined\<close>.\<close>

datatype served = Untouched | Served response | NetworkError

definition serve :: "response option \<Rightarrow> served" where
  "serve r = (case r of None \<Rightarrow> NetworkError | Some x \<Rightarrow> Served x)"

definition fetch_navigation :: "network \<Rightarrow> string \<Rightarrow> named_cache list \<Rightarrow> served \<times> named_cache list" where
  "fetch_navigation net url cs =
     (case net url of
        Some r \<Rightarrow> (Served r, cache_put CACHE url r cs)
      | None \<Rightarrow>
          (serve (case caches_match url cs of Some c \<Rightarrow> Some c | None \<Rightarrow> caches_match ''/offline'' cs), cs))"

definition fetch_asset :: "network \<Rightarrow> string \<Rightarrow> named_cache list \<Rightarrow> served \<times> named_cache list" where
  "fetch_asset net url cs =
     (let cs1 = cache_open CACHE cs;
          cached = cache_match CACHE url cs1;
          networked = (case net url of Some r \<Rightarrow> Some r | None \<Rightarrow> cached);
          cs2 = (case net url of
                   Some r \<Rightarrow> (if response_ok r then cache_put CACHE url r cs1 else cs1)
                 | None \<Rightarrow> cs1)
      in (serve (case cached of Some c \<Rightarrow> Some c | None \<Rightarrow> networked), cs2))"

definition on_fetch :: "network \<Rightarrow> http_request \<Rightarrow> named_cache list \<Rightarrow> served \<times> named_cache list" where
  "on_fetch net request cs =
     (if hr_method request \<noteq> ''GET'' then (Untouched, cs)
      else if hr_navigate request then fetch_navigation net (hr_url request) cs
      else fetch_asset net (hr_url request) cs)"

text \<open>The active worker: each fetch meets the network as it is then.\<close>

fun cache_step :: "named_cache list \<Rightarrow> http_request \<times> network \<Rightarrow> named_cache list" where
  "cache_step cs (request, net) = snd (on_fetch net request cs)"

section \<open>The map the cache refines\<close>

fun latest_step :: "(string \<rightharpoonup> response) \<Rightarrow> http_request \<times> network \<Rightarrow> (string \<rightharpoonup> response)" where
  "latest_step m (request, net) =
     (case net (hr_url request) of
        Some r \<Rightarrow>
          if hr_method request = ''GET'' \<and> (hr_navigate request \<or> response_ok r)
          then m(hr_url request \<mapsto> r) else m
      | None \<Rightarrow> m)"

lemma own_cache [simp]:
  "cache_open CACHE [(CACHE, m)] = [(CACHE, m)]"
  "cache_put CACHE url r [(CACHE, m)] = [(CACHE, m(url \<mapsto> r))]"
  "cache_match CACHE url [(CACHE, m)] = m url"
  "caches_match url [(CACHE, m)] = m url"
  by (simp_all add: cache_open_def cache_put_def cache_match_def split: option.splits)

lemma cache_step_own: "cache_step [(CACHE, m)] e = [(CACHE, latest_step m e)]"
  by (cases e)
    (simp add: on_fetch_def fetch_navigation_def fetch_asset_def Let_def split: option.splits)

lemma cache_run_own: "foldl cache_step [(CACHE, m)] es = [(CACHE, foldl latest_step m es)]"
  by (induction es arbitrary: m) (simp_all add: cache_step_own del: cache_step.simps latest_step.simps)

lemma latest_step_dom: "dom m \<subseteq> dom (latest_step m e)"
  by (cases e) (auto split: option.splits)

interpretation latest: event_machine latest_step "\<lambda>m. set APP_SHELL \<subseteq> dom m"
proof (unfold_locales)
  show "set APP_SHELL \<subseteq> dom (latest_step m e)" if "set APP_SHELL \<subseteq> dom m" for m e
    using that latest_step_dom [of m e] by (rule order_trans)
qed

lemma cache_open_names: "name \<in> set (map fst (cache_open name cs))"
  by (auto simp: cache_open_def)

lemma map_fst_open: "map fst (cache_open name cs) = (if name \<in> set (map fst cs) then map fst cs else map fst cs @ [name])"
  by (simp add: cache_open_def)

lemma map_fst_put [simp]: "map fst (cache_put name url r cs) = map fst (cache_open name cs)"
  by (auto simp: cache_put_def)

text \<open>With distinct names, what \<open>activate\<close> leaves is the one cache of this version.\<close>

lemma activate_own:
  assumes "distinct (map fst cs)" and "CACHE \<in> set (map fst cs)"
  shows "\<exists>m. on_activate cs = [(CACHE, m)] \<and> map_of cs CACHE = Some m"
proof -
  have absent: "CACHE \<notin> fst ` set cs \<Longrightarrow> on_activate cs = []" for cs :: "named_cache list"
    by (force simp: on_activate_def filter_empty_conv)
  show ?thesis using assms
  proof (induction cs)
    case Nil
    then show ?case by simp
  next
    case (Cons a cs)
    obtain n c where a: "a = (n, c)" by (cases a)
    show ?case
    proof (cases "n = CACHE")
      case True
      then have "CACHE \<notin> fst ` set cs" using Cons.prems a by auto
      from absent [OF this] show ?thesis using a True by (simp add: on_activate_def)
    next
      case False
      then show ?thesis using Cons a by (auto simp: on_activate_def)
    qed
  qed
qed

lemma put_own:
  assumes "map_of cs name = Some m"
  shows "map_of (cache_put name url r cs) name = Some (m(url \<mapsto> r))"
proof -
  have "name \<in> set (map fst cs)" using assms by (metis map_of_SomeD in_set_zipE image_eqI fst_conv list.set_map)
  then have "cache_put name url r cs = map (\<lambda>(n, c). if n = name then (n, c(url \<mapsto> r)) else (n, c)) cs"
    by (simp add: cache_put_def cache_open_def)
  moreover have "map_of (map (\<lambda>(n, c). if n = name then (n, c(url \<mapsto> r)) else (n, c)) cs) name = Some (m(url \<mapsto> r))"
    using assms by (induction cs) (auto split: if_splits)
  ultimately show ?thesis by simp
qed

lemma put_shell:
  assumes "map_of cs name = Some m"
  shows "map_of (foldl (\<lambda>cs (url, r). cache_put name url r cs) cs ps) name =
           Some (m ++ map_of (rev ps))"
  using assms
proof (induction ps arbitrary: cs m)
  case Nil
  then show ?case by simp
next
  case (Cons p ps)
  obtain url r where p: "p = (url, r)" by (cases p)
  have "map_of (cache_put name url r cs) name = Some (m(url \<mapsto> r))"
    using Cons.prems by (rule put_own)
  from Cons.IH [OF this] show ?case by (simp add: p map_add_upd_left map_add_def fun_eq_iff split: option.splits)
qed

lemma map_fst_shell:
  "name \<in> set (map fst cs) \<Longrightarrow>
     map fst (foldl (\<lambda>cs (url, r). cache_put name url r cs) cs ps) = map fst cs"
proof (induction ps arbitrary: cs)
  case Nil
  then show ?case by simp
next
  case (Cons p ps)
  obtain url r where p: "p = (url, r)" by (cases p)
  have "map fst (cache_put name url r cs) = map fst cs"
    using Cons.prems by (simp add: map_fst_open)
  then show ?case using Cons.IH [of "cache_put name url r cs"] Cons.prems p by simp
qed

text \<open>The entries an install leaves: those this version's cache already had, and the shell.\<close>

definition installed :: "network \<Rightarrow> named_cache list \<Rightarrow> (string \<rightharpoonup> response)" where
  "installed net cs =
     (case map_of cs CACHE of None \<Rightarrow> Map.empty | Some m \<Rightarrow> m) ++ (net |` set APP_SHELL)"

lemma installed_own:
  assumes "on_install net cs = (True, cs')" and "distinct (map fst cs)"
  shows "on_activate cs' = [(CACHE, installed net cs)]" and "\<forall>url \<in> set APP_SHELL. net url \<noteq> None"
proof -
  let ?o = "cache_open CACHE cs"
  obtain rs where rs: "traverse net APP_SHELL = Some rs"
      and cs': "cs' = foldl (\<lambda>cs (url, r). cache_put CACHE url r cs) ?o (zip APP_SHELL rs)"
    using assms(1) by (auto simp: on_install_def split: option.splits if_splits)
  have in_o: "CACHE \<in> set (map fst ?o)" by (rule cache_open_names)
  define m0 where "m0 = (case map_of cs CACHE of None \<Rightarrow> Map.empty | Some m \<Rightarrow> m)"
  have m0: "map_of ?o CACHE = Some m0"
  proof (cases "CACHE \<in> set (map fst cs)")
    case True
    then obtain c where "map_of cs CACHE = Some c" by (metis list.set_map map_of_eq_None_iff not_None_eq)
    then show ?thesis using True by (simp add: cache_open_def m0_def)
  next
    case False
    then have "map_of cs CACHE = None" by (simp add: map_of_eq_None_iff)
    then show ?thesis using False by (simp add: cache_open_def m0_def map_add_def)
  qed
  have names: "map fst cs' = map fst ?o" unfolding cs' by (rule map_fst_shell [OF in_o])
  have "distinct (map fst cs')" using assms(2) by (simp add: names map_fst_open)
  moreover have "CACHE \<in> set (map fst cs')" unfolding names by (rule in_o)
  ultimately obtain m where m: "on_activate cs' = [(CACHE, m)]" "map_of cs' CACHE = Some m"
    using activate_own by blast
  have m_eq: "m = m0 ++ map_of (rev (zip APP_SHELL rs))"
    using m(2) put_shell [OF m0] unfolding cs' by simp
  have all2: "list_all2 (\<lambda>url r. net url = Some r) APP_SHELL rs" using rs by (simp add: traverse_Some_iff)
  then have len: "length rs = length APP_SHELL" by (simp add: list_all2_lengthD)
  have dist: "distinct APP_SHELL" by (simp add: APP_SHELL_def)
  have hit: "net url \<noteq> None \<and> map_of (rev (zip APP_SHELL rs)) url = net url"
    if url: "url \<in> set APP_SHELL" for url
  proof -
    obtain i where i: "i < length APP_SHELL" "APP_SHELL ! i = url"
      using url by (auto simp: in_set_conv_nth)
    then have net: "net url = Some (rs ! i)" using all2 by (auto simp: list_all2_conv_all_nth)
    have "(url, rs ! i) \<in> set (rev (zip APP_SHELL rs))"
      using i len by (auto simp: in_set_zip)
    moreover have "distinct (map fst (rev (zip APP_SHELL rs)))"
      using dist len by (simp add: rev_map [symmetric])
    ultimately have "map_of (rev (zip APP_SHELL rs)) url = Some (rs ! i)" by (intro map_of_is_SomeI)
    then show ?thesis using net by simp
  qed
  have miss: "map_of (rev (zip APP_SHELL rs)) url = None" if "url \<notin> set APP_SHELL" for url
    using that by (auto simp: map_of_eq_None_iff dest: set_zip_leftD)
  have "m = installed net cs"
    using hit miss by (fastforce simp: m_eq installed_def m0_def [symmetric] map_add_def restrict_map_def)
  then show "on_activate cs' = [(CACHE, installed net cs)]" using m(1) by simp
  show "\<forall>url \<in> set APP_SHELL. net url \<noteq> None" using hit by blast
qed

section \<open>Properties\<close>

text \<open>
  C13. Once the worker is installed and active, the app opens without a network: after any
  traffic, an offline navigation is answered by the latest response to that page, or by the
  offline page when there is none, and never by a network error.
\<close>

theorem offline_serves_latest:
  assumes "on_install net cs = (True, cs')" and "distinct (map fst cs)"
    and "m = foldl latest_step (installed net cs) es"
  shows "\<exists>r. fst (on_fetch (\<lambda>_. None) \<lparr>hr_method = ''GET'', hr_navigate = True, hr_url = url\<rparr>
                 (foldl cache_step (on_activate cs') es)) = Served r \<and>
             Some r = (case m url of Some x \<Rightarrow> Some x | None \<Rightarrow> m ''/offline'')"
proof -
  note own = installed_own [OF assms(1,2)]
  have "set APP_SHELL \<subseteq> dom (installed net cs)"
    using own(2) by (fastforce simp: installed_def restrict_map_def map_add_def split: option.splits)
  from latest.run_inv [OF this, of es] have "''/offline'' \<in> dom m"
    by (auto simp: APP_SHELL_def assms(3))
  then show ?thesis
    by (auto simp: own(1) cache_run_own assms(3) on_fetch_def fetch_navigation_def serve_def split: option.splits)
qed

theorem offline_serves_latest_witness:
  "\<exists>cs'. on_install (\<lambda>url. Some \<lparr>rs_status = 200, rs_body = url\<rparr>) [(''old-v0'', Map.empty)] = (True, cs') \<and>
         fst (on_fetch (\<lambda>_. None) \<lparr>hr_method = ''GET'', hr_navigate = True, hr_url = ''/missing''\<rparr>
                (foldl cache_step (on_activate cs') [])) = Served \<lparr>rs_status = 200, rs_body = ''/offline''\<rparr>"
proof -
  let ?net = "\<lambda>url. Some \<lparr>rs_status = 200, rs_body = url\<rparr>"
  let ?cs = "[(''old-v0'', Map.empty :: string \<rightharpoonup> response)]"
  obtain cs' where i: "on_install ?net ?cs = (True, cs')"
    by (auto simp: on_install_def response_ok_def list_all_iff)
  have d: "distinct (map fst ?cs)" by simp
  have m: "installed ?net ?cs = foldl latest_step (installed ?net ?cs) []" by simp
  have v: "installed ?net ?cs ''/missing'' = None"
    "installed ?net ?cs ''/offline'' = Some \<lparr>rs_status = 200, rs_body = ''/offline''\<rparr>"
    by (simp_all add: installed_def APP_SHELL_def CACHE_def)
  show ?thesis
    using i offline_serves_latest [OF i d m, of "''/missing''"] v by auto
qed

text \<open>
  What a fetch may store: the answer to a GET request replaces the cached entry of its path
  exactly when it is a navigation or a success. So a failed asset request never replaces a good
  asset, while a page load answered by an error page does replace the cached page. No entry is
  ever dropped, and no other path changes.
\<close>

lemma cache_stores_iff:
  "cache_step [(CACHE, m)] (\<lparr>hr_method = meth, hr_navigate = nav, hr_url = url\<rparr>, net) =
     [(CACHE, if meth = ''GET'' \<and> (\<exists>r. net url = Some r \<and> (nav \<or> response_ok r))
              then m(url := net url) else m)]"
  by (subst cache_step_own) (auto split: option.splits)

end
