(* ===== verification/Markup.thy ===== *)
theory Markup
  imports Prelude
begin

text \<open>
  What a React component renders, as far as the operator meets it: a tree of texts and elements
  with the element's tag (or the UI primitive it is built from), the attributes that carry
  meaning (accessible names and states, badge and button variants, the classes that colour a
  fragment), and what activating it does. Layout classes are left out.

  A text is a list of pieces: a string of the model's alphabet, or one code point outside it,
  such as an arrow or a dash.
\<close>

datatype piece = S string | U nat

type_synonym utext = "piece list"

datatype 'a node =
    Text utext
  | Node string "(string \<times> utext) list" "'a option" "'a node list"

abbreviation plain :: "string \<Rightarrow> 'a node" where
  "plain s \<equiv> Text [S s]"

abbreviation element :: "string \<Rightarrow> 'a node list \<Rightarrow> 'a node" where
  "element tag children \<equiv> Node tag [] None children"

text \<open>\<open>condition ? node : null\<close> among the children of an element.\<close>

definition only_if :: "bool \<Rightarrow> 'a node \<Rightarrow> 'a node list" where
  "only_if b n = (if b then [n] else [])"

text \<open>The text content of an element, and the actions an operator can reach in it, both in
  document order.\<close>

fun content :: "'a node \<Rightarrow> utext" where
  "content (Text t) = t"
| "content (Node tag attrs action children) = concat (map content children)"

fun actions :: "'a node \<Rightarrow> 'a list" where
  "actions (Text t) = []"
| "actions (Node tag attrs action children) =
     (case action of None \<Rightarrow> [] | Some a \<Rightarrow> [a]) @ concat (map actions children)"

text \<open>The contents of the outermost elements that satisfy a predicate on tag and attributes.\<close>

fun contents_where :: "(string \<Rightarrow> (string \<times> utext) list \<Rightarrow> bool) \<Rightarrow> 'a node \<Rightarrow> utext list" where
  "contents_where P (Text x) = []"
| "contents_where P (Node tag attrs action children) =
     (if P tag attrs then [concat (map content children)] else concat (map (contents_where P) children))"

definition has_tag :: "string \<Rightarrow> string \<Rightarrow> (string \<times> utext) list \<Rightarrow> bool" where
  "has_tag t tag attrs \<longleftrightarrow> tag = t"

definition has_class :: "string \<Rightarrow> string \<Rightarrow> (string \<times> utext) list \<Rightarrow> bool" where
  "has_class c tag attrs \<longleftrightarrow> (''class'', [S c]) \<in> set attrs"

abbreviation codes :: "'a node \<Rightarrow> utext list" where
  "codes \<equiv> contents_where (has_tag ''code'')"

lemma has_simps [simp]:
  "has_tag t tag attrs \<longleftrightarrow> tag = t"
  "has_class c tag [] \<longleftrightarrow> False"
  "has_class c tag ((k, v) # attrs) \<longleftrightarrow> k = ''class'' \<and> v = [S c] \<or> has_class c tag attrs"
  by (auto simp: has_tag_def has_class_def)

text \<open>The accessible names with the actions they name.\<close>

fun named_actions :: "'a node \<Rightarrow> (utext \<times> 'a) list" where
  "named_actions (Text t) = []"
| "named_actions (Node tag attrs action children) =
     (case (map_of attrs ''aria-label'', action) of
        (Some name, Some a) \<Rightarrow> [(name, a)]
      | _ \<Rightarrow> []) @ concat (map named_actions children)"

lemma only_if_simps [simp]: "only_if True n = [n]" "only_if False n = []"
  by (simp_all add: only_if_def)

lemma concat_map_only_if: "concat (map f (only_if b n)) = (if b then f n else [])"
  by (simp add: only_if_def)

lemma concat_map_singleton [simp]: "concat (map (\<lambda>x. [f x]) xs) = map f xs"
  by (induction xs) auto

lemma concat_map_Nil [simp]: "concat (map (\<lambda>x. []) xs) = []"
  by (induction xs) auto

text \<open>The string of a text within the model's alphabet.\<close>

fun text_string :: "utext \<Rightarrow> string" where
  "text_string [] = []"
| "text_string (S s # ps) = s @ text_string ps"
| "text_string (U n # ps) = text_string ps"

lemma text_string_append [simp]: "text_string (a @ b) = text_string a @ text_string b"
  by (induction a rule: text_string.induct) auto

end
