(* ===== verification/Inbox.thy ===== *)
theory Inbox
  imports Normalize
begin

text \<open>
  \<^verbatim>\<open>apps/web/src/inbox.ts\<close>: the three folds of a broker event onto the list of pending
  requests. A fold takes the supply of fresh identifiers and the number drawn (see
  \<open>Normalize\<close>) and is \<open>None\<close> when it throws.

  The locale \<open>keyed_list\<close> is the contract the page relies on: a list in announcement order,
  unique by key, that refines a finite map on which the first announcement of a key wins. It
  is proved once and interpreted on the code's folds.
\<close>

section \<open>The contract: an announcement-ordered list, unique by key\<close>

definition keyed_abs :: "('a \<Rightarrow> 'k) \<Rightarrow> 'a list \<Rightarrow> ('k \<rightharpoonup> 'a)" where
  "keyed_abs key xs = map_of (map (\<lambda>x. (key x, x)) xs)"

datatype ('a, 'k) keyed_event = Announce 'a | Resolve 'k

fun keyed_map_step :: "('a \<Rightarrow> 'k) \<Rightarrow> ('k \<rightharpoonup> 'a) \<Rightarrow> ('a, 'k) keyed_event \<Rightarrow> ('k \<rightharpoonup> 'a)" where
  "keyed_map_step key m (Announce x) = (if key x \<in> dom m then m else m(key x \<mapsto> x))"
| "keyed_map_step key m (Resolve k) = m(k := None)"

lemma keyed_abs_dom: "dom (keyed_abs key xs) = key ` set xs"
  by (auto simp: keyed_abs_def dom_map_of_conv_image_fst image_image)

lemma keyed_abs_snoc:
  "key x \<notin> key ` set xs \<Longrightarrow> keyed_abs key (xs @ [x]) = (keyed_abs key xs)(key x \<mapsto> x)"
  by (induction xs) (auto simp: keyed_abs_def fun_upd_twist)

lemma keyed_abs_filter:
  "keyed_abs key (filter (\<lambda>x. key x \<noteq> k) xs) = (keyed_abs key xs)(k := None)"
  by (induction xs) (auto simp: keyed_abs_def fun_eq_iff)

lemma keyed_abs_ran: "distinct (map key xs) \<Longrightarrow> set xs = ran (keyed_abs key xs)"
  using ran_distinct [of "map (\<lambda>x. (key x, x)) xs"] by (simp add: keyed_abs_def comp_def image_image)

lemma keyed_abs_card: "distinct (map key xs) \<Longrightarrow> length xs = card (dom (keyed_abs key xs))"
  using distinct_card [of "map key xs"] by (simp add: keyed_abs_dom)

locale keyed_list =
  fixes key :: "'a \<Rightarrow> 'k"
    and add :: "'a list \<Rightarrow> 'a \<Rightarrow> 'a list"
    and remove :: "'a list \<Rightarrow> 'k \<Rightarrow> 'a list"
  assumes add_known: "key x \<in> key ` set xs \<Longrightarrow> add xs x = xs"
    and add_new: "key x \<notin> key ` set xs \<Longrightarrow> add xs x = xs @ [x]"
    and remove_filter: "remove xs k = filter (\<lambda>x. key x \<noteq> k) xs"
begin

fun keyed_step :: "'a list \<Rightarrow> ('a, 'k) keyed_event \<Rightarrow> 'a list" where
  "keyed_step xs (Announce x) = add xs x"
| "keyed_step xs (Resolve k) = remove xs k"

lemma step_distinct: "distinct (map key xs) \<Longrightarrow> distinct (map key (keyed_step xs e))"
proof (cases e)
  case (Announce x)
  assume "distinct (map key xs)"
  then show ?thesis using Announce
    by (cases "key x \<in> key ` set xs") (auto simp: add_known add_new)
next
  case (Resolve k)
  assume "distinct (map key xs)"
  then show ?thesis using Resolve by (simp add: remove_filter)
qed

lemma step_refines: "keyed_abs key (keyed_step xs e) = keyed_map_step key (keyed_abs key xs) e"
proof (cases e)
  case (Announce x)
  then show ?thesis
    by (cases "key x \<in> key ` set xs") (auto simp: add_known add_new keyed_abs_dom keyed_abs_snoc)
next
  case (Resolve k)
  then show ?thesis by (simp add: remove_filter keyed_abs_filter)
qed

lemma run_refines:
  "keyed_abs key (foldl keyed_step xs es) = foldl (keyed_map_step key) (keyed_abs key xs) es"
  by (induction es arbitrary: xs) (simp_all add: step_refines)

lemma run_distinct: "distinct (map key xs) \<Longrightarrow> distinct (map key (foldl keyed_step xs es))"
  by (induction es arbitrary: xs) (simp_all add: step_distinct del: keyed_step.simps)

text \<open>The elements of before that were never removed come first, in their order.\<close>

lemma run_order: "\<exists>new. foldl keyed_step xs es = filter (\<lambda>x. Resolve (key x) \<notin> set es) xs @ new"
proof (induction es rule: rev_induct)
  case (snoc e es)
  obtain new where new: "foldl keyed_step xs es = filter (\<lambda>x. Resolve (key x) \<notin> set es) xs @ new" using snoc by blast
  show ?case
  proof (cases e)
    case (Announce x)
    then show ?thesis
      by (cases "key x \<in> key ` set (foldl keyed_step xs es)") (simp_all add: add_known add_new, simp_all add: new)
  next
    case (Resolve k)
    have "filter (\<lambda>x. Resolve (key x) \<notin> set (es @ [e])) xs =
        filter (\<lambda>x. key x \<noteq> k) (filter (\<lambda>x. Resolve (key x) \<notin> set es) xs)"
      using Resolve by (auto intro: filter_cong)
    moreover have "foldl keyed_step xs (es @ [e]) = filter (\<lambda>x. key x \<noteq> k) (foldl keyed_step xs es)"
      using remove_filter [of "foldl keyed_step xs es" k] by (simp add: Resolve)
    ultimately show ?thesis using new by simp
  qed
qed simp

lemma step_length: "length (keyed_step xs e) \<le> length xs + (case e of Announce x \<Rightarrow> 1 | Resolve k \<Rightarrow> 0)"
proof (cases e)
  case (Announce x)
  then show ?thesis by (cases "key x \<in> key ` set xs") (auto simp: add_known add_new)
next
  case (Resolve k)
  then show ?thesis by (simp add: remove_filter)
qed

lemma drain: "key ` set xs \<subseteq> set ks \<Longrightarrow> foldl remove xs ks = []"
proof (induction ks arbitrary: xs)
  case Nil
  then show ?case by simp
next
  case (Cons k ks)
  have "key ` set (remove xs k) \<subseteq> set ks" using Cons.prems by (auto simp: remove_filter)
  then show ?case by (simp add: Cons.IH)
qed

lemma add_again: "add (add xs x) y = add xs x" if "key y = key x"
proof -
  have "key x \<in> key ` set (add xs x)"
    by (cases "key x \<in> key ` set xs") (auto simp: add_known add_new)
  then show ?thesis using that by (intro add_known) simp
qed

lemma add_then_remove: "key x \<notin> key ` set xs \<Longrightarrow> remove (add xs x) (key x) = xs"
  by (auto simp: add_new remove_filter filter_id_conv image_iff)

end

section \<open>The code\<close>

fun normalize_all ::
    "(nat \<Rightarrow> string) \<Rightarrow> nat \<Rightarrow> js list \<Rightarrow> (approval_request list \<times> nat) option" where
  "normalize_all uuid n [] = Some ([], n)"
| "normalize_all uuid n (x # xs) = do {
     (r, m) \<leftarrow> normalizeBrokerRequest uuid n x;
     (rs, k) \<leftarrow> normalize_all uuid m xs;
     Some (r # rs, k)
   }"

text \<open>\<open>snapshot.map\<close> of anything but an array is a TypeError.\<close>

definition applySnapshot ::
    "(nat \<Rightarrow> string) \<Rightarrow> nat \<Rightarrow> js \<Rightarrow> (approval_request list \<times> nat) option" where
  "applySnapshot uuid n snapshot =
     (case snapshot of Arr xs \<Rightarrow> normalize_all uuid n xs | _ \<Rightarrow> None)"

definition add_request :: "approval_request list \<Rightarrow> approval_request \<Rightarrow> approval_request list" where
  "add_request current normalized =
     (if list_ex (\<lambda>existing. rq_id existing = rq_id normalized) current
      then current else current @ [normalized])"

definition applyAdded ::
    "(nat \<Rightarrow> string) \<Rightarrow> nat \<Rightarrow> approval_request list \<Rightarrow> js \<Rightarrow> (approval_request list \<times> nat) option"
  where
  "applyAdded uuid n current request = do {
     (normalized, m) \<leftarrow> normalizeBrokerRequest uuid n request;
     Some (add_request current normalized, m)
   }"

text \<open>\<open>request.id !== id\<close>, where the identifier is whatever the frame carried.\<close>

definition applyResolved :: "approval_request list \<Rightarrow> js \<Rightarrow> approval_request list" where
  "applyResolved current ident = filter (\<lambda>request. Str (rq_id request) \<noteq> ident) current"

section \<open>The folds provide the contract\<close>

lemma known_iff: "list_ex (\<lambda>e. rq_id e = k) rs \<longleftrightarrow> k \<in> rq_id ` set rs"
  by (induction rs) auto

interpretation pending: keyed_list rq_id add_request "\<lambda>rs k. applyResolved rs (Str k)"
  by unfold_locales (auto simp: add_request_def applyResolved_def known_iff)

lemma applyResolved_not_string: "\<not> is_string ident \<Longrightarrow> applyResolved rs ident = rs"
  by (cases ident) (auto simp: applyResolved_def)

lemma add_request_ids:
  "rq_id ` set (add_request rs r) = insert (rq_id r) (rq_id ` set rs)"
  by (auto simp: add_request_def known_iff)

lemma applyResolved_ids:
  "rq_id ` set (applyResolved rs (Str k)) = rq_id ` set rs - {k}"
  by (auto simp: applyResolved_def)

lemma add_request_distinct [wf_intros]:
  "distinct (map rq_id rs) \<Longrightarrow> distinct (map rq_id (add_request rs r))"
  using pending.step_distinct [of rs "Announce r"] by simp

lemma applyResolved_distinct [wf_intros]:
  "distinct (map rq_id rs) \<Longrightarrow> distinct (map rq_id (applyResolved rs ident))"
  by (simp add: applyResolved_def)

lemma applyAdded_SomeD:
  assumes "applyAdded uuid n rs x = Some (rs', m)"
  obtains r where "normalizeBrokerRequest uuid n x = Some (r, m)" and "rs' = add_request rs r"
  using assms by (auto simp: applyAdded_def bind_eq_Some_conv)

lemma normalize_all_length: "normalize_all uuid n xs = Some (rs, m) \<Longrightarrow> length rs = length xs"
  by (induction xs arbitrary: n rs m) (auto simp: bind_eq_Some_conv)

lemma normalize_all_ids:
  assumes "normalize_all uuid n xs = Some (rs, m)" and "\<forall>x \<in> set xs. is_string (member x ''id'')"
  shows "map (\<lambda>r. Str (rq_id r)) rs = map (\<lambda>x. member x ''id'') xs \<and> m = n"
  using assms
proof (induction xs arbitrary: n rs m)
  case Nil
  then show ?case by simp
next
  case (Cons x xs)
  from Cons.prems(1) obtain r k rs' where r: "normalizeBrokerRequest uuid n x = Some (r, k)"
      and rs': "normalize_all uuid k xs = Some (rs', m)" and rs: "rs = r # rs'"
    by (auto simp: bind_eq_Some_conv)
  obtain s where s: "member x ''id'' = Str s"
    using Cons.prems(2) by (cases "member x ''id''") auto
  from r s have "rq_id r = s \<and> k = n"
    by (auto simp: normalizeBrokerRequest_def dest: normalizePluginRequest_SomeD(1))
  then show ?case using Cons.IH [OF rs'] Cons.prems(2) rs s by simp
qed

lemma normalize_all_encode:
  "\<forall>r \<in> set rs. request_wf r \<Longrightarrow> normalize_all uuid n (map encode_request rs) = Some (rs, n)"
proof (induction rs)
  case Nil
  then show ?case by simp
next
  case (Cons r rs)
  have "normalizeBrokerRequest uuid n (encode_request r) = Some (r, n)"
    using Cons.prems by (intro normalizeBrokerRequest_encode) simp
  then show ?case using Cons by simp
qed

section \<open>Properties\<close>

text \<open>
  C6. The live inbox refines a map from request identifiers to requests on which the first
  announcement of an identifier wins and a resolution deletes it: over any session of
  announcements and resolutions, from an inbox with one card per identifier, the list shows exactly
  the requests of the map, each once, and the cards that no resolution named keep their order ahead
  of all that came later.
\<close>

theorem inbox_refines_map:
  assumes "distinct (map rq_id rs)"
    and "rs' = foldl (\<lambda>rs e. case e of Announce r \<Rightarrow> add_request rs r | Resolve k \<Rightarrow> applyResolved rs (Str k)) rs es"
    and "m = foldl (keyed_map_step rq_id) (keyed_abs rq_id rs) es"
  shows "keyed_abs rq_id rs' = m \<and> distinct (map rq_id rs') \<and> set rs' = ran m \<and> length rs' = card (dom m) \<and>
         (\<exists>new. rs' = filter (\<lambda>r. Resolve (rq_id r) \<notin> set es) rs @ new)"
proof -
  have "(\<lambda>rs e. case e of Announce r \<Rightarrow> add_request rs r | Resolve k \<Rightarrow> applyResolved rs (Str k))
          = pending.keyed_step"
    by (intro ext) (simp split: keyed_event.splits)
  then have run: "rs' = foldl pending.keyed_step rs es" using assms(2) by (simp only:)
  have abs: "keyed_abs rq_id rs' = m" unfolding run assms(3) by (rule pending.run_refines)
  have dist: "distinct (map rq_id rs')" unfolding run by (rule pending.run_distinct [OF assms(1)])
  have "set rs' = ran m" using keyed_abs_ran [OF dist] by (simp only: abs)
  moreover have "length rs' = card (dom m)" using keyed_abs_card [OF dist] by (simp only: abs)
  moreover have "\<exists>new. rs' = filter (\<lambda>r. Resolve (rq_id r) \<notin> set es) rs @ new"
    unfolding run by (rule pending.run_order)
  ultimately show ?thesis using abs dist by blast
qed

text \<open>A second announcement of a card changes nothing, a resolution removes it.\<close>

definition sample_card :: "string \<Rightarrow> string \<Rightarrow> approval_request" where
  "sample_card ident cwd =
     \<lparr>rq_id = ident, rq_protocolVersion = NaN, rq_harness = [], rq_sessionId = None, rq_cwd = cwd,
      rq_currentVerdict = Ask, rq_currentReason = [], rq_subject = Shell [] []\<rparr>"

theorem inbox_refines_map_witness:
  "\<exists>rs'. rs' = foldl (\<lambda>rs e. case e of Announce r \<Rightarrow> add_request rs r | Resolve k \<Rightarrow> applyResolved rs (Str k)) []
              [Announce (sample_card ''a'' ''/x''), Announce (sample_card ''a'' ''/y''), Announce (sample_card ''b'' []),
               Resolve ''b''] \<and>
     length rs' = 1 \<and> set rs' = {sample_card ''a'' ''/x''}"
proof -
  let ?es = "[Announce (sample_card ''a'' ''/x''), Announce (sample_card ''a'' ''/y''), Announce (sample_card ''b'' []), Resolve ''b'']"
  let ?m = "foldl (keyed_map_step rq_id) (keyed_abs rq_id []) ?es"
  have d: "distinct (map rq_id [])" by simp
  have m: "?m = [''a'' \<mapsto> sample_card ''a'' ''/x'']" by (simp add: keyed_abs_def sample_card_def)
  from inbox_refines_map [OF d refl refl, of ?es] show ?thesis unfolding m by (intro exI conjI) (rule refl, auto)
qed

text \<open>
  The inbox never holds two cards of one request: an announcement, re-announced or not,
  and a resolution keep the identifiers distinct, and an announcement adds its identifier.
\<close>

lemma inbox_ids_distinct:
  assumes "distinct (map rq_id rs)" and "applyAdded uuid n rs x = Some (rs', m)"
  shows "distinct (map rq_id rs') \<and> distinct (map rq_id (applyResolved rs ident)) \<and>
         set rs \<subseteq> set rs' \<and> length rs' \<le> Suc (length rs) \<and>
         (\<forall>s. member x ''id'' = Str s \<longrightarrow> rq_id ` set rs' = insert s (rq_id ` set rs))"
proof -
  obtain r where r: "normalizeBrokerRequest uuid n x = Some (r, m)" and rs': "rs' = add_request rs r"
    using assms(2) by (rule applyAdded_SomeD)
  have ident: "rq_id r = s" if "member x ''id'' = Str s" for s
    using r that by (auto simp: normalizeBrokerRequest_def dest: normalizePluginRequest_SomeD(1))
  have "set rs \<subseteq> set rs' \<and> length rs' \<le> Suc (length rs)"
    by (auto simp: rs' add_request_def)
  with assms(1) ident show ?thesis
    by (auto simp: rs' add_request_ids intro: wf_intros)
qed

text \<open>
  Nothing is retained: resolving every request the inbox holds, in any order and with
  any others in between, empties it.
\<close>

lemma inbox_drains:
  assumes "rq_id ` set rs \<subseteq> set ks"
  shows "foldl (\<lambda>rs k. applyResolved rs (Str k)) rs ks = []"
  using assms by (rule pending.drain)

text \<open>
  A snapshot of well-formed requests replaces the inbox by exactly those requests, in the
  broker's order, and a snapshot that is not an array throws instead of emptying the inbox.
\<close>

lemma snapshot_exact:
  assumes "\<forall>r \<in> set rs. request_wf r"
  shows "applySnapshot uuid n (Arr (map encode_request rs)) = Some (rs, n) \<and>
         (applySnapshot uuid n v \<noteq> None \<longrightarrow> (\<exists>xs. v = Arr xs))"
  using normalize_all_encode [OF assms, of uuid n]
  by (cases v) (auto simp: applySnapshot_def)

end
