(* ===== verification/BrokerConfig.thy ===== *)
theory BrokerConfig
  imports LocalStorage
begin

text \<open>
  \<^verbatim>\<open>apps/web/src/lib/broker-config.ts\<close>: which broker the page connects to. The environment
  constant Next inlines at build time is an argument (\<open>env\<close>), and so are the two browser
  parsers the code calls: \<open>url_param\<close> is \<open>new URLSearchParams(search).get(name)\<close> and
  \<open>url_protocol\<close> is \<open>new URL(s).protocol\<close>, \<open>None\<close> where the constructor throws.
\<close>

definition BROKER_URL_STORAGE_KEY :: string where
  "BROKER_URL_STORAGE_KEY = ''allowlister-remote-broker-url''"

definition QUERY_PARAM :: string where
  "QUERY_PARAM = ''broker''"

definition buildTimeBrokerBase :: "string option \<Rightarrow> string option" where
  "buildTimeBrokerBase env =
     (case env of None \<Rightarrow> None | Some fromEnv \<Rightarrow> (if length fromEnv > 0 then Some fromEnv else None))"

definition readStored :: "storage \<Rightarrow> string option" where
  "readStored st =
     (case getItem st BROKER_URL_STORAGE_KEY of
        None \<Rightarrow> None
      | Some None \<Rightarrow> None
      | Some (Some v) \<Rightarrow> (if length v > 0 then Some v else None))"

definition setStoredBrokerBase :: "string option \<Rightarrow> storage \<Rightarrow> storage" where
  "setStoredBrokerBase base st =
     (let trimmed = (case base of None \<Rightarrow> [] | Some b \<Rightarrow> js_trim b) in
      if trimmed \<noteq> []
      then attempt (\<lambda>s. setItem s BROKER_URL_STORAGE_KEY trimmed) st
      else attempt (\<lambda>s. removeItem s BROKER_URL_STORAGE_KEY) st)"

definition resolveBrokerBase ::
    "(string \<Rightarrow> string \<Rightarrow> string option) \<Rightarrow> string option \<Rightarrow> string \<Rightarrow> storage \<Rightarrow> string option \<times> storage"
  where
  "resolveBrokerBase url_param env search st =
     (let fromQuery = map_option js_trim (url_param search QUERY_PARAM) in
      case fromQuery of
        Some (c # cs) \<Rightarrow> (Some (c # cs), setStoredBrokerBase (Some (c # cs)) st)
      | _ \<Rightarrow> ((case readStored st of Some v \<Rightarrow> Some v | None \<Rightarrow> buildTimeBrokerBase env), st))"

definition brokerWsUrl :: "string \<Rightarrow> string" where
  "brokerWsUrl base = rev (dropWhile (\<lambda>c. c = CHR ''/'') (rev base)) @ ''/ws/pwa''"

definition isValidBrokerBase :: "(string \<Rightarrow> string option) \<Rightarrow> string \<Rightarrow> bool" where
  "isValidBrokerBase url_protocol v =
     (let trimmed = js_trim v in
      if trimmed = [] then False
      else (case url_protocol trimmed of
              None \<Rightarrow> False
            | Some protocol \<Rightarrow> protocol = ''ws:'' \<or> protocol = ''wss:''))"

section \<open>Lemmas\<close>

lemma readStored_setStored:
  assumes "st_enabled st" and "\<not> st_full st"
  shows "readStored (setStoredBrokerBase (Some base) st) = (if js_trim base = [] then None else Some (js_trim base))"
  using assms
  by (auto simp: readStored_def setStoredBrokerBase_def Let_def storage_simps
      setItem_None_iff removeItem_None_iff)

lemma setStored_other:
  "k \<noteq> BROKER_URL_STORAGE_KEY \<Longrightarrow> getItem (setStoredBrokerBase base st) k = getItem st k"
  by (auto simp: setStoredBrokerBase_def Let_def storage_simps)

lemma setStored_flags [simp]:
  "st_enabled (setStoredBrokerBase base st) = st_enabled st"
  "st_full (setStoredBrokerBase base st) = st_full st"
  by (auto simp: setStoredBrokerBase_def Let_def attempt_def setItem_def removeItem_def)

lemma setStored_unusable:
  "\<not> st_enabled st \<Longrightarrow> setStoredBrokerBase base st = st"
  by (auto simp: setStoredBrokerBase_def Let_def attempt_def setItem_def removeItem_def)

lemma buildTime_not_empty: "buildTimeBrokerBase env \<noteq> Some []"
  by (auto simp: buildTimeBrokerBase_def split: option.splits)

lemma resolve_not_empty: "fst (resolveBrokerBase url_param env search st) \<noteq> Some []"
  using buildTime_not_empty [of env]
  by (auto simp: resolveBrokerBase_def readStored_def Let_def split: option.splits list.splits)

section \<open>Properties\<close>

text \<open>
  A deep link is durable: whatever was saved before, a page opened with a non-blank
  \<open>?broker=\<close> connects to it, and every later load without the parameter resolves to the
  same broker, saved trimmed; other settings in the store are untouched.
\<close>

lemma deep_link_persists:
  assumes "st_enabled st" and "\<not> st_full st"
    and "url_param search QUERY_PARAM = Some v" and "js_trim v \<noteq> []"
    and "url_param later QUERY_PARAM = None"
    and "resolveBrokerBase url_param env search st = (base, st')"
  shows "base = Some (js_trim v) \<and> resolveBrokerBase url_param env' later st' = (base, st') \<and>
         (\<forall>k. k \<noteq> BROKER_URL_STORAGE_KEY \<longrightarrow> getItem st' k = getItem st k)"
proof -
  obtain c cs where t: "js_trim v = c # cs" using assms(4) by (cases "js_trim v") auto
  have b: "base = Some (c # cs)" and s: "st' = setStoredBrokerBase (Some (c # cs)) st"
    using assms(3,6) t by (auto simp: resolveBrokerBase_def)
  have "js_trim (c # cs) = c # cs" using t by (metis js_trim_idem)
  then have "readStored st' = Some (c # cs)"
    using readStored_setStored [OF assms(1,2), of "c # cs"] s by simp
  then show ?thesis using assms(5) b s t by (auto simp: resolveBrokerBase_def setStored_other)
qed

lemma deep_link_persists_witness:
  "\<exists>st'. resolveBrokerBase (\<lambda>s k. if s = ''?broker=x'' then Some '' wss://b '' else None) None ''?broker=x''
           \<lparr>st_items = Map.empty, st_enabled = True, st_full = False\<rparr> = (Some ''wss://b'', st') \<and>
         resolveBrokerBase (\<lambda>s k. if s = ''?broker=x'' then Some '' wss://b '' else None) (Some ''ws://d'') '''' st'
           = (Some ''wss://b'', st')"
proof -
  let ?st = "\<lparr>st_items = Map.empty, st_enabled = True, st_full = False\<rparr>"
  let ?q = "\<lambda>s k. if s = ''?broker=x'' then Some '' wss://b '' else None"
  obtain base st' where r: "resolveBrokerBase ?q None ''?broker=x'' ?st = (base, st')"
    by (cases "resolveBrokerBase ?q None ''?broker=x'' ?st")
  have t: "js_trim '' wss://b '' = ''wss://b''" by (simp add: js_trim_def js_space_def)
  have "base = Some (js_trim '' wss://b '') \<and> resolveBrokerBase ?q (Some ''ws://d'') '''' st' = (base, st') \<and>
         (\<forall>k. k \<noteq> BROKER_URL_STORAGE_KEY \<longrightarrow> getItem st' k = getItem ?st k)"
    by (rule deep_link_persists [OF _ _ _ _ _ r]) (simp_all add: t)
  then show ?thesis using r t by auto
qed

text \<open>
  Precedence and failure: without a non-blank deep link the saved setting wins over the
  build-time default, reading never changes the store, and a browser whose storage throws
  still resolves its deep link, and otherwise the build-time default.
\<close>

lemma resolve_precedence:
  "resolveBrokerBase url_param env search st =
     (case url_param search QUERY_PARAM of
        Some v \<Rightarrow>
          (if js_trim v \<noteq> [] then (Some (js_trim v), setStoredBrokerBase (Some v) st)
           else (case readStored st of Some s \<Rightarrow> Some s | None \<Rightarrow> buildTimeBrokerBase env, st))
      | None \<Rightarrow> (case readStored st of Some s \<Rightarrow> Some s | None \<Rightarrow> buildTimeBrokerBase env, st)) \<and>
   (\<not> st_enabled st \<longrightarrow>
      resolveBrokerBase url_param env search st =
        (case url_param search QUERY_PARAM of
           Some v \<Rightarrow> if js_trim v \<noteq> [] then Some (js_trim v) else buildTimeBrokerBase env
         | None \<Rightarrow> buildTimeBrokerBase env, st))"
proof -
  have same: "setStoredBrokerBase (Some (js_trim v)) st = setStoredBrokerBase (Some v) st" for v
    by (simp add: setStoredBrokerBase_def)
  have dead: "readStored st = None" if "\<not> st_enabled st"
    using that by (simp add: readStored_def getItem_def)
  have 1: "resolveBrokerBase url_param env search st =
     (case url_param search QUERY_PARAM of
        Some v \<Rightarrow>
          (if js_trim v \<noteq> [] then (Some (js_trim v), setStoredBrokerBase (Some v) st)
           else (case readStored st of Some s \<Rightarrow> Some s | None \<Rightarrow> buildTimeBrokerBase env, st))
      | None \<Rightarrow> (case readStored st of Some s \<Rightarrow> Some s | None \<Rightarrow> buildTimeBrokerBase env, st))"
    using same by (auto simp: resolveBrokerBase_def Let_def split: option.splits list.splits) (metis same)+
  show ?thesis
    unfolding 1 using dead by (auto simp: setStored_unusable split: option.splits)
qed

text \<open>
  The worker endpoint is the base without its trailing slashes plus \<open>/ws/pwa\<close>: adding
  slashes to a base changes nothing, and the path is never preceded by a slash of the base.
\<close>

lemma ws_url_normal:
  "brokerWsUrl (base @ replicate n (CHR ''/'')) = brokerWsUrl base \<and>
   (\<exists>host. brokerWsUrl base = host @ ''/ws/pwa'' \<and> takeWhile (\<lambda>c. c = CHR ''/'') (rev host) = [] \<and>
           (\<exists>m. base = host @ replicate m (CHR ''/'')))"
proof -
  let ?sl = "\<lambda>c. c = CHR ''/''"
  have drop: "dropWhile ?sl (replicate n (CHR ''/'') @ r) = dropWhile ?sl r" for r
    by (induction n) auto
  let ?host = "rev (dropWhile ?sl (rev base))"
  have "takeWhile ?sl (dropWhile ?sl xs) = []" for xs :: string
    by (induction xs) auto
  then have "takeWhile ?sl (rev ?host) = []" by simp
  moreover have "takeWhile ?sl (rev base) = replicate (length (takeWhile ?sl (rev base))) (CHR ''/'')"
    by (rule takeWhile_replicate)
  then have "base = ?host @ replicate (length (takeWhile ?sl (rev base))) (CHR ''/'')"
    by (metis rev_append rev_replicate rev_rev_ident takeWhile_dropWhile_id)
  ultimately show ?thesis by (auto simp: brokerWsUrl_def drop)
qed

end
