(* ===== verification/BrokerBridge.thy ===== *)
theory BrokerBridge
  imports ApprovalTypes
begin

text \<open>
  \<^verbatim>\<open>apps/web/src/pwa/broker-bridge.ts\<close>: the page's end of the channel to the service worker.
  One call of \<open>connectBroker\<close> is a state: the container it was given (\<open>None\<close> where
  \<open>navigator.serviceWorker\<close> is undefined, else whether a worker controls the page now), which
  of its two listeners are attached, the messages posted to the worker and the handler calls made
  so far, both in order.

  The lemmas say that the worker is asked to connect exactly once, however often a new worker
  takes control, and that nothing reaches the page after \<open>close\<close>.
\<close>

section \<open>The code\<close>

datatype bridge_call =
    OnStatus js
  | OnSnapshot js
  | OnAdded js
  | OnResolved js

record bridge =
  bg_container :: "bool option"
  bg_url :: string
  bg_listening :: bool
  bg_deferred :: bool
  bg_posted :: "js list"
  bg_calls :: "bridge_call list"

definition connect_message :: "string \<Rightarrow> js" where
  "connect_message url = Obj [(''type'', Str ''broker-connect''), (''url'', Str url)]"

definition decision_message :: "approval_decision \<Rightarrow> js" where
  "decision_message d =
     Obj [(''type'', Str ''decision''), (''requestId'', Str (dc_requestId d)),
          (''verdict'', Str (choice_string (dc_verdict d))), (''reason'', Str (dc_reason d))]"

text \<open>\<open>container?.controller?.postMessage(message)\<close>.\<close>

definition post :: "js \<Rightarrow> bridge \<Rightarrow> bridge" where
  "post message b =
     (if bg_container b = Some True then b\<lparr>bg_posted := bg_posted b @ [message]\<rparr> else b)"

text \<open>\<open>listener\<close>: the handler a message from the worker is decoded to.\<close>

definition decode_message :: "js \<Rightarrow> bridge_call option" where
  "decode_message data =
     (if \<not> is_object data then None
      else if member data ''type'' = Str ''broker-status'' then Some (OnStatus (member data ''status''))
      else if member data ''type'' \<noteq> Str ''broker-event'' then None
      else
        (let brokerEvent = member data ''event''; kind = member brokerEvent ''type'' in
         if kind = Str ''snapshot'' then Some (OnSnapshot (nullish_or (member brokerEvent ''requests'') (Arr [])))
         else if kind = Str ''added'' then Some (OnAdded (member brokerEvent ''request''))
         else if kind = Str ''resolved'' then Some (OnResolved (member brokerEvent ''requestId''))
         else None))"

definition on_message :: "js \<Rightarrow> bridge \<Rightarrow> bridge" where
  "on_message data b =
     (if bg_listening b
      then (case decode_message data of
              None \<Rightarrow> b
            | Some c \<Rightarrow> b\<lparr>bg_calls := bg_calls b @ [c]\<rparr>)
      else b)"

definition connectBroker :: "string \<Rightarrow> bool option \<Rightarrow> bridge" where
  "connectBroker url container =
     (let b = \<lparr>bg_container = container, bg_url = url, bg_listening = (container \<noteq> None),
               bg_deferred = False, bg_posted = [], bg_calls = []\<rparr>
      in case container of
           Some True \<Rightarrow> post (connect_message url) b
         | Some False \<Rightarrow> b\<lparr>bg_deferred := True\<rparr>
         | None \<Rightarrow> b)"

text \<open>A worker takes control (or control is lost), which fires \<open>controllerchange\<close>.\<close>

definition on_controllerchange :: "bool \<Rightarrow> bridge \<Rightarrow> bridge" where
  "on_controllerchange controlled b =
     (let b' = b\<lparr>bg_container := map_option (\<lambda>_. controlled) (bg_container b)\<rparr>
      in if bg_deferred b then post (connect_message (bg_url b)) (b'\<lparr>bg_deferred := False\<rparr>) else b')"

definition bridge_decide :: "approval_decision \<Rightarrow> bridge \<Rightarrow> bridge" where
  "bridge_decide d b = post (decision_message d) b"

definition bridge_close :: "bridge \<Rightarrow> bridge" where
  "bridge_close b = b\<lparr>bg_listening := False, bg_deferred := False\<rparr>"

datatype bridge_event =
    Message js
  | ControllerChange bool
  | Decide approval_decision
  | Close

fun bridge_step :: "bridge \<Rightarrow> bridge_event \<Rightarrow> bridge" where
  "bridge_step b (Message data) = on_message data b"
| "bridge_step b (ControllerChange c) = on_controllerchange c b"
| "bridge_step b (Decide d) = bridge_decide d b"
| "bridge_step b Close = bridge_close b"

section \<open>Lemmas\<close>

definition is_connect :: "js \<Rightarrow> bool" where
  "is_connect m \<longleftrightarrow> member m ''type'' = Str ''broker-connect''"

lemma is_connect_messages [simp]:
  "is_connect (connect_message url)" "\<not> is_connect (decision_message d)"
  by (simp_all add: is_connect_def connect_message_def decision_message_def)

lemmas bridge_defs =
  post_def on_message_def on_controllerchange_def bridge_decide_def bridge_close_def

lemma bridge_step_fixed [simp]:
  "bg_url (bridge_step b e) = bg_url b"
  "bg_container (bridge_step b e) = None \<longleftrightarrow> bg_container b = None"
  by (cases e; simp add: bridge_defs Let_def split: option.splits)+

lemma connectBroker_fields [simp]:
  "bg_url (connectBroker url c) = url" "bg_container (connectBroker url c) = c"
  "bg_listening (connectBroker url c) \<longleftrightarrow> c \<noteq> None"
  by (cases c; auto simp: connectBroker_def post_def Let_def split: bool.splits)+

text \<open>What the first \<open>controllerchange\<close> before the handle is closed brings.\<close>

fun first_change :: "bridge_event list \<Rightarrow> bool" where
  "first_change [] = False"
| "first_change (ControllerChange c # es) = c"
| "first_change (Close # es) = False"
| "first_change (e # es) = first_change es"

lemma settled_step:
  assumes "\<not> bg_deferred b"
  shows "\<not> bg_deferred (bridge_step b e)"
    and "filter is_connect (bg_posted (bridge_step b e)) = filter is_connect (bg_posted b)"
  using assms by (cases e; simp add: bridge_defs Let_def split: option.splits)+

interpretation settled: event_machine bridge_step "\<lambda>b. \<not> bg_deferred b"
  by unfold_locales (rule settled_step(1))

lemma settled_connects:
  "\<not> bg_deferred b \<Longrightarrow>
     filter is_connect (bg_posted (foldl bridge_step b es)) = filter is_connect (bg_posted b)"
  using settled.run_frame [where f = "\<lambda>b. filter is_connect (bg_posted b)", OF settled_step(2)]
  by simp

lemma deferred_connects:
  assumes "bg_deferred b" and "bg_container b \<noteq> None"
  shows "filter is_connect (bg_posted (foldl bridge_step b es)) =
           filter is_connect (bg_posted b) @ (if first_change es then [connect_message (bg_url b)] else [])"
  using assms
proof (induction es arbitrary: b)
  case Nil
  then show ?case by simp
next
  case (Cons e es)
  show ?case
  proof (cases e)
    case (Message data)
    have "bg_deferred (on_message data b)" "bg_posted (on_message data b) = bg_posted b"
      "bg_url (on_message data b) = bg_url b" "bg_container (on_message data b) = bg_container b"
      using Cons.prems by (simp_all add: on_message_def split: option.splits)
    then show ?thesis using Cons.IH [of "on_message data b"] Cons.prems(2) Message by simp
  next
    case (ControllerChange c)
    let ?b = "on_controllerchange c b"
    have "\<not> bg_deferred ?b" using Cons.prems by (simp add: bridge_defs Let_def)
    moreover have "bg_posted ?b = bg_posted b @ (if c then [connect_message (bg_url b)] else [])"
      using Cons.prems by (auto simp: bridge_defs Let_def)
    ultimately show ?thesis using ControllerChange by (simp add: settled_connects)
  next
    case (Decide d)
    have "bg_deferred (bridge_decide d b)" "bg_url (bridge_decide d b) = bg_url b"
      "bg_container (bridge_decide d b) = bg_container b"
      "filter is_connect (bg_posted (bridge_decide d b)) = filter is_connect (bg_posted b)"
      using Cons.prems by (simp_all add: bridge_defs)
    then show ?thesis using Cons.IH [of "bridge_decide d b"] Cons.prems(2) Decide by simp
  next
    case Close
    have "\<not> bg_deferred (bridge_close b)" "bg_posted (bridge_close b) = bg_posted b"
      by (simp_all add: bridge_close_def)
    then show ?thesis using Close by (simp add: settled_connects)
  qed
qed

lemma closed_step: "\<not> bg_listening b \<Longrightarrow> \<not> bg_listening (bridge_step b e)"
  by (cases e) (simp_all add: bridge_defs Let_def)

lemma closed_calls: "\<not> bg_listening b \<Longrightarrow> bg_calls (bridge_step b e) = bg_calls b"
  by (cases e) (simp_all add: bridge_defs Let_def)

interpretation closed: event_machine bridge_step "\<lambda>b. \<not> bg_listening b"
  by unfold_locales (rule closed_step)

section \<open>Properties\<close>

text \<open>
  The worker is asked to connect exactly once: at once when it controls the page, else when
  it first takes control, if the handle is still open; never again for a later worker, and never
  at all without a service worker.
\<close>

lemma bridge_connects_once:
  "filter is_connect (bg_posted (foldl bridge_step (connectBroker url container) es)) =
     (if container = Some True \<or> container = Some False \<and> first_change es
      then [connect_message url] else [])"
proof (cases container)
  case None
  have "\<not> bg_deferred (connectBroker url None)" "bg_posted (connectBroker url None) = []"
    by (simp_all add: connectBroker_def)
  then show ?thesis using None by (simp add: settled_connects)
next
  case (Some c)
  show ?thesis
  proof (cases c)
    case True
    have "\<not> bg_deferred (connectBroker url (Some True))"
      "bg_posted (connectBroker url (Some True)) = [connect_message url]"
      by (simp_all add: connectBroker_def post_def)
    then show ?thesis using Some True by (simp add: settled_connects)
  next
    case False
    let ?b = "connectBroker url (Some False)"
    have "bg_deferred ?b" "bg_container ?b \<noteq> None" "bg_posted ?b = []" "bg_url ?b = url"
      by (simp_all add: connectBroker_def)
    then show ?thesis using Some False by (simp add: deferred_connects)
  qed
qed

text \<open>
  After \<open>close\<close> the page hears nothing more of that connection: no message, decision or
  change of worker calls a handler again, or asks the worker to connect.
\<close>

lemma bridge_silent_after_close:
  "bg_calls (foldl bridge_step (bridge_step b Close) es) = bg_calls b \<and>
   filter is_connect (bg_posted (foldl bridge_step (bridge_step b Close) es)) =
     filter is_connect (bg_posted b)"
proof -
  have "\<not> bg_listening (bridge_close b)" "\<not> bg_deferred (bridge_close b)"
    "bg_calls (bridge_close b) = bg_calls b" "bg_posted (bridge_close b) = bg_posted b"
    by (simp_all add: bridge_close_def)
  then show ?thesis
    using closed.run_frame [where f = bg_calls, OF closed_calls, of "bridge_close b" es]
    by (simp add: settled_connects)
qed

end
