(* ===== verification/Keyboard.thy ===== *)
theory Keyboard
  imports Prelude
begin

text \<open>
  \<^verbatim>\<open>apps/web/src/lib/keyboard.ts\<close> and \<^verbatim>\<open>apps/web/src/lib/focus-trap.ts\<close>: dispatch of a
  key press to the bound shortcuts, the desktop test, the documentation of the shortcuts and
  the focus trap of the modal dialog.
\<close>

section \<open>Shortcuts\<close>

text \<open>What a handler sees of a \<open>KeyboardEvent\<close>: the key, the modifiers, and whether the event's
  target sits in a link, button, form field or editable element.\<close>

record key_event =
  ke_key :: string
  ke_meta :: bool
  ke_ctrl :: bool
  ke_alt :: bool
  ke_in_interactive :: bool

text \<open>One mounted \<open>useKeyboardShortcuts\<close>: the action its current map holds for the key, if the
  hook lets the event through. The hook calls \<open>preventDefault\<close> exactly when it dispatches.\<close>

definition dispatch :: "(string \<Rightarrow> 'a option) \<Rightarrow> bool \<Rightarrow> key_event \<Rightarrow> 'a option" where
  "dispatch shortcuts enabled event =
     (if \<not> enabled then None
      else if ke_meta event \<or> ke_ctrl event \<or> ke_alt event then None
      else if ke_in_interactive event \<and> ke_key event \<noteq> ''Escape'' then None
      else shortcuts (ke_key event))"

text \<open>Every mounted hook has its own listener on the document, called in mounting order.\<close>

definition dispatch_all :: "((string \<Rightarrow> 'a option) \<times> bool) list \<Rightarrow> key_event \<Rightarrow> 'a list" where
  "dispatch_all hooks event =
     concat (map (\<lambda>(shortcuts, enabled). case dispatch shortcuts enabled event of
                     None \<Rightarrow> [] | Some a \<Rightarrow> [a]) hooks)"

lemma dispatch_SomeD:
  "dispatch m enabled e = Some a \<Longrightarrow>
     enabled \<and> \<not> ke_meta e \<and> \<not> ke_ctrl e \<and> \<not> ke_alt e \<and> m (ke_key e) = Some a \<and>
     (ke_in_interactive e \<longrightarrow> ke_key e = ''Escape'')"
  by (auto simp: dispatch_def split: if_splits)

lemma dispatch_all_Nil: "\<forall>(m, enabled) \<in> set hooks. \<not> enabled \<Longrightarrow> dispatch_all hooks e = []"
  by (induction hooks) (auto simp: dispatch_all_def dispatch_def)

section \<open>The desktop test\<close>

text \<open>\<open>matchMedia\<close> of the desktop query: \<open>None\<close> where the function is missing.\<close>

definition matchesDesktop :: "bool option \<Rightarrow> bool" where
  "matchesDesktop media = (case media of None \<Rightarrow> False | Some matches \<Rightarrow> matches)"

definition DESKTOP_QUERY :: string where
  "DESKTOP_QUERY = ''(min-width: 768px) and (pointer: fine)''"

text \<open>\<open>useIsDesktop\<close>: the state of the hook, the query as it stands (\<open>None\<close> where \<open>matchMedia\<close> is
  missing) and whether the hook listens to it.\<close>

record desktop_hook =
  dk_isDesktop :: bool
  dk_media :: "bool option"
  dk_listening :: bool

definition desktop_mount :: "bool option \<Rightarrow> desktop_hook" where
  "desktop_mount media =
     (let s = \<lparr>dk_isDesktop = matchesDesktop media, dk_media = media, dk_listening = False\<rparr>
      in case media of
           None \<Rightarrow> s
         | Some matches \<Rightarrow> s\<lparr>dk_isDesktop := matches, dk_listening := True\<rparr>)"

definition desktop_change :: "bool \<Rightarrow> desktop_hook \<Rightarrow> desktop_hook" where
  "desktop_change matches s =
     (if dk_media s = None then s
      else
        (let s' = s\<lparr>dk_media := Some matches\<rparr>
         in if dk_listening s then s'\<lparr>dk_isDesktop := matches\<rparr> else s'))"

definition desktop_unmount :: "desktop_hook \<Rightarrow> desktop_hook" where
  "desktop_unmount s = s\<lparr>dk_listening := False\<rparr>"

text \<open>While it is mounted the hook says what the query says.\<close>

lemma desktop_follows: "dk_isDesktop (foldl (\<lambda>s m. desktop_change m s) (desktop_mount media) ms) =
    matchesDesktop (dk_media (foldl (\<lambda>s m. desktop_change m s) (desktop_mount media) ms))"
proof -
  let ?inv = "\<lambda>s. dk_isDesktop s = matchesDesktop (dk_media s) \<and> dk_listening s = (dk_media s \<noteq> None)"
  have "?inv (foldl (\<lambda>s m. desktop_change m s) s ms)" if "?inv s" for s
    using that by (induction ms arbitrary: s) (auto simp: desktop_change_def matchesDesktop_def Let_def)
  moreover have "?inv (desktop_mount media)"
    by (cases media) (simp_all add: desktop_mount_def matchesDesktop_def)
  ultimately show ?thesis by blast
qed

section \<open>The focus trap\<close>

text \<open>The container's focusable elements in document order, and the element that has focus.\<close>

definition trap_open :: "'e list \<Rightarrow> 'e option \<Rightarrow> 'e option" where
  "trap_open items active = (case items of [] \<Rightarrow> active | first # _ \<Rightarrow> Some first)"

text \<open>\<open>onKeyDown\<close>: the element it moves the focus to, with \<open>preventDefault\<close>; \<open>None\<close> where it
  leaves the key to the browser.\<close>

definition trap_key :: "'e list \<Rightarrow> 'e option \<Rightarrow> string \<Rightarrow> bool \<Rightarrow> 'e option" where
  "trap_key items active key shift =
     (if key \<noteq> ''Tab'' then None
      else
        (case items of
           [] \<Rightarrow> None
         | first # _ \<Rightarrow>
             if shift \<and> active = Some first then Some (last items)
             else if \<not> shift \<and> active = Some (last items) then Some first
             else None))"

text \<open>Pressing Tab: the trap's move if it has one, else the browser's own (\<open>browser\<close>, the next
  element in the given direction).\<close>

definition press_tab ::
    "('e option \<Rightarrow> bool \<Rightarrow> 'e option) \<Rightarrow> 'e list \<Rightarrow> 'e option \<Rightarrow> bool \<Rightarrow> 'e option" where
  "press_tab browser items active shift =
     (case trap_key items active ''Tab'' shift of
        Some target \<Rightarrow> Some target
      | None \<Rightarrow> browser active shift)"

text \<open>Closing returns the focus to what had it before.\<close>

definition trap_close :: "'e option \<Rightarrow> 'e option \<Rightarrow> 'e option" where
  "trap_close previously active = (case previously of None \<Rightarrow> active | Some e \<Rightarrow> Some e)"

section \<open>Properties\<close>

text \<open>
  A shortcut never fires while it is disabled, while a modifier is held, or while the
  focus is in a control, except Escape, which is always let through.
\<close>

lemma shortcut_guarded:
  assumes "a \<in> set (dispatch_all hooks e)"
  shows "\<not> ke_meta e \<and> \<not> ke_ctrl e \<and> \<not> ke_alt e \<and>
         (ke_in_interactive e \<longrightarrow> ke_key e = ''Escape'') \<and>
         (\<exists>m. (m, True) \<in> set hooks \<and> m (ke_key e) = Some a)"
proof -
  obtain m enabled where h: "(m, enabled) \<in> set hooks" and d: "dispatch m enabled e = Some a"
    using assms by (auto simp: dispatch_all_def split: option.splits)
  show ?thesis using h dispatch_SomeD [OF d] by auto
qed

text \<open>
  Focus stays in the dialog: whenever an element of the container has focus, Tab and
  Shift+Tab move it to an element of the container, wrapping at either end, if the browser's
  own Tab moves from an inner element to its neighbour in document order.
\<close>

lemma focus_stays_trapped:
  assumes "distinct items" and "i < length items"
    and forward: "\<And>j. Suc j < length items \<Longrightarrow> browser (Some (items ! j)) False = Some (items ! Suc j)"
    and backward: "\<And>j. 0 < j \<Longrightarrow> j < length items \<Longrightarrow> browser (Some (items ! j)) True = Some (items ! (j - 1))"
  shows "press_tab browser items (Some (items ! i)) shift =
           Some (items ! (if shift then (i + length items - 1) mod length items else Suc i mod length items))"
proof -
  obtain first rest where items: "items = first # rest" using assms(2) by (cases items) auto
  have last: "last items = items ! (length items - 1)" using items by (simp add: last_conv_nth)
  have first_iff: "items ! i = first \<longleftrightarrow> i = 0"
    using assms(1,2) nth_eq_iff_index_eq [of items i 0] items by auto
  have last_iff: "items ! i = last items \<longleftrightarrow> i = length items - 1"
    using assms(1,2) nth_eq_iff_index_eq [of items i "length items - 1"] last by auto
  show ?thesis
  proof (cases shift)
    case True
    show ?thesis
    proof (cases "i = 0")
      case True
      then show ?thesis using \<open>shift\<close> first_iff last items
        by (simp add: press_tab_def trap_key_def)
    next
      case False
      then have "(i + length items - 1) mod length items = i - 1"
        using assms(2) by (simp add: mod_if)
      then show ?thesis using \<open>shift\<close> False first_iff backward [of i] assms(2) items
        by (simp add: press_tab_def trap_key_def)
    qed
  next
    case False
    show ?thesis
    proof (cases "i = length items - 1")
      case True
      then have "Suc i = length items" using assms(2) by simp
      then have "Suc i mod length items = 0" by simp
      then show ?thesis using \<open>\<not> shift\<close> True last_iff items
        by (simp add: press_tab_def trap_key_def)
    next
      case False
      then have "Suc i < length items" using assms(2) by simp
      then show ?thesis using \<open>\<not> shift\<close> False last_iff forward [of i] items
        by (simp add: press_tab_def trap_key_def)
    qed
  qed
qed

lemma focus_stays_trapped_witness:
  "press_tab (\<lambda>a back. map_option (\<lambda>n. if back then n - 1 else n + 1) a) [10, 11, 12 :: nat] (Some 12) False = Some 10 \<and>
   press_tab (\<lambda>a back. map_option (\<lambda>n. if back then n - 1 else n + 1) a) [10, 11, 12 :: nat] (Some 11) True = Some 10"
proof -
  let ?b = "\<lambda>a back. map_option (\<lambda>n :: nat. if back then n - 1 else n + 1) a"
  let ?items = "[10, 11, 12 :: nat]"
  have f: "?b (Some (?items ! j)) False = Some (?items ! Suc j)" if "Suc j < length ?items" for j
    using that by (auto simp: nth_Cons' less_Suc_eq)
  have g: "?b (Some (?items ! j)) True = Some (?items ! (j - 1))" if "0 < j" "j < length ?items" for j
    using that by (auto simp: nth_Cons' less_Suc_eq)
  have d: "distinct ?items" by simp
  show ?thesis
    using focus_stays_trapped [OF d _ f g, of 2 False] focus_stays_trapped [OF d _ f g, of 1 True]
    by simp
qed

end
