(* ===== verification/AppModel.thy ===== *)
theory AppModel
  imports Inbox BrokerConfig BrokerBridge Keyboard
begin

text \<open>
  \<^verbatim>\<open>apps/web/src/App.tsx\<close> and the form of \<^verbatim>\<open>apps/web/src/components/broker-setup.tsx\<close>: the
  orchestrating component as a state machine. An event runs the handler the code binds to it
  (\<open>handle\<close>), which only updates state; the commit then runs the effects whose dependencies
  changed: reconnecting on a change of boot state or broker, clamping the cursor on a change of
  the number of requests, and the local state of the detail view is dropped when another kind
  of detail view is mounted.

  What the browser provides is the record \<open>browser\<close>. Messages posted to the service worker are
  those of the current bridge (see \<open>BrokerBridge\<close>) after those of the earlier ones,
  \<open>ap_sent\<close>. An exception thrown while rendering leaves the error screen (\<open>ap_crashed\<close>); one
  thrown in a message listener leaves the state as it was.
\<close>

section \<open>State\<close>

datatype boot_state = NoSw | NeedsBroker | Ready

datatype broker_status = Connecting | Online | Offline

datatype tool_view = Formatted | Json

record browser =
  br_uuid :: "nat \<Rightarrow> string"
  br_url_param :: "string \<Rightarrow> string \<Rightarrow> string option"
  br_url_protocol :: "string \<Rightarrow> string option"
  br_env :: "string option"
  br_search :: string

record app =
  ap_requests :: "approval_request list"
  ap_selectedId :: "string option"
  ap_focusedIndex :: int
  ap_showShortcuts :: bool
  ap_brokerBase :: "string option"
  ap_bootState :: boot_state
  ap_brokerStatus :: broker_status
  ap_reconfiguring :: bool
  ap_isDesktop :: bool
  ap_bridge :: "bridge option"
  ap_toolView :: tool_view
  ap_openLine :: "nat option"
  ap_container :: "bool option"
  ap_storage :: storage
  ap_drawn :: nat
  ap_sent :: "js list"
  ap_crashed :: bool

definition posted :: "app \<Rightarrow> js list" where
  "posted s = ap_sent s @ (case ap_bridge s of None \<Rightarrow> [] | Some b \<Rightarrow> bg_posted b)"

section \<open>What is derived from the state\<close>

definition selected :: "app \<Rightarrow> approval_request option" where
  "selected s = find (\<lambda>request. Some (rq_id request) = ap_selectedId s) (ap_requests s)"

definition settingUpBroker :: "app \<Rightarrow> bool" where
  "settingUpBroker s \<longleftrightarrow> ap_bootState s = NeedsBroker \<or> ap_reconfiguring s"

definition inboxActive :: "app \<Rightarrow> bool" where
  "inboxActive s \<longleftrightarrow>
     ap_isDesktop s \<and> selected s = None \<and> \<not> ap_showShortcuts s \<and> \<not> settingUpBroker s \<and>
     length (ap_requests s) > 0"

definition canChangeBroker :: "app \<Rightarrow> bool" where
  "canChangeBroker s \<longleftrightarrow> ap_bootState s = Ready \<and> \<not> settingUpBroker s"

text \<open>\<open>requests[index]\<close>.\<close>

definition request_at :: "app \<Rightarrow> int \<Rightarrow> approval_request option" where
  "request_at s i =
     (if 0 \<le> i \<and> i < int (length (ap_requests s)) then Some (ap_requests s ! nat i) else None)"

datatype main_view =
    NoServiceWorkerView
  | SetupView
  | DetailView approval_request
  | EmptyView
  | InboxListView

definition MainView :: "app \<Rightarrow> main_view" where
  "MainView s =
     (if ap_bootState s = NoSw then NoServiceWorkerView
      else if settingUpBroker s then SetupView
      else
        (case selected s of
           Some r \<Rightarrow> DetailView r
         | None \<Rightarrow> if length (ap_requests s) = 0 then EmptyView else InboxListView))"

text \<open>The kind of detail view that is mounted: whether it is the one of a tool call.\<close>

definition detail_kind :: "app \<Rightarrow> bool option" where
  "detail_kind s = (case MainView s of DetailView r \<Rightarrow> Some (isToolRequest r) | _ \<Rightarrow> None)"

section \<open>Effects\<close>

definition disconnect :: "app \<Rightarrow> app" where
  "disconnect s =
     (case ap_bridge s of
        None \<Rightarrow> s
      | Some b \<Rightarrow> s\<lparr>ap_bridge := None, ap_sent := ap_sent s @ bg_posted (bridge_close b)\<rparr>)"

definition connect_effect :: "app \<Rightarrow> app" where
  "connect_effect s =
     (case ap_brokerBase s of
        Some (c # cs) \<Rightarrow>
          if ap_bootState s \<noteq> Ready then s
          else s\<lparr>ap_brokerStatus := Connecting,
                 ap_bridge := Some (connectBroker (brokerWsUrl (c # cs)) (ap_container s))\<rparr>
      | _ \<Rightarrow> s)"

definition clamp_effect :: "app \<Rightarrow> app" where
  "clamp_effect s =
     s\<lparr>ap_focusedIndex := min (ap_focusedIndex s) (max 0 (int (length (ap_requests s)) - 1))\<rparr>"

definition reset_detail :: "app \<Rightarrow> app" where
  "reset_detail s = s\<lparr>ap_toolView := Formatted, ap_openLine := None\<rparr>"

definition commit :: "app \<Rightarrow> app \<Rightarrow> app" where
  "commit old s0 =
     (let s1 = (if (ap_bootState s0, ap_brokerBase s0) \<noteq> (ap_bootState old, ap_brokerBase old)
                then connect_effect (disconnect s0) else s0);
          s2 = (if length (ap_requests s0) \<noteq> length (ap_requests old) then clamp_effect s1 else s1)
      in if detail_kind s0 \<noteq> detail_kind old then reset_detail s2 else s2)"

text \<open>The first render, from the build-time default alone, with the effects it triggers; then the
  mount effect's own updates, which the browser's signals decide.\<close>

definition initial_app :: "browser \<Rightarrow> bool option \<Rightarrow> bool \<Rightarrow> storage \<Rightarrow> app" where
  "initial_app br container desktop st =
     \<lparr>ap_requests = [], ap_selectedId = None, ap_focusedIndex = 0, ap_showShortcuts = False,
      ap_brokerBase = buildTimeBrokerBase (br_env br),
      ap_bootState = (if buildTimeBrokerBase (br_env br) \<noteq> None then Ready else NeedsBroker),
      ap_brokerStatus = Connecting, ap_reconfiguring = False, ap_isDesktop = desktop,
      ap_bridge = None, ap_toolView = Formatted, ap_openLine = None, ap_container = container,
      ap_storage = st, ap_drawn = 0, ap_sent = [], ap_crashed = False\<rparr>"

definition boot_effect :: "browser \<Rightarrow> app \<Rightarrow> app" where
  "boot_effect br s =
     (if ap_container s = None then s\<lparr>ap_bootState := NoSw\<rparr>
      else
        (let (base, st) = resolveBrokerBase (br_url_param br) (br_env br) (br_search br) (ap_storage s)
         in s\<lparr>ap_storage := st, ap_brokerBase := base,
              ap_bootState := (if base \<notin> {None, Some []} then Ready else NeedsBroker)\<rparr>))"

definition mount_app :: "browser \<Rightarrow> bool option \<Rightarrow> bool \<Rightarrow> storage \<Rightarrow> app" where
  "mount_app br container desktop st =
     (let s0 = initial_app br container desktop st;
          s1 = clamp_effect (connect_effect s0)
      in commit s1 (boot_effect br s1))"

section \<open>Handlers\<close>

definition saveBrokerBase :: "string \<Rightarrow> app \<Rightarrow> app" where
  "saveBrokerBase base s =
     s\<lparr>ap_storage := setStoredBrokerBase (Some base) (ap_storage s), ap_requests := [],
       ap_brokerBase := Some base, ap_bootState := Ready, ap_reconfiguring := False\<rparr>"

definition decision_of :: "string \<Rightarrow> choice \<Rightarrow> approval_decision" where
  "decision_of ident verdict =
     \<lparr>dc_requestId = ident, dc_verdict = verdict,
      dc_reason = choice_string verdict @ ''ed in allowlister-remote''\<rparr>"

definition decide :: "string \<Rightarrow> choice \<Rightarrow> app \<Rightarrow> app" where
  "decide ident verdict s =
     s\<lparr>ap_bridge := map_option (bridge_decide (decision_of ident verdict)) (ap_bridge s),
       ap_requests := applyResolved (ap_requests s) (Str ident),
       ap_selectedId := (if ap_selectedId s = Some ident then None else ap_selectedId s)\<rparr>"

datatype shortcut =
    TogglePanel
  | ClosePanel
  | FocusNext
  | FocusPrev
  | OpenFocused
  | DecideFocused choice
  | DecideShown choice
  | BackToInbox
  | ShowView tool_view

fun run_shortcut :: "shortcut \<Rightarrow> app \<Rightarrow> app" where
  "run_shortcut TogglePanel s = s\<lparr>ap_showShortcuts := \<not> ap_showShortcuts s\<rparr>"
| "run_shortcut ClosePanel s = s\<lparr>ap_showShortcuts := False\<rparr>"
| "run_shortcut FocusNext s =
     s\<lparr>ap_focusedIndex := min (ap_focusedIndex s + 1) (int (length (ap_requests s)) - 1)\<rparr>"
| "run_shortcut FocusPrev s = s\<lparr>ap_focusedIndex := max (ap_focusedIndex s - 1) 0\<rparr>"
| "run_shortcut OpenFocused s =
     (case request_at s (ap_focusedIndex s) of
        None \<Rightarrow> s
      | Some r \<Rightarrow> s\<lparr>ap_selectedId := Some (rq_id r)\<rparr>)"
| "run_shortcut (DecideFocused v) s =
     (case request_at s (ap_focusedIndex s) of None \<Rightarrow> s | Some r \<Rightarrow> decide (rq_id r) v s)"
| "run_shortcut (DecideShown v) s =
     (case MainView s of DetailView r \<Rightarrow> decide (rq_id r) v s | _ \<Rightarrow> s)"
| "run_shortcut BackToInbox s = s\<lparr>ap_selectedId := None\<rparr>"
| "run_shortcut (ShowView v) s = s\<lparr>ap_toolView := v\<rparr>"

text \<open>The shortcut maps of the mounted components: the three of the app, the one of the detail
  view and the one of the tool call's detail view.\<close>

definition inbox_keys :: "string \<Rightarrow> shortcut option" where
  "inbox_keys =
     [''ArrowDown'' \<mapsto> FocusNext, ''ArrowUp'' \<mapsto> FocusPrev, ''o'' \<mapsto> OpenFocused, ''Enter'' \<mapsto> OpenFocused,
      ''a'' \<mapsto> DecideFocused ChooseAllow, ''d'' \<mapsto> DecideFocused ChooseDeny]"

definition detail_keys :: "string \<Rightarrow> shortcut option" where
  "detail_keys =
     [''a'' \<mapsto> DecideShown ChooseAllow, ''d'' \<mapsto> DecideShown ChooseDeny, ''b'' \<mapsto> BackToInbox,
      ''Escape'' \<mapsto> BackToInbox]"

definition tool_keys :: "string \<Rightarrow> shortcut option" where
  "tool_keys = [''f'' \<mapsto> ShowView Formatted, ''j'' \<mapsto> ShowView Json]"

definition keyboardEnabled :: "app \<Rightarrow> bool" where
  "keyboardEnabled s \<longleftrightarrow> ap_isDesktop s \<and> \<not> ap_showShortcuts s"

definition hooks :: "app \<Rightarrow> ((string \<Rightarrow> shortcut option) \<times> bool) list" where
  "hooks s =
     (case MainView s of
        DetailView r \<Rightarrow>
          (if isToolRequest r then [(tool_keys, keyboardEnabled s)] else [])
          @ [(detail_keys, keyboardEnabled s)]
      | _ \<Rightarrow> [])
     @ [([''?'' \<mapsto> TogglePanel], ap_isDesktop s \<and> \<not> settingUpBroker s),
        ([''Escape'' \<mapsto> ClosePanel], ap_isDesktop s \<and> ap_showShortcuts s),
        (inbox_keys, inboxActive s)]"

text \<open>The handlers given to the bridge.\<close>

fun on_call :: "browser \<Rightarrow> bridge_call \<Rightarrow> app \<Rightarrow> app" where
  "on_call br (OnStatus status) s =
     s\<lparr>ap_brokerStatus := (if status = Str ''open'' then Online else Offline)\<rparr>"
| "on_call br (OnSnapshot snapshot) s =
     (case applySnapshot (br_uuid br) (ap_drawn s) snapshot of
        None \<Rightarrow> s
      | Some (rs, n) \<Rightarrow> s\<lparr>ap_requests := rs, ap_drawn := n\<rparr>)"
| "on_call br (OnAdded request) s =
     (case applyAdded (br_uuid br) (ap_drawn s) (ap_requests s) request of
        None \<Rightarrow> (disconnect s)\<lparr>ap_crashed := True\<rparr>
      | Some (rs, n) \<Rightarrow> s\<lparr>ap_requests := rs, ap_drawn := n\<rparr>)"
| "on_call br (OnResolved ident) s = s\<lparr>ap_requests := applyResolved (ap_requests s) ident\<rparr>"

text \<open>The form of the setup screen.\<close>

definition setup_submit :: "(string \<Rightarrow> string option) \<Rightarrow> string \<Rightarrow> string option" where
  "setup_submit url_protocol v =
     (let trimmed = js_trim v; valid = isValidBrokerBase url_protocol trimmed
      in if valid then Some trimmed else None)"

definition setup_shows_error :: "(string \<Rightarrow> string option) \<Rightarrow> string \<Rightarrow> bool" where
  "setup_shows_error url_protocol v =
     (let trimmed = js_trim v in length trimmed > 0 \<and> \<not> isValidBrokerBase url_protocol trimmed)"

definition setup_initial_value :: "app \<Rightarrow> string" where
  "setup_initial_value s =
     (if ap_reconfiguring s then (case ap_brokerBase s of None \<Rightarrow> [] | Some b \<Rightarrow> b) else [])"

section \<open>Events\<close>

datatype app_event =
    KeyDown key_event
  | OpenCard nat
  | HoverCard nat
  | DecideCard nat choice
  | DecideButton choice
  | BackButton
  | ViewButton tool_view
  | ToggleLine nat
  | ChangeBroker
  | CancelReconfigure
  | SubmitBroker string
  | OpenPanel
  | ClosePanelButton
  | DesktopChange bool
  | WorkerMessage js
  | NewController bool

fun handle :: "browser \<Rightarrow> app \<Rightarrow> app_event \<Rightarrow> app" where
  "handle br s (KeyDown e) = foldl (\<lambda>s a. run_shortcut a s) s (dispatch_all (hooks s) e)"
| "handle br s (OpenCard i) =
     (if MainView s = InboxListView \<and> i < length (ap_requests s)
      then s\<lparr>ap_selectedId := Some (rq_id (ap_requests s ! i))\<rparr> else s)"
| "handle br s (HoverCard i) =
     (if MainView s = InboxListView \<and> i < length (ap_requests s)
      then s\<lparr>ap_focusedIndex := int i\<rparr> else s)"
| "handle br s (DecideCard i v) =
     (if MainView s = InboxListView \<and> i < length (ap_requests s)
      then decide (rq_id (ap_requests s ! i)) v s else s)"
| "handle br s (DecideButton v) =
     (case MainView s of DetailView r \<Rightarrow> decide (rq_id r) v s | _ \<Rightarrow> s)"
| "handle br s BackButton =
     (case MainView s of DetailView r \<Rightarrow> s\<lparr>ap_selectedId := None\<rparr> | _ \<Rightarrow> s)"
| "handle br s (ViewButton v) = (if detail_kind s = Some True then s\<lparr>ap_toolView := v\<rparr> else s)"
| "handle br s (ToggleLine i) =
     (if detail_kind s = Some False
      then s\<lparr>ap_openLine := (if ap_openLine s = Some i then None else Some i)\<rparr> else s)"
| "handle br s ChangeBroker = (if canChangeBroker s then s\<lparr>ap_reconfiguring := True\<rparr> else s)"
| "handle br s CancelReconfigure = (if ap_reconfiguring s then s\<lparr>ap_reconfiguring := False\<rparr> else s)"
| "handle br s (SubmitBroker v) =
     (if MainView s = SetupView
      then (case setup_submit (br_url_protocol br) v of None \<Rightarrow> s | Some base \<Rightarrow> saveBrokerBase base s)
      else s)"
| "handle br s OpenPanel =
     (if ap_isDesktop s \<and> \<not> ap_showShortcuts s \<and> \<not> settingUpBroker s
      then s\<lparr>ap_showShortcuts := True\<rparr> else s)"
| "handle br s ClosePanelButton =
     (if ap_isDesktop s \<and> ap_showShortcuts s then s\<lparr>ap_showShortcuts := False\<rparr> else s)"
| "handle br s (DesktopChange d) = s\<lparr>ap_isDesktop := d\<rparr>"
| "handle br s (WorkerMessage data) =
     (case ap_bridge s of
        None \<Rightarrow> s
      | Some b \<Rightarrow>
          (let s' = s\<lparr>ap_bridge := Some (on_message data b)\<rparr>
           in if bg_listening b
              then (case decode_message data of None \<Rightarrow> s' | Some c \<Rightarrow> on_call br c s')
              else s'))"
| "handle br s (NewController c) =
     s\<lparr>ap_container := map_option (\<lambda>_. c) (ap_container s),
       ap_bridge := map_option (on_controllerchange c) (ap_bridge s)\<rparr>"

definition app_step :: "browser \<Rightarrow> app \<Rightarrow> app_event \<Rightarrow> app" where
  "app_step br s e = (if ap_crashed s then s else commit s (handle br s e))"

section \<open>At most one shortcut answers a key\<close>

definition blocked :: "key_event \<Rightarrow> bool" where
  "blocked e \<longleftrightarrow> ke_meta e \<or> ke_ctrl e \<or> ke_alt e \<or> (ke_in_interactive e \<and> ke_key e \<noteq> ''Escape'')"

definition key_action :: "app \<Rightarrow> string \<Rightarrow> shortcut option" where
  "key_action s k =
     (if \<not> ap_isDesktop s then None
      else if k = ''?'' then (if settingUpBroker s then None else Some TogglePanel)
      else if ap_showShortcuts s then (if k = ''Escape'' then Some ClosePanel else None)
      else
        (case MainView s of
           DetailView r \<Rightarrow>
             (if detail_keys k \<noteq> None then detail_keys k else if isToolRequest r then tool_keys k else None)
         | InboxListView \<Rightarrow> inbox_keys k
         | _ \<Rightarrow> None))"

lemma dispatch_all_unblocked:
  "dispatch_all hs e =
     (if blocked e then []
      else concat (map (\<lambda>(m, en). if en then (case m (ke_key e) of None \<Rightarrow> [] | Some a \<Rightarrow> [a]) else []) hs))"
  by (induction hs) (auto simp: dispatch_all_def dispatch_def blocked_def split: option.splits)

lemma keys_disjoint:
  "inbox_keys ''?'' = None" "inbox_keys ''Escape'' = None" "detail_keys ''?'' = None" "tool_keys ''?'' = None"
  "tool_keys ''Escape'' = None" "detail_keys ''Escape'' = Some BackToInbox"
  "detail_keys k \<noteq> None \<Longrightarrow> tool_keys k = None"
  by (auto simp: inbox_keys_def detail_keys_def tool_keys_def split: if_splits)

lemma MainView_detail: "MainView s = DetailView r \<Longrightarrow> selected s = Some r \<and> \<not> settingUpBroker s \<and> \<not> inboxActive s"
  by (auto simp: MainView_def inboxActive_def split: if_splits option.splits)

lemma MainView_inbox:
  "MainView s = InboxListView \<Longrightarrow> selected s = None \<and> \<not> settingUpBroker s \<and> ap_requests s \<noteq> []"
  by (auto simp: MainView_def split: if_splits option.splits)

lemma MainView_other:
  "MainView s \<noteq> InboxListView \<Longrightarrow> (\<And>r. MainView s \<noteq> DetailView r) \<Longrightarrow>
     ap_bootState s = NoSw \<or> settingUpBroker s \<or> ap_requests s = []"
  by (auto simp: MainView_def split: if_splits option.splits)

text \<open>With no service worker the inbox is empty, so there the inbox shortcuts are off too.\<close>

lemma hooks_key_action:
  assumes "ap_bootState s = NoSw \<longrightarrow> ap_requests s = []"
  shows "dispatch_all (hooks s) e =
           (if blocked e then [] else case key_action s (ke_key e) of None \<Rightarrow> [] | Some a \<Rightarrow> [a])"
proof (cases "\<exists>r. MainView s = DetailView r")
  case True
  then obtain r where r: "MainView s = DetailView r" by blast
  note d = MainView_detail [OF r]
  show ?thesis
    using d keys_disjoint(7) [of "ke_key e"]
    by (auto simp: dispatch_all_unblocked hooks_def key_action_def r keyboardEnabled_def keys_disjoint(1-6)
        split: option.splits)
next
  case False
  have h: "hooks s = [([''?'' \<mapsto> TogglePanel], ap_isDesktop s \<and> \<not> settingUpBroker s),
        ([''Escape'' \<mapsto> ClosePanel], ap_isDesktop s \<and> ap_showShortcuts s), (inbox_keys, inboxActive s)]"
    using False by (auto simp: hooks_def split: main_view.splits)
  have i: "inboxActive s \<longleftrightarrow> ap_isDesktop s \<and> \<not> ap_showShortcuts s \<and> MainView s = InboxListView"
    using False assms by (auto simp: inboxActive_def MainView_def split: option.splits)
  show ?thesis
    using False by (auto simp: dispatch_all_unblocked h key_action_def i keys_disjoint(1-6)
        split: option.splits main_view.splits)
qed

section \<open>The invariant\<close>

definition focus_ok :: "app \<Rightarrow> bool" where
  "focus_ok s \<longleftrightarrow>
     0 \<le> ap_focusedIndex s \<and> ap_focusedIndex s \<le> max 0 (int (length (ap_requests s)) - 1)"

definition boot_ok :: "app \<Rightarrow> bool" where
  "boot_ok s \<longleftrightarrow>
     (ap_bootState s = Ready \<longrightarrow> ap_brokerBase s \<notin> {None, Some []}) \<and>
     (ap_bootState s = NoSw \<longleftrightarrow> ap_container s = None) \<and>
     (ap_bootState s = NoSw \<longrightarrow> ap_requests s = [])"

definition link_ok :: "app \<Rightarrow> bool" where
  "link_ok s \<longleftrightarrow>
     (ap_bridge s = None \<longleftrightarrow> ap_bootState s \<noteq> Ready) \<and>
     (\<forall>b. ap_bridge s = Some b \<longrightarrow>
        bg_url b = brokerWsUrl (the (ap_brokerBase s)) \<and> bg_container b = ap_container s \<and>
        bg_listening b)"

definition app_inv :: "app \<Rightarrow> bool" where
  "app_inv s \<longleftrightarrow> ap_crashed s \<or> focus_ok s \<and> boot_ok s \<and> link_ok s"

text \<open>What a handler must leave for the commit to restore the invariant.\<close>

definition handled :: "app \<Rightarrow> app \<Rightarrow> bool" where
  "handled old s \<longleftrightarrow>
     0 \<le> ap_focusedIndex s \<and>
     (length (ap_requests s) = length (ap_requests old) \<longrightarrow> focus_ok s) \<and>
     boot_ok s \<and>
     ((ap_bootState s, ap_brokerBase s) = (ap_bootState old, ap_brokerBase old) \<longrightarrow> link_ok s)"

lemma connect_effect_fields [simp]:
  "ap_requests (connect_effect s) = ap_requests s" "ap_focusedIndex (connect_effect s) = ap_focusedIndex s"
  "ap_brokerBase (connect_effect s) = ap_brokerBase s" "ap_bootState (connect_effect s) = ap_bootState s"
  "ap_container (connect_effect s) = ap_container s" "ap_sent (connect_effect s) = ap_sent s"
  "ap_crashed (connect_effect s) = ap_crashed s"
  by (simp_all add: connect_effect_def split: option.splits list.splits)

lemma disconnect_fields [simp]:
  "ap_requests (disconnect s) = ap_requests s" "ap_focusedIndex (disconnect s) = ap_focusedIndex s"
  "ap_brokerBase (disconnect s) = ap_brokerBase s" "ap_bootState (disconnect s) = ap_bootState s"
  "ap_container (disconnect s) = ap_container s" "ap_bridge (disconnect s) = None"
  "ap_crashed (disconnect s) = ap_crashed s"
  by (simp_all add: disconnect_def split: option.splits)

lemma clamp_fields [simp]:
  "ap_requests (clamp_effect s) = ap_requests s" "ap_brokerBase (clamp_effect s) = ap_brokerBase s"
  "ap_bootState (clamp_effect s) = ap_bootState s" "ap_container (clamp_effect s) = ap_container s"
  "ap_bridge (clamp_effect s) = ap_bridge s" "ap_sent (clamp_effect s) = ap_sent s"
  "ap_crashed (clamp_effect s) = ap_crashed s"
  by (simp_all add: clamp_effect_def)

lemma reset_fields [simp]:
  "ap_requests (reset_detail s) = ap_requests s" "ap_focusedIndex (reset_detail s) = ap_focusedIndex s"
  "ap_brokerBase (reset_detail s) = ap_brokerBase s" "ap_bootState (reset_detail s) = ap_bootState s"
  "ap_container (reset_detail s) = ap_container s" "ap_bridge (reset_detail s) = ap_bridge s"
  "ap_sent (reset_detail s) = ap_sent s" "ap_crashed (reset_detail s) = ap_crashed s"
  by (simp_all add: reset_detail_def)

lemma connect_effect_bridge:
  assumes "boot_ok s" and "ap_bridge s = None"
  shows "link_ok (connect_effect s)"
  using assms
  by (auto simp: connect_effect_def link_ok_def boot_ok_def split: option.splits list.splits)

lemma boot_ok_cong:
  "ap_bootState s' = ap_bootState s \<Longrightarrow> ap_brokerBase s' = ap_brokerBase s \<Longrightarrow>
   ap_container s' = ap_container s \<Longrightarrow> ap_requests s' = ap_requests s \<Longrightarrow> boot_ok s' = boot_ok s"
  by (simp add: boot_ok_def)

lemma link_ok_cong:
  "ap_bootState s' = ap_bootState s \<Longrightarrow> ap_brokerBase s' = ap_brokerBase s \<Longrightarrow>
   ap_container s' = ap_container s \<Longrightarrow> ap_bridge s' = ap_bridge s \<Longrightarrow> link_ok s' = link_ok s"
  by (simp add: link_ok_def)

lemma clamp_focus: "0 \<le> ap_focusedIndex s \<Longrightarrow> focus_ok (clamp_effect s)"
  by (simp add: focus_ok_def clamp_effect_def)

lemma commit_inv:
  assumes h: "handled old s"
  shows "focus_ok (commit old s) \<and> boot_ok (commit old s) \<and> link_ok (commit old s)"
proof -
  define s1 where "s1 = (if (ap_bootState s, ap_brokerBase s) \<noteq> (ap_bootState old, ap_brokerBase old)
                then connect_effect (disconnect s) else s)"
  define s2 where "s2 = (if length (ap_requests s) \<noteq> length (ap_requests old) then clamp_effect s1 else s1)"
  have c: "commit old s = (if detail_kind s \<noteq> detail_kind old then reset_detail s2 else s2)"
    by (simp add: commit_def s1_def s2_def Let_def)
  have f1: "ap_requests s1 = ap_requests s" "ap_focusedIndex s1 = ap_focusedIndex s"
    "ap_brokerBase s1 = ap_brokerBase s" "ap_bootState s1 = ap_bootState s" "ap_container s1 = ap_container s"
    by (simp_all add: s1_def)
  have l1: "link_ok s1"
  proof (cases "(ap_bootState s, ap_brokerBase s) = (ap_bootState old, ap_brokerBase old)")
    case True
    then show ?thesis using h by (simp add: handled_def s1_def)
  next
    case False
    have "boot_ok (disconnect s)" using h boot_ok_cong [of "disconnect s" s] by (simp add: handled_def)
    then show ?thesis using False connect_effect_bridge [of "disconnect s"] by (simp add: s1_def)
  qed
  have b2: "boot_ok s2" using h boot_ok_cong [of s2 s] f1 by (simp add: handled_def s2_def)
  have l2: "link_ok s2" using l1 link_ok_cong [of s2 s1] by (simp add: s2_def)
  have o2: "focus_ok s2"
  proof (cases "length (ap_requests s) = length (ap_requests old)")
    case True
    then show ?thesis using h f1 by (simp add: handled_def focus_ok_def s2_def)
  next
    case False
    then show ?thesis using h f1 clamp_focus [of s1] by (simp add: handled_def s2_def)
  qed
  show ?thesis
    using b2 l2 o2 boot_ok_cong [of "reset_detail s2" s2] link_ok_cong [of "reset_detail s2" s2]
    by (auto simp: c focus_ok_def)
qed

lemma commit_crashed [simp]: "ap_crashed (commit old s) = ap_crashed s"
  by (simp add: commit_def Let_def)

lemma handledI: "focus_ok s' \<Longrightarrow> boot_ok s' \<Longrightarrow> link_ok s' \<Longrightarrow> handled s s'"
  unfolding handled_def by (auto simp only: focus_ok_def)

lemma handled_frame:
  assumes "focus_ok s" and "boot_ok s" and "link_ok s'"
    and "ap_focusedIndex s' = ap_focusedIndex s" and "ap_bootState s' = ap_bootState s"
    and "ap_brokerBase s' = ap_brokerBase s" and "ap_container s' = ap_container s"
    and "ap_bootState s = NoSw \<longrightarrow> ap_requests s' = []"
  shows "handled s s'"
  using assms by (auto simp: handled_def focus_ok_def boot_ok_def)

lemma bridge_decide_fields [simp]:
  "bg_url (bridge_decide d b) = bg_url b" "bg_container (bridge_decide d b) = bg_container b"
  "bg_listening (bridge_decide d b) = bg_listening b"
  by (simp_all add: bridge_decide_def post_def)

lemma on_message_fields [simp]:
  "bg_url (on_message d b) = bg_url b" "bg_container (on_message d b) = bg_container b"
  "bg_listening (on_message d b) = bg_listening b" "bg_posted (on_message d b) = bg_posted b"
  by (simp_all add: on_message_def split: option.splits)

lemma on_controllerchange_fields [simp]:
  "bg_url (on_controllerchange c b) = bg_url b"
  "bg_container (on_controllerchange c b) = map_option (\<lambda>_. c) (bg_container b)"
  "bg_listening (on_controllerchange c b) = bg_listening b"
  by (simp_all add: on_controllerchange_def post_def Let_def)

lemma decide_fields [simp]:
  "ap_focusedIndex (decide i v s) = ap_focusedIndex s" "ap_bootState (decide i v s) = ap_bootState s"
  "ap_brokerBase (decide i v s) = ap_brokerBase s" "ap_container (decide i v s) = ap_container s"
  "ap_requests (decide i v s) = applyResolved (ap_requests s) (Str i)"
  "ap_sent (decide i v s) = ap_sent s" "ap_crashed (decide i v s) = ap_crashed s"
  by (simp_all add: decide_def)

lemma applyResolved_Nil [simp]: "applyResolved [] k = []"
  by (simp add: applyResolved_def)

lemma decide_handled:
  assumes "focus_ok s" and "boot_ok s" and "link_ok s"
  shows "handled s (decide i v s)"
proof (rule handled_frame [OF assms(1,2)])
  show "link_ok (decide i v s)"
    using assms(3) by (auto simp: link_ok_def decide_def split: option.splits)
qed (use assms(2) in \<open>auto simp: boot_ok_def\<close>)

lemma inbox_keys_ran: "inbox_keys k = Some a \<Longrightarrow> a \<in> {FocusNext, FocusPrev, OpenFocused, DecideFocused ChooseAllow, DecideFocused ChooseDeny}"
  by (auto simp: inbox_keys_def split: if_splits)

lemma detail_keys_ran: "detail_keys k = Some a \<Longrightarrow> a \<in> {DecideShown ChooseAllow, DecideShown ChooseDeny, BackToInbox}"
  by (auto simp: detail_keys_def split: if_splits)

lemma tool_keys_ran: "tool_keys k = Some a \<Longrightarrow> a \<in> {ShowView Formatted, ShowView Json}"
  by (auto simp: tool_keys_def split: if_splits)

lemma key_action_FocusNext: "key_action s k = Some FocusNext \<Longrightarrow> ap_requests s \<noteq> []"
  by (auto simp: key_action_def dest: detail_keys_ran tool_keys_ran MainView_inbox
      split: if_splits main_view.splits)

lemma shortcut_handled:
  assumes "focus_ok s" and "boot_ok s" and "link_ok s" and "key_action s k = Some a"
  shows "handled s (run_shortcut a s)"
proof (cases "a = FocusNext \<or> a = FocusPrev")
  case True
  have "link_ok (run_shortcut a s)" "boot_ok (run_shortcut a s)"
    using True assms(2,3) by (auto simp: link_ok_def boot_ok_def)
  moreover have "focus_ok (run_shortcut a s)"
    using True assms(1,4) key_action_FocusNext [of s k] by (auto simp: focus_ok_def max_def min_def Suc_le_eq)
  ultimately show ?thesis by (intro handledI)
next
  case False
  have id: "handled s s" by (rule handled_frame [OF assms(1-3)]) (use assms(2) in \<open>auto simp: boot_ok_def\<close>)
  have frame: "handled s s'"
    if "ap_requests s' = ap_requests s" "ap_focusedIndex s' = ap_focusedIndex s"
      "ap_bootState s' = ap_bootState s" "ap_brokerBase s' = ap_brokerBase s"
      "ap_container s' = ap_container s" "ap_bridge s' = ap_bridge s" for s'
    using that assms link_ok_cong [of s' s] by (intro handled_frame) (auto simp: boot_ok_def)
  show ?thesis
    using False assms(1-3)
    by (cases a) (auto intro!: frame decide_handled id split: option.splits main_view.splits)
qed

lemma setup_submit_SomeD: "setup_submit p v = Some base \<Longrightarrow> base \<noteq> [] \<and> isValidBrokerBase p base"
  by (auto simp: setup_submit_def isValidBrokerBase_def Let_def split: if_splits)

lemma on_call_inv:
  assumes "focus_ok s" and "boot_ok s" and "link_ok s" and "ap_bridge s = Some b"
  shows "ap_crashed (on_call br c s) \<or> handled s (on_call br c s)"
proof -
  have boot: "ap_bootState s \<noteq> NoSw" using assms(3,4) by (simp add: link_ok_def)
  have frame: "handled s s'"
    if "ap_focusedIndex s' = ap_focusedIndex s"
      "ap_bootState s' = ap_bootState s" "ap_brokerBase s' = ap_brokerBase s"
      "ap_container s' = ap_container s" "ap_bridge s' = ap_bridge s" for s'
    using that assms boot link_ok_cong [of s' s] by (intro handled_frame) auto
  show ?thesis
    by (cases c) (auto intro!: frame split: option.splits)
qed

lemma handle_inv:
  assumes "focus_ok s" and "boot_ok s" and "link_ok s"
  shows "ap_crashed (handle br s e) \<or> handled s (handle br s e)"
proof -
  have frame: "handled s s'"
    if "ap_requests s' = ap_requests s" "ap_focusedIndex s' = ap_focusedIndex s"
      "ap_bootState s' = ap_bootState s" "ap_brokerBase s' = ap_brokerBase s"
      "ap_container s' = ap_container s" "ap_bridge s' = ap_bridge s" for s'
    using that assms link_ok_cong [of s' s] by (intro handled_frame) (auto simp: boot_ok_def)
  show ?thesis
  proof (cases e)
    case (KeyDown k)
    have "handle br s e = (if blocked k then s else case key_action s (ke_key k) of None \<Rightarrow> s | Some a \<Rightarrow> run_shortcut a s)"
      using assms(2) by (simp add: KeyDown hooks_key_action boot_ok_def split: option.splits)
    then show ?thesis
      using shortcut_handled [OF assms] by (auto intro!: frame split: option.splits)
  next
    case (HoverCard i)
    have "handled s (s\<lparr>ap_focusedIndex := int i\<rparr>)" if "i < length (ap_requests s)"
    proof -
      have "int i \<le> max 0 (int (length (ap_requests s)) - 1)" using that by simp
      moreover have "link_ok (s\<lparr>ap_focusedIndex := int i\<rparr>)" "boot_ok (s\<lparr>ap_focusedIndex := int i\<rparr>)"
        using assms link_ok_cong [of "s\<lparr>ap_focusedIndex := int i\<rparr>" s] by (simp_all add: boot_ok_def)
      ultimately show ?thesis by (simp add: handled_def focus_ok_def)
    qed
    then show ?thesis using HoverCard by (auto intro!: frame)
  next
    case (SubmitBroker v)
    have "handled s (saveBrokerBase base s)" if "setup_submit (br_url_protocol br) v = Some base" "MainView s = SetupView" for base
    proof -
      have "ap_bootState s \<noteq> NoSw" using that(2) by (auto simp: MainView_def)
      then show ?thesis using setup_submit_SomeD [OF that(1)] assms
        by (auto simp: handled_def saveBrokerBase_def focus_ok_def boot_ok_def link_ok_def split: option.splits)
    qed
    then show ?thesis using SubmitBroker by (auto intro!: frame split: option.splits)
  next
    case (WorkerMessage data)
    show ?thesis
    proof (cases "ap_bridge s")
      case None
      then show ?thesis using WorkerMessage by (auto intro!: frame)
    next
      case (Some b)
      let ?s = "s\<lparr>ap_bridge := Some (on_message data b)\<rparr>"
      have l: "link_ok ?s" using assms(3) Some by (simp add: link_ok_def)
      have o: "focus_ok ?s" "boot_ok ?s" using assms by (simp_all add: focus_ok_def boot_ok_def)
      have h: "handled s ?s" by (rule handled_frame [OF assms(1,2) l]) (use assms(2) in \<open>auto simp: boot_ok_def\<close>)
      have "handled ?s s' \<Longrightarrow> handled s s'" for s' by (simp add: handled_def)
      then show ?thesis
        using on_call_inv [OF o l, of "on_message data b" br] h
        by (auto simp: WorkerMessage Some Let_def split: option.splits)
    qed
  next
    case (NewController c)
    have "link_ok (handle br s e)" using assms(3) by (auto simp: NewController link_ok_def split: option.splits)
    moreover have "boot_ok (handle br s e)" using assms(2) by (simp add: NewController boot_ok_def)
    moreover have "focus_ok (handle br s e)" using assms(1) by (simp add: NewController focus_ok_def)
    ultimately show ?thesis by (auto intro: handledI)
  qed (auto intro!: frame decide_handled assms split: main_view.splits)
qed

lemma app_step_inv: "app_inv s \<Longrightarrow> app_inv (app_step br s e)"
  using handle_inv [of s br e] commit_inv [of s "handle br s e"]
  by (auto simp: app_inv_def app_step_def)

interpretation app: event_machine "app_step br" app_inv for br
  by unfold_locales (rule app_step_inv)

lemma mount_inv: "app_inv (mount_app br container desktop st)"
proof -
  let ?s0 = "initial_app br container desktop st"
  let ?s1 = "clamp_effect (connect_effect ?s0)"
  let ?s2 = "boot_effect br ?s1"
  have c: "ap_crashed ?s2 = False"
    by (simp add: boot_effect_def initial_app_def Let_def split: prod.splits)
  have 0: "ap_requests ?s2 = []" "ap_focusedIndex ?s2 = 0" "ap_requests ?s1 = []" "ap_container ?s2 = container"
    "ap_bridge ?s2 = ap_bridge ?s1"
    by (simp_all add: boot_effect_def initial_app_def clamp_effect_def Let_def split: prod.splits)
  have b: "boot_ok ?s2"
    by (auto simp: boot_ok_def boot_effect_def initial_app_def Let_def split: prod.splits)
  have l: "link_ok ?s2" if "(ap_bootState ?s2, ap_brokerBase ?s2) = (ap_bootState ?s1, ap_brokerBase ?s1)"
  proof -
    have "container \<noteq> None"
      using that by (cases container) (auto simp: boot_effect_def initial_app_def split: if_splits)
    moreover have "buildTimeBrokerBase (br_env br) \<noteq> Some []"
      by (auto simp: buildTimeBrokerBase_def split: option.splits)
    ultimately have "link_ok (connect_effect ?s0)"
      by (auto simp: connect_effect_def link_ok_def initial_app_def split: option.splits list.splits)
    then have "link_ok ?s1" using link_ok_cong [of ?s1 "connect_effect ?s0"] by simp
    moreover have "ap_container ?s2 = ap_container ?s1" using 0(4) by (simp add: initial_app_def)
    ultimately show ?thesis using that 0(5) by (simp add: link_ok_def)
  qed
  have "handled ?s1 ?s2" using b l 0 by (simp add: handled_def focus_ok_def)
  from commit_inv [OF this] show ?thesis by (simp add: app_inv_def mount_app_def Let_def)
qed

lemma commit_boot [simp]: "ap_bootState (commit old s) = ap_bootState s"
  by (simp add: commit_def Let_def)

lemma commit_base [simp]: "ap_brokerBase (commit old s) = ap_brokerBase s"
  by (simp add: commit_def Let_def)

lemma mount_not_crashed: "\<not> ap_crashed (mount_app br container desktop st)"
  by (simp add: mount_app_def boot_effect_def initial_app_def Let_def split: prod.splits)

lemma mount_base:
  "ap_brokerBase (mount_app br (Some c) desktop st) =
     fst (resolveBrokerBase (br_url_param br) (br_env br) (br_search br) st)"
proof -
  let ?s1 = "clamp_effect (connect_effect (initial_app br (Some c) desktop st))"
  have "ap_storage ?s1 = st" "ap_container ?s1 = Some c"
    by (simp_all add: initial_app_def connect_effect_def clamp_effect_def split: option.splits list.splits)
  then show ?thesis by (simp add: mount_app_def boot_effect_def Let_def case_prod_unfold)
qed

lemma mount_no_worker: "ap_bootState (mount_app br None desktop st) = NoSw"
  by (simp add: mount_app_def boot_effect_def initial_app_def Let_def)

section \<open>What is posted to the worker\<close>

definition is_decision :: "js \<Rightarrow> bool" where
  "is_decision m \<longleftrightarrow> member m ''type'' = Str ''decision''"

definition decisions :: "app \<Rightarrow> js list" where
  "decisions s = filter is_decision (posted s)"

lemma is_decision_messages [simp]:
  "is_decision (decision_message d)" "\<not> is_decision (connect_message url)"
  by (simp_all add: is_decision_def decision_message_def connect_message_def)

lemma posted_disconnect [simp]: "posted (disconnect s) = posted s"
  by (auto simp: posted_def disconnect_def bridge_close_def split: option.splits)

lemma posted_connect_effect:
  "ap_bridge s = None \<Longrightarrow>
     posted (connect_effect s) = posted s @
       (if ap_bootState s = Ready \<and> ap_brokerBase s \<notin> {None, Some []} \<and> ap_container s = Some True
        then [connect_message (brokerWsUrl (the (ap_brokerBase s)))] else [])"
  by (auto simp: posted_def connect_effect_def connectBroker_def post_def Let_def
      split: option.splits list.splits bool.splits)

lemma posted_cong: "ap_sent s' = ap_sent s \<Longrightarrow> ap_bridge s' = ap_bridge s \<Longrightarrow> posted s' = posted s"
  by (simp add: posted_def)

lemma posted_commit:
  "posted (commit old s) = posted s @
     (if (ap_bootState s, ap_brokerBase s) \<noteq> (ap_bootState old, ap_brokerBase old) \<and>
         ap_bootState s = Ready \<and> ap_brokerBase s \<notin> {None, Some []} \<and> ap_container s = Some True
      then [connect_message (brokerWsUrl (the (ap_brokerBase s)))] else [])"
proof -
  have "posted (clamp_effect s) = posted s" "posted (reset_detail s) = posted s" for s
    by (rule posted_cong; simp)+
  then show ?thesis
    using posted_connect_effect [of "disconnect s"] by (auto simp: commit_def Let_def)
qed

lemma decisions_commit [simp]: "decisions (commit old s) = decisions s"
  by (simp add: decisions_def posted_commit)

lemma requests_commit [simp]: "ap_requests (commit old s) = ap_requests s"
  by (simp add: commit_def Let_def)

text \<open>The link is up when the page is past its setup.\<close>

definition reachable_worker :: "app \<Rightarrow> bool" where
  "reachable_worker s \<longleftrightarrow> ap_container s = Some True"

lemma decisions_decide:
  assumes "link_ok s" and "ap_bootState s = Ready"
  shows "decisions (decide i v s) = decisions s @
           (if reachable_worker s then [decision_message (decision_of i v)] else [])"
proof -
  obtain b where b: "ap_bridge s = Some b" "bg_container b = ap_container s"
    using assms unfolding link_ok_def by auto
  show ?thesis
    using b by (simp add: decisions_def posted_def decide_def bridge_decide_def post_def reachable_worker_def)
qed

text \<open>The operator's intent, told from the screen alone: the card the screen points at, and the
  verdict of the key or button.\<close>

definition verdict_key :: "string \<Rightarrow> choice option" where
  "verdict_key k = (if k = ''a'' then Some ChooseAllow else if k = ''d'' then Some ChooseDeny else None)"

definition pointed :: "app \<Rightarrow> approval_request option" where
  "pointed s =
     (case MainView s of
        DetailView r \<Rightarrow> Some r
      | InboxListView \<Rightarrow> request_at s (ap_focusedIndex s)
      | _ \<Rightarrow> None)"

fun intended :: "app \<Rightarrow> app_event \<Rightarrow> approval_decision option" where
  "intended s (KeyDown e) =
     (if blocked e \<or> \<not> ap_isDesktop s \<or> ap_showShortcuts s then None
      else (case verdict_key (ke_key e) of
              None \<Rightarrow> None
            | Some v \<Rightarrow> map_option (\<lambda>r. decision_of (rq_id r) v) (pointed s)))"
| "intended s (DecideCard i v) =
     (if MainView s = InboxListView \<and> i < length (ap_requests s)
      then Some (decision_of (rq_id (ap_requests s ! i)) v) else None)"
| "intended s (DecideButton v) =
     (case MainView s of DetailView r \<Rightarrow> Some (decision_of (rq_id r) v) | _ \<Rightarrow> None)"
| "intended s _ = None"

lemma view_ready:
  "MainView s = InboxListView \<Longrightarrow> ap_bootState s = Ready"
  "MainView s = DetailView r \<Longrightarrow> ap_bootState s = Ready"
  by (cases "ap_bootState s"; auto simp: MainView_def settingUpBroker_def split: if_splits option.splits)+

lemma verdict_keys:
  "inbox_keys k = Some (DecideFocused v) \<longleftrightarrow> verdict_key k = Some v"
  "detail_keys k = Some (DecideShown v) \<longleftrightarrow> verdict_key k = Some v"
  by (auto simp: inbox_keys_def detail_keys_def verdict_key_def split: if_splits)

lemma request_at_pointed: "MainView s = InboxListView \<Longrightarrow> focus_ok s \<Longrightarrow> pointed s \<noteq> None"
  using MainView_inbox [of s] by (auto simp: pointed_def request_at_def focus_ok_def)

text \<open>What a key's shortcut does is a decision exactly when the intent is one.\<close>

lemma key_intended:
  assumes "\<not> blocked e" and "key_action s (ke_key e) = Some a"
  shows "(\<exists>d. intended s (KeyDown e) = Some d \<and>
              run_shortcut a s = decide (dc_requestId d) (dc_verdict d) s \<and>
              d = decision_of (dc_requestId d) (dc_verdict d) \<and> ap_bootState s = Ready) \<or>
         intended s (KeyDown e) = None \<and> ap_bridge (run_shortcut a s) = ap_bridge s \<and>
         ap_sent (run_shortcut a s) = ap_sent s"
proof (cases a)
  case (DecideFocused v)
  have m: "MainView s = InboxListView" and k: "verdict_key (ke_key e) = Some v"
    and g: "ap_isDesktop s" "\<not> ap_showShortcuts s"
    using assms(2) DecideFocused
    by (auto simp: key_action_def verdict_keys dest: detail_keys_ran tool_keys_ran
        split: if_splits main_view.splits)
  show ?thesis
    using assms(1) m k g view_ready(1) [OF m]
    by (auto simp: DecideFocused pointed_def decision_of_def split: option.splits)
next
  case (DecideShown v)
  have "\<exists>r. MainView s = DetailView r" and k: "verdict_key (ke_key e) = Some v"
    and g: "ap_isDesktop s" "\<not> ap_showShortcuts s"
    using assms(2) DecideShown
    by (auto simp: key_action_def verdict_keys dest: inbox_keys_ran tool_keys_ran
        split: if_splits main_view.splits)
  then obtain r where m: "MainView s = DetailView r" by blast
  show ?thesis
    using assms(1) m k g view_ready(2) [OF m]
    by (auto simp: DecideShown pointed_def decision_of_def)
next
  case OpenFocused
  have "verdict_key (ke_key e) = None"
    using assms(2) OpenFocused verdict_keys [of "ke_key e"]
    by (cases "verdict_key (ke_key e)")
      (auto simp: key_action_def dest: detail_keys_ran tool_keys_ran split: if_splits main_view.splits)
  then show ?thesis by (auto simp: OpenFocused split: option.splits)
next
  case TogglePanel
  have "ke_key e = ''?''"
    using assms(2) TogglePanel
    by (auto simp: key_action_def dest: detail_keys_ran tool_keys_ran inbox_keys_ran split: if_splits main_view.splits)
  then show ?thesis by (auto simp: TogglePanel verdict_key_def)
next
  case ClosePanel
  have "ap_showShortcuts s"
    using assms(2) ClosePanel
    by (auto simp: key_action_def dest: detail_keys_ran tool_keys_ran inbox_keys_ran split: if_splits main_view.splits)
  then show ?thesis by (simp add: ClosePanel)
next
  case (ShowView v)
  have "verdict_key (ke_key e) = None"
    using assms(2) ShowView
    by (auto simp: key_action_def verdict_key_def tool_keys_def dest: detail_keys_ran inbox_keys_ran
        split: if_splits main_view.splits)
  then show ?thesis by (simp add: ShowView)
next
  case BackToInbox
  have "verdict_key (ke_key e) = None"
    using assms(2) BackToInbox verdict_keys [of "ke_key e"]
    by (cases "verdict_key (ke_key e)")
      (auto simp: key_action_def dest: inbox_keys_ran tool_keys_ran split: if_splits main_view.splits)
  then show ?thesis by (simp add: BackToInbox)
qed (use assms(2) in \<open>auto simp: key_action_def verdict_key_def inbox_keys_def dest: detail_keys_ran tool_keys_ran
       split: if_splits main_view.splits\<close>)

lemma no_key_not_intended:
  assumes "key_action s (ke_key e) = None"
  shows "intended s (KeyDown e) = None"
proof (rule ccontr)
  assume i: "intended s (KeyDown e) \<noteq> None"
  then obtain v where v: "verdict_key (ke_key e) = Some v" and g: "ap_isDesktop s" "\<not> ap_showShortcuts s"
    and p: "pointed s \<noteq> None"
    by (auto split: if_splits option.splits)
  have k: "ke_key e \<noteq> ''?''" using v by (auto simp: verdict_key_def split: if_splits)
  from p consider (detail) r where "MainView s = DetailView r" | (inbox) "MainView s = InboxListView"
    by (auto simp: pointed_def split: main_view.splits)
  then show False
  proof cases
    case detail
    then show False using assms g k verdict_keys(2) [of "ke_key e" v] v by (simp add: key_action_def)
  next
    case inbox
    then show False using assms g k verdict_keys(1) [of "ke_key e" v] v by (simp add: key_action_def)
  qed
qed

lemma pointed_known: "pointed s = Some r \<Longrightarrow> r \<in> set (ap_requests s)"
  by (auto simp: pointed_def request_at_def selected_def find_Some_iff
      dest!: MainView_detail split: main_view.splits if_splits)

lemma intended_known: "intended s e = Some d \<Longrightarrow> dc_requestId d \<in> rq_id ` set (ap_requests s)"
proof (cases e)
  case (KeyDown k)
  assume "intended s e = Some d"
  then obtain r v where "pointed s = Some r" "d = decision_of (rq_id r) v"
    by (auto simp: KeyDown split: if_splits option.splits)
  then show ?thesis using pointed_known [of s r] by (simp add: decision_of_def)
next
  case (DecideCard i v)
  assume "intended s e = Some d"
  then show ?thesis by (auto simp: DecideCard decision_of_def split: if_splits)
next
  case (DecideButton v)
  assume "intended s e = Some d"
  then obtain r where "MainView s = DetailView r" "d = decision_of (rq_id r) v"
    by (auto simp: DecideButton split: main_view.splits)
  then show ?thesis using pointed_known [of s r] by (simp add: decision_of_def pointed_def)
qed simp_all

text \<open>The handlers that decide, and the others.\<close>

lemma decisions_cong: "ap_sent s' = ap_sent s \<Longrightarrow> ap_bridge s' = ap_bridge s \<Longrightarrow> decisions s' = decisions s"
  by (simp add: decisions_def posted_def)

lemma on_call_decisions: "decisions (on_call br c s) = decisions s"
proof (cases c)
  case (OnAdded x)
  have "posted ((disconnect s)\<lparr>ap_crashed := True\<rparr>) = posted (disconnect s)" by (rule posted_cong) simp_all
  then have "decisions ((disconnect s)\<lparr>ap_crashed := True\<rparr>) = decisions s" by (simp add: decisions_def)
  moreover have "decisions (s\<lparr>ap_requests := rs, ap_drawn := n\<rparr>) = decisions s" for rs n
    by (rule decisions_cong) simp_all
  ultimately show ?thesis using OnAdded by (auto split: option.splits)
qed (auto simp: decisions_def posted_def split: option.splits)

lemma worker_message_decisions: "decisions (handle br s (WorkerMessage data)) = decisions s"
proof (cases "ap_bridge s")
  case None
  then show ?thesis by simp
next
  case (Some b)
  have "decisions (s\<lparr>ap_bridge := Some (on_message data b)\<rparr>) = decisions s"
    using Some by (simp add: decisions_def posted_def)
  then show ?thesis using Some by (auto simp: Let_def on_call_decisions split: option.splits)
qed

lemma controller_decisions: "decisions (handle br s (NewController c)) = decisions s"
proof (cases "ap_bridge s")
  case None
  then show ?thesis by (simp add: decisions_def posted_def)
next
  case (Some b)
  have "filter is_decision (bg_posted (on_controllerchange c b)) = filter is_decision (bg_posted b)"
    by (simp add: on_controllerchange_def post_def Let_def)
  then show ?thesis using Some by (simp add: decisions_def posted_def)
qed

lemma handle_intended:
  assumes "boot_ok s"
  shows "(\<exists>d. intended s e = Some d \<and> handle br s e = decide (dc_requestId d) (dc_verdict d) s \<and>
              d = decision_of (dc_requestId d) (dc_verdict d) \<and> ap_bootState s = Ready) \<or>
         intended s e = None \<and> decisions (handle br s e) = decisions s"
proof (cases e)
  case (KeyDown k)
  have h: "handle br s e = (if blocked k then s else case key_action s (ke_key k) of None \<Rightarrow> s | Some a \<Rightarrow> run_shortcut a s)"
    using assms by (simp add: KeyDown hooks_key_action boot_ok_def split: option.splits)
  show ?thesis
  proof (cases "blocked k \<or> key_action s (ke_key k) = None")
    case True
    then have "intended s e = None" using no_key_not_intended [of s k] by (auto simp: KeyDown)
    then show ?thesis using True h by auto
  next
    case False
    then obtain a where "key_action s (ke_key k) = Some a" by blast
    then show ?thesis using False h key_intended [of k s a] decisions_cong [of "run_shortcut a s" s]
      by (auto simp: KeyDown)
  qed
next
  case (DecideCard i v)
  then show ?thesis using view_ready(1) [of s] by (auto simp: decision_of_def)
next
  case (DecideButton v)
  then show ?thesis using view_ready(2) [of s] by (auto simp: decision_of_def split: main_view.splits)
next
  case (WorkerMessage data)
  then show ?thesis using worker_message_decisions [of br s data] by (simp del: handle.simps)
next
  case (NewController c)
  then show ?thesis using controller_decisions [of br s c] by (simp del: handle.simps)
next
  case (SubmitBroker v)
  have "decisions (saveBrokerBase b s) = decisions s" for b
    by (rule decisions_cong) (simp_all add: saveBrokerBase_def)
  then show ?thesis using SubmitBroker by (auto split: option.splits)
qed (auto intro!: decisions_cong split: main_view.splits)

lemma mount_posts:
  "posted (mount_app br (Some True) desktop st) =
     (let built = buildTimeBrokerBase (br_env br);
          configured = fst (resolveBrokerBase (br_url_param br) (br_env br) (br_search br) st);
          ask = (\<lambda>base. case base of None \<Rightarrow> [] | Some b \<Rightarrow> [connect_message (brokerWsUrl b)])
      in ask built @ (if configured = built then [] else ask configured))"
proof -
  let ?s0 = "initial_app br (Some True) desktop st"
  let ?s1 = "clamp_effect (connect_effect ?s0)"
  obtain base st' where r: "resolveBrokerBase (br_url_param br) (br_env br) (br_search br) st = (base, st')"
    by (cases "resolveBrokerBase (br_url_param br) (br_env br) (br_search br) st")
  have ne: "base \<noteq> Some []" "buildTimeBrokerBase (br_env br) \<noteq> Some []"
    using resolve_not_empty [of "br_url_param br" "br_env br" "br_search br" st] r buildTime_not_empty by simp_all
  have "posted ?s1 = (case buildTimeBrokerBase (br_env br) of None \<Rightarrow> [] | Some b \<Rightarrow> [connect_message (brokerWsUrl b)])"
  proof -
    have "posted ?s1 = posted (connect_effect ?s0)" by (rule posted_cong) simp_all
    also have "\<dots> = posted ?s0 @ (if ap_bootState ?s0 = Ready \<and> ap_brokerBase ?s0 \<notin> {None, Some []} \<and> ap_container ?s0 = Some True
        then [connect_message (brokerWsUrl (the (ap_brokerBase ?s0)))] else [])"
      by (rule posted_connect_effect) (simp add: initial_app_def)
    finally show ?thesis using ne(2) by (auto simp: initial_app_def posted_def split: option.splits)
  qed
  moreover have "posted (boot_effect br ?s1) = posted ?s1"
    by (rule posted_cong) (simp_all add: boot_effect_def Let_def split: prod.splits)
  moreover have "ap_bootState (boot_effect br ?s1) = (if base \<noteq> None then Ready else NeedsBroker)"
    "ap_brokerBase (boot_effect br ?s1) = base" "ap_container (boot_effect br ?s1) = Some True"
    "ap_storage ?s1 = st"
    using r ne(1) by (auto simp: boot_effect_def initial_app_def connect_effect_def clamp_effect_def
        split: option.splits list.splits)
  moreover have "ap_bootState ?s1 = (if buildTimeBrokerBase (br_env br) \<noteq> None then Ready else NeedsBroker)"
    "ap_brokerBase ?s1 = buildTimeBrokerBase (br_env br)"
    by (simp_all add: initial_app_def)
  ultimately show ?thesis
    using ne by (auto simp: mount_app_def Let_def posted_commit r split: option.splits)
qed

section \<open>Properties\<close>

text \<open>
  C14. In every session the cursor points at a card whenever there is one, the page holds a
  connection exactly when it is past its setup, to the configured broker and over the current
  container, and no key press runs two shortcuts.
\<close>

theorem app_session_invariant:
  assumes "s = foldl (app_step br) (mount_app br container desktop st) es" and "\<not> ap_crashed s"
  shows "0 \<le> ap_focusedIndex s \<and>
         (ap_requests s \<noteq> [] \<longrightarrow> ap_focusedIndex s < int (length (ap_requests s))) \<and>
         (ap_bridge s = None \<longleftrightarrow> ap_bootState s \<noteq> Ready) \<and>
         (\<forall>b. ap_bridge s = Some b \<longrightarrow>
            (\<exists>base. ap_brokerBase s = Some base \<and> base \<noteq> [] \<and> bg_url b = brokerWsUrl base)) \<and>
         (\<forall>e. length (dispatch_all (hooks s) e) \<le> 1)"
proof -
  have "app_inv s" unfolding assms(1) by (rule app.run_inv [OF mount_inv])
  then have i: "focus_ok s" "boot_ok s" "link_ok s" using assms(2) by (auto simp: app_inv_def)
  have "0 \<le> ap_focusedIndex s \<and> (ap_requests s \<noteq> [] \<longrightarrow> ap_focusedIndex s < int (length (ap_requests s)))"
    using i(1) by (cases "ap_requests s") (auto simp: focus_ok_def)
  moreover have "length (dispatch_all (hooks s) e) \<le> 1" for e
    using i(2) by (simp add: hooks_key_action boot_ok_def split: option.split)
  ultimately show ?thesis using i(2,3) by (auto simp: boot_ok_def link_ok_def)
qed

theorem app_session_invariant_witness:
  "\<exists>s br. s = foldl (app_step br) (mount_app br None True \<lparr>st_items = Map.empty, st_enabled = True, st_full = False\<rparr>)
                [] \<and> \<not> ap_crashed s \<and> ap_bridge s = None"
proof -
  let ?br = "\<lparr>br_uuid = (\<lambda>_. []), br_url_param = (\<lambda>_ _. None), br_url_protocol = (\<lambda>_. None),
              br_env = None, br_search = []\<rparr>"
  let ?st = "\<lparr>st_items = Map.empty, st_enabled = True, st_full = False\<rparr>"
  let ?s = "foldl (app_step ?br) (mount_app ?br None True ?st) []"
  have c: "\<not> ap_crashed ?s" and b: "ap_bootState ?s = NoSw"
    by (simp_all add: mount_not_crashed mount_no_worker)
  show ?thesis
    using app_session_invariant [OF refl c] c b by (intro exI [of _ ?s] exI [of _ ?br]) simp
qed

text \<open>
  C1. Only the operator decides: in every session a step posts a decision exactly when it is a
  press of a decision button, or of \<open>a\<close> or \<open>d\<close> where the screen takes them; then it posts one,
  for the card the screen points at and with that verdict, the card is dropped from the inbox
  with every other card kept in order, and no event that comes from the worker decides.
\<close>

theorem decisions_are_intended:
  assumes "s = foldl (app_step br) (mount_app br container desktop st) es" and "\<not> ap_crashed s"
    and "reachable_worker s"
  shows "decisions (app_step br s e) = decisions s @
           (case intended s e of None \<Rightarrow> [] | Some d \<Rightarrow> [decision_message d]) \<and>
         (\<forall>d. intended s e = Some d \<longrightarrow>
            ap_requests (app_step br s e) = filter (\<lambda>r. rq_id r \<noteq> dc_requestId d) (ap_requests s) \<and>
            dc_requestId d \<in> rq_id ` set (ap_requests s))"
proof -
  have "app_inv s" unfolding assms(1) by (rule app.run_inv [OF mount_inv])
  then have i: "focus_ok s" "boot_ok s" "link_ok s" using assms(2) by (auto simp: app_inv_def)
  have step: "app_step br s e = commit s (handle br s e)" using assms(2) by (simp add: app_step_def)
  from handle_intended [OF i(2), of e br] show ?thesis
  proof (elim disjE exE conjE)
    fix d
    assume d: "intended s e = Some d" "handle br s e = decide (dc_requestId d) (dc_verdict d) s"
      and m: "d = decision_of (dc_requestId d) (dc_verdict d)" and r: "ap_bootState s = Ready"
    have "decisions (app_step br s e) = decisions s @ [decision_message d]"
      using d(2) assms(3) decisions_decide [OF i(3) r, of "dc_requestId d" "dc_verdict d"]
      by (simp add: step m [symmetric])
    moreover have "ap_requests (app_step br s e) = filter (\<lambda>r. rq_id r \<noteq> dc_requestId d) (ap_requests s)"
      using d(2) by (simp add: step applyResolved_def)
    ultimately show ?thesis using d(1) intended_known [OF d(1)] by simp
  next
    assume "intended s e = None" "decisions (handle br s e) = decisions s"
    then show ?thesis by (simp add: step)
  qed
qed

text \<open>A browser with a built-in broker and no saved one, and a session in which one request of
  identifier \<open>a\<close> has been announced.\<close>

abbreviation demo_browser :: browser where
  "demo_browser \<equiv>
     \<lparr>br_uuid = (\<lambda>_. []), br_url_param = (\<lambda>_ _. None), br_url_protocol = (\<lambda>_. Some ''wss:''),
      br_env = Some ''wss://b'', br_search = []\<rparr>"

abbreviation empty_storage :: storage where
  "empty_storage \<equiv> \<lparr>st_items = Map.empty, st_enabled = True, st_full = False\<rparr>"

abbreviation announce_a :: app_event where
  "announce_a \<equiv>
     WorkerMessage (Obj [(''type'', Str ''broker-event''),
       (''event'', Obj [(''type'', Str ''added''), (''request'', Obj [(''id'', Str ''a'')])])])"

theorem decisions_are_intended_witness:
  "decisions (app_step demo_browser
      (foldl (app_step demo_browser) (mount_app demo_browser (Some True) True empty_storage) [announce_a])
      (DecideCard 0 ChooseDeny)) = [decision_message (decision_of ''a'' ChooseDeny)]"
proof -
  let ?s = "foldl (app_step demo_browser) (mount_app demo_browser (Some True) True empty_storage) [announce_a]"
  have c: "\<not> ap_crashed ?s" by code_simp
  have r: "reachable_worker ?s" by code_simp
  have i: "intended ?s (DecideCard 0 ChooseDeny) = Some (decision_of ''a'' ChooseDeny)" by code_simp
  have n: "decisions ?s = []" by code_simp
  show ?thesis
    using decisions_are_intended [OF refl c r, of "DecideCard 0 ChooseDeny"] unfolding i n by simp
qed

text \<open>
  Saving a broker on the setup screen clears the inbox and asks the worker to connect only
  if the broker changed: confirming the broker already in use clears the inbox, and asks for
  nothing that would bring the pending requests back.
\<close>

lemma save_broker_effect:
  assumes "app_inv s" and "\<not> ap_crashed s" and "reachable_worker s" and "MainView s = SetupView"
    and "setup_submit (br_url_protocol br) v = Some base"
  shows "ap_requests (app_step br s (SubmitBroker v)) = [] \<and>
         ap_bootState (app_step br s (SubmitBroker v)) = Ready \<and>
         posted (app_step br s (SubmitBroker v)) = posted s @
           (if ap_bootState s = Ready \<and> ap_brokerBase s = Some base then []
            else [connect_message (brokerWsUrl base)])"
proof -
  have step: "app_step br s (SubmitBroker v) = commit s (saveBrokerBase base s)"
    using assms(2,4,5) by (simp add: app_step_def)
  have "posted (saveBrokerBase base s) = posted s" by (rule posted_cong) (simp_all add: saveBrokerBase_def)
  then show ?thesis
    using setup_submit_SomeD [OF assms(5)] assms(3)
    by (auto simp: step posted_commit saveBrokerBase_def reachable_worker_def)
qed

lemma save_broker_effect_instance:
  "\<exists>s. ap_requests s \<noteq> [] \<and> ap_requests (app_step demo_browser s (SubmitBroker ''wss://b'')) = [] \<and>
       posted (app_step demo_browser s (SubmitBroker ''wss://b'')) = posted s"
proof -
  let ?s = "foldl (app_step demo_browser) (mount_app demo_browser (Some True) True empty_storage)
              [announce_a, ChangeBroker]"
  have i: "app_inv ?s" by (rule app.run_inv [OF mount_inv])
  have c: "\<not> ap_crashed ?s" by code_simp
  have r: "reachable_worker ?s" by code_simp
  have m: "MainView ?s = SetupView" by code_simp
  have v: "setup_submit (br_url_protocol demo_browser) ''wss://b'' = Some ''wss://b''" by code_simp
  have b: "ap_bootState ?s = Ready \<and> ap_brokerBase ?s = Some ''wss://b''" by code_simp
  have n: "ap_requests ?s \<noteq> []" by code_simp
  show ?thesis
    using save_broker_effect [OF i c r m v] b n by (intro exI [of _ ?s]) auto
qed

end
