(* ===== verification/InboxView.thy ===== *)
theory InboxView
  imports Approval Markup AppModel
begin

text \<open>
  The inbox screen: \<^verbatim>\<open>apps/web/src/components/approval/inbox.tsx\<close>, the pieces it shares with
  the detail screen in \<^verbatim>\<open>shared.tsx\<close> and \<^verbatim>\<open>connection-status.tsx\<close>. A component is a function
  from its props to the tree it renders (see \<open>Markup\<close>).
\<close>

section \<open>Shared pieces\<close>

datatype ui_action =
    OnOpen string
  | OnHover nat
  | OnDecide string choice
  | OnBack
  | OnView tool_view
  | OnLine "nat option"
  | OnOpenPanel
  | OnClosePanel
  | OnChangeBroker
  | OnSubmitBroker
  | OnCancelReconfigure
  | OnToggleTheme

definition verdictVariant :: "verdict \<Rightarrow> string" where
  "verdictVariant v = (if v = Ask \<or> v = Deny then ''destructive'' else ''outline'')"

fun fragmentTone :: "verdict \<Rightarrow> string" where
  "fragmentTone Ask = ''text-amber-700/70 dark:text-amber-400/70''"
| "fragmentTone Deny = ''text-destructive''"
| "fragmentTone v = ''text-muted-foreground''"

definition Badge :: "string \<Rightarrow> utext \<Rightarrow> ui_action node" where
  "Badge variant t = Node ''Badge'' [(''variant'', [S variant])] None [Text t]"

definition VerdictBadge :: "verdict \<Rightarrow> ui_action node" where
  "VerdictBadge v = Badge (verdictVariant v) [S (verdict_string v)]"

definition Kbd :: "utext \<Rightarrow> ui_action node" where
  "Kbd t = element ''kbd'' [Text t]"

definition BrandMark :: "ui_action node" where
  "BrandMark = element ''p'' [Node ''img'' [(''src'', [S ''/logo.png'']), (''alt'', [])] None [], plain ''allowlister remote'']"

definition subject_string :: "approval_request \<Rightarrow> string" where
  "subject_string r = (if isToolRequest r then ''tool'' else ''shell'')"

definition Eyebrow :: "approval_request \<Rightarrow> ui_action node" where
  "Eyebrow r =
     element ''span''
       [plain (rq_harness r @ middle_dot @ ''allowlister '' @ verdict_string (rq_currentVerdict r)
               @ middle_dot @ subject_string r)]"

fun STATUS_LABEL :: "broker_status \<Rightarrow> utext" where
  "STATUS_LABEL Connecting = [S ''Connecting to broker'', U 0x2026]"
| "STATUS_LABEL Online = [S ''Connected to broker'']"
| "STATUS_LABEL Offline = [S ''Reconnecting to broker'', U 0x2026]"

fun STATUS_DOT :: "broker_status \<Rightarrow> string" where
  "STATUS_DOT Connecting = ''bg-muted-foreground''"
| "STATUS_DOT Online = ''bg-emerald-500''"
| "STATUS_DOT Offline = ''bg-amber-500''"

definition ConnectionStatus :: "broker_status \<Rightarrow> ui_action node" where
  "ConnectionStatus status =
     Node ''p'' [(''role'', [S ''status'']), (''aria-live'', [S ''polite''])] None
       [Node ''span'' [(''class'', [S (STATUS_DOT status)]), (''aria-hidden'', [S ''true''])] None [],
        Text (STATUS_LABEL status)]"

section \<open>The inbox\<close>

definition INBOX_FLAGGED_LINES :: nat where
  "INBOX_FLAGGED_LINES = 6"

definition INBOX_SCRIPT_LINES :: nat where
  "INBOX_SCRIPT_LINES = 12"

definition INBOX_TOOL_LINES :: nat where
  "INBOX_TOOL_LINES = 8"

definition SectionLabel :: "string \<Rightarrow> ui_action node" where
  "SectionLabel s = element ''span'' [plain s]"

text \<open>The count that stands for what a section leaves out.\<close>

definition note_class :: string where
  "note_class = ''text-xs text-muted-foreground''"

definition hidden_note :: "nat \<Rightarrow> string \<Rightarrow> ui_action node list" where
  "hidden_note n what = 
     only_if (n > 0) (Node ''span'' [(''class'', [S note_class])] None [plain (''+'' @ digits n @ '' more '' @ what)])"

definition line_class :: "script_line \<Rightarrow> string" where
  "line_class l = (case sl_fragment l of Some f \<Rightarrow> fragmentTone (fr_verdict f) | None \<Rightarrow> ''text-muted-foreground'')"

definition visible_lines :: "string \<Rightarrow> fragment list \<Rightarrow> script_line list" where
  "visible_lines command fragments =
     filter (\<lambda>l. length (js_trim (sl_text l)) > 0) (scriptLines command fragments)"

definition ShellPreview :: "string \<Rightarrow> fragment list \<Rightarrow> ui_action node" where
  "ShellPreview command fragments =
     (let flagged = flaggedFragments fragments;
          shownFlagged = take INBOX_FLAGGED_LINES flagged;
          hiddenFlagged = length flagged - length shownFlagged;
          lines = visible_lines command fragments;
          shownLines = take INBOX_SCRIPT_LINES lines;
          hiddenLines = length lines - length shownLines;
          showScript = length lines > 1
      in element ''span''
           ([element ''span''
               ([SectionLabel ''Flagged'']
                @ map (\<lambda>f. Node ''code'' [(''class'', [S ''text-foreground''])] None [plain (fr_display f)]) shownFlagged
                @ hidden_note hiddenFlagged ''flagged command(s)'')]
            @ only_if showScript
                (element ''span''
                   ([SectionLabel ''Script'']
                    @ map (\<lambda>l. Node ''code'' [(''class'', [S (line_class l)])] None [plain (sl_text l)]) shownLines
                    @ hidden_note hiddenLines ''script line(s)''))))"

definition ToolPreview :: "tool_call \<Rightarrow> ui_action node" where
  "ToolPreview t =
     (let lines = toolCallLines t;
          shown = take (INBOX_TOOL_LINES - 1) lines;
          hidden = length lines - length shown
      in element ''span''
           ([element ''code'' [plain (tc_name t)]]
            @ map (\<lambda>l. element ''code'' [plain l]) shown
            @ hidden_note hidden ''argument(s)''))"

definition InboxPreview :: "approval_request \<Rightarrow> ui_action node" where
  "InboxPreview r =
     (case rq_subject r of
        Shell command fragments \<Rightarrow> ShellPreview command fragments
      | Tool t \<Rightarrow> ToolPreview t)"

definition InboxBadges :: "approval_request \<Rightarrow> ui_action node list" where
  "InboxBadges r =
     (case rq_subject r of
        Tool t \<Rightarrow> [Badge ''outline'' [S (tc_capability t)]]
      | Shell command fragments \<Rightarrow>
          (let rules = triggeredRules fragments
           in if length rules = 0 then [Badge ''outline'' [S ''deferred to remote approval'']]
              else map (\<lambda>rule. Badge ''destructive'' [S rule]) rules))"

definition InboxItem :: "approval_request \<Rightarrow> bool \<Rightarrow> bool \<Rightarrow> nat \<Rightarrow> ui_action node" where
  "InboxItem r focused showHints i =
     (let headline = requestHeadline r; highlighted = focused \<and> showHints
      in element ''li''
           [Node ''Card'' (if highlighted then [(''class'', [S ''ring-2 ring-ring''])] else []) (Some (OnHover i))
              [Node ''button''
                 ([(''aria-label'', [S (''Open approval for '' @ headline)])]
                  @ (if highlighted then [(''aria-current'', [S ''true''])] else []))
                 (Some (OnOpen (rq_id r)))
                 [Eyebrow r, InboxPreview r, element ''span'' (InboxBadges r)],
               element ''div''
                 [Node ''Button'' [(''variant'', [S ''outline'']), (''aria-label'', [S (''Deny '' @ headline)])]
                    (Some (OnDecide (rq_id r) ChooseDeny))
                    ([plain ''Deny''] @ only_if highlighted (Kbd [S ''D''])),
                  Node ''Button'' [(''aria-label'', [S (''Allow '' @ headline)])]
                    (Some (OnDecide (rq_id r) ChooseAllow))
                    ([plain ''Allow''] @ only_if highlighted (Kbd [S ''A'']))]]])"

definition InboxHints :: "ui_action node" where
  "InboxHints =
     element ''p''
       [Kbd [U 0x2191], Kbd [U 0x2193], element ''span'' [plain ''move''],
        Kbd [S ''Enter''], element ''span'' [plain ''open''],
        Kbd [S ''A''], element ''span'' [plain ''allow''],
        Kbd [S ''D''], element ''span'' [plain ''deny''],
        element ''span'' [Text [S [CHR 0xB7]]],
        Kbd [S ''?''], element ''span'' [plain ''all shortcuts'']]"

definition ErrorBanner :: "string option \<Rightarrow> ui_action node list" where
  "ErrorBanner err =
     (case err of
        None \<Rightarrow> []
      | Some e \<Rightarrow> only_if (e \<noteq> []) (Node ''p'' [(''role'', [S ''alert''])] None [plain e]))"

definition EmptyInbox :: "string option \<Rightarrow> broker_status option \<Rightarrow> ui_action node" where
  "EmptyInbox err status =
     element ''main''
       ([BrandMark]
        @ (case status of None \<Rightarrow> [] | Some s \<Rightarrow> [ConnectionStatus s])
        @ [element ''h1'' [plain ''No pending approvals''],
           element ''p''
             [plain ''Install this PWA on your desktop or phone and keep it ready for the next agent request.'']]
        @ ErrorBanner err)"

definition InboxView :: "approval_request list \<Rightarrow> int \<Rightarrow> bool \<Rightarrow> broker_status \<Rightarrow> ui_action node" where
  "InboxView requests focusedIndex isDesktop status =
     element ''main''
       [element ''header''
          ([BrandMark, ConnectionStatus status, element ''h1'' [plain ''Approvals inbox''],
            element ''p''
              [plain (digits (length requests) @ '' pending ''
                      @ (if length requests = 1 then ''approval'' else ''approvals'') @ middle_dot
                      @ (if isDesktop then ''use the keyboard or tap a card'' else ''tap a card'') @ '' to expand'')]]
           @ only_if isDesktop InboxHints),
        Node ''ul'' [(''aria-label'', [S ''Pending approvals''])] None
          (map (\<lambda>(i, r). InboxItem r (int i = focusedIndex) isDesktop i) (enumerate 0 requests))]"

section \<open>Lemmas\<close>

abbreviation notes_of :: "'a node \<Rightarrow> utext list" where
  "notes_of \<equiv> contents_where (has_class note_class)"

lemma tone_not_note [simp]:
  "fragmentTone v \<noteq> note_class" "line_class l \<noteq> note_class" "''text-foreground'' \<noteq> note_class"
proof -
  show "''text-foreground'' \<noteq> note_class" by (simp add: note_class_def)
  show f: "fragmentTone v \<noteq> note_class" for v by (cases v) (simp_all add: note_class_def)
  show "line_class l \<noteq> note_class" using f by (auto simp: line_class_def note_class_def split: option.split)
qed

lemma Badge_quiet [simp]: "actions (Badge v t) = []" "codes (Badge v t) = []"
  by (simp_all add: Badge_def)

lemma Kbd_quiet [simp]: "actions (Kbd t) = []" "named_actions (Kbd t) = []"
  by (simp_all add: Kbd_def)

lemma hidden_note_quiet [simp]:
  "concat (map actions (hidden_note n w)) = []" "concat (map codes (hidden_note n w)) = []"
  "concat (map notes_of (hidden_note n w)) = (if n > 0 then [[S (''+'' @ digits n @ '' more '' @ w)]] else [])"
  by (simp_all add: hidden_note_def only_if_def)

lemma preview_quiet [simp]: "actions (InboxPreview r) = []" "actions (Eyebrow r) = []"
  by (simp_all add: InboxPreview_def ShellPreview_def ToolPreview_def SectionLabel_def Eyebrow_def
      only_if_def Let_def comp_def split: subject.split)

lemma badges_quiet [simp]: "concat (map actions (InboxBadges r)) = []"
  by (simp add: InboxBadges_def Let_def comp_def split: subject.split)

lemma item_actions [simp]:
  "actions (InboxItem r focused hints i) =
     [OnHover i, OnOpen (rq_id r), OnDecide (rq_id r) ChooseDeny, OnDecide (rq_id r) ChooseAllow]"
  by (simp add: InboxItem_def Let_def only_if_def)

lemma header_quiet [simp]:
  "actions BrandMark = []" "actions (ConnectionStatus s) = []" "actions InboxHints = []"
  by (simp_all add: BrandMark_def ConnectionStatus_def InboxHints_def)

lemma quiet_names [simp]:
  "named_actions (Badge v t) = []" "named_actions BrandMark = []" "named_actions (ConnectionStatus s) = []"
  "named_actions InboxHints = []" "named_actions (Eyebrow r) = []"
  by (simp_all add: Badge_def BrandMark_def ConnectionStatus_def InboxHints_def Eyebrow_def)

lemma hidden_note_names [simp]: "concat (map named_actions (hidden_note n w)) = []"
  by (simp add: hidden_note_def only_if_def)

lemma preview_names [simp]:
  "named_actions (InboxPreview r) = []" "concat (map named_actions (InboxBadges r)) = []"
  by (simp_all add: InboxPreview_def ShellPreview_def ToolPreview_def SectionLabel_def InboxBadges_def
      only_if_def Let_def comp_def split: subject.split)

lemma item_names [simp]:
  "named_actions (InboxItem r focused hints i) =
     [([S (''Open approval for '' @ requestHeadline r)], OnOpen (rq_id r)),
      ([S (''Deny '' @ requestHeadline r)], OnDecide (rq_id r) ChooseDeny),
      ([S (''Allow '' @ requestHeadline r)], OnDecide (rq_id r) ChooseAllow)]"
  by (simp add: InboxItem_def Let_def only_if_def)

section \<open>Properties\<close>

text \<open>
  The inbox offers, for each card in order, to open and to decide that card's own request
  and nothing else: no button acts on another request, and there is no other way to act. The
  accessible name of each button says what it does, by the headline of its own card.
\<close>

lemma inbox_actions_own_card:
  "actions (InboxView requests focusedIndex isDesktop status) =
     concat (map (\<lambda>(i, r). [OnHover i, OnOpen (rq_id r), OnDecide (rq_id r) ChooseDeny,
                            OnDecide (rq_id r) ChooseAllow]) (enumerate 0 requests)) \<and>
   named_actions (InboxView requests focusedIndex isDesktop status) =
     concat (map (\<lambda>r. [([S (''Open approval for '' @ requestHeadline r)], OnOpen (rq_id r)),
                       ([S (''Deny '' @ requestHeadline r)], OnDecide (rq_id r) ChooseDeny),
                       ([S (''Allow '' @ requestHeadline r)], OnDecide (rq_id r) ChooseAllow)]) requests)"
proof -
  have names: "concat (map named_actions (map (\<lambda>(i, r). InboxItem r (int i = focusedIndex) isDesktop i) (enumerate n rs))) =
      concat (map (\<lambda>r. [([S (''Open approval for '' @ requestHeadline r)], OnOpen (rq_id r)),
                       ([S (''Deny '' @ requestHeadline r)], OnDecide (rq_id r) ChooseDeny),
                       ([S (''Allow '' @ requestHeadline r)], OnDecide (rq_id r) ChooseAllow)]) rs)" for n rs
    by (induction rs arbitrary: n) simp_all
  have "named_actions (InboxView requests focusedIndex isDesktop status) =
      concat (map named_actions (map (\<lambda>(i, r). InboxItem r (int i = focusedIndex) isDesktop i) (enumerate 0 requests)))"
    by (simp add: InboxView_def only_if_def)
  note this [unfolded names]
  moreover
  have "actions (InboxView requests focusedIndex isDesktop status) =
          concat (map actions (map (\<lambda>(i, r). InboxItem r (int i = focusedIndex) isDesktop i) (enumerate 0 requests)))"
    by (simp add: InboxView_def only_if_def)
  then have "actions (InboxView requests focusedIndex isDesktop status) =
     concat (map (\<lambda>(i, r). [OnHover i, OnOpen (rq_id r), OnDecide (rq_id r) ChooseDeny,
                            OnDecide (rq_id r) ChooseAllow]) (enumerate 0 requests))"
    by (simp add: comp_def case_prod_unfold)
  ultimately show ?thesis by blast
qed

text \<open>
  A shell card leaves nothing out silently: it shows the first six flagged commands and,
  if the script has more than one line that is not blank, its first twelve such lines in source
  order, and every flagged command or line beyond those is in the count of a note.
\<close>

lemma shell_preview_accounts:
  "\<exists>flaggedHidden linesHidden.
     codes (ShellPreview command fs) =
       map (\<lambda>f. [S (fr_display f)]) (take 6 (flaggedFragments fs)) @
       (if length (visible_lines command fs) > 1
        then map (\<lambda>l. [S (sl_text l)]) (take 12 (visible_lines command fs)) else []) \<and>
     notes_of (ShellPreview command fs) =
       (if flaggedHidden > 0 then [[S (''+'' @ digits flaggedHidden @ '' more flagged command(s)'')]] else []) @
       (if linesHidden > 0 then [[S (''+'' @ digits linesHidden @ '' more script line(s)'')]] else []) \<and>
     min 6 (length (flaggedFragments fs)) + flaggedHidden = length (flaggedFragments fs) \<and>
     min 12 (length (visible_lines command fs)) + linesHidden = length (visible_lines command fs)"
  by (rule exI [of _ "length (flaggedFragments fs) - 6"], rule exI [of _ "length (visible_lines command fs) - 12"])
    (auto simp: ShellPreview_def INBOX_FLAGGED_LINES_def INBOX_SCRIPT_LINES_def SectionLabel_def
      only_if_def Let_def comp_def)

end
