(* ===== verification/DetailView.thy ===== *)
theory DetailView
  imports InboxView JsonHighlight
begin

text \<open>
  The detail screen: \<^verbatim>\<open>apps/web/src/components/approval/detail.tsx\<close> and the JSON view of
  \<^verbatim>\<open>apps/web/src/components/ui/json-view.tsx\<close>. The local state of a component, the open line
  of the script or the chosen view of a tool call, is an argument.
\<close>

section \<open>The JSON view\<close>

fun tokenClass :: "token_kind \<Rightarrow> string" where
  "tokenClass KKey = ''text-[var(--json-key)]''"
| "tokenClass KString = ''text-[var(--json-string)]''"
| "tokenClass KNumber = ''text-[var(--json-number)]''"
| "tokenClass KBoolean = ''text-[var(--json-boolean)]''"
| "tokenClass KNull = ''text-[var(--json-null)]''"
| "tokenClass KPunctuation = ''text-[var(--json-punctuation)]''"

definition JsonView :: "js \<Rightarrow> ui_action node" where
  "JsonView v =
     element ''pre''
       [element ''code''
          (map (\<lambda>t. Node ''span'' [(''class'', [S (tokenClass (tk_kind t))])] None [plain (tk_value t)])
             (tokenizeJson v))]"

section \<open>The shared parts\<close>

definition DetailHero :: "approval_request \<Rightarrow> string \<Rightarrow> ui_action node" where
  "DetailHero r title =
     element ''section'' [Eyebrow r, element ''h1'' [plain title], element ''p'' [plain (rq_currentReason r)]]"

definition pair_row :: "string \<Rightarrow> ui_action node \<Rightarrow> ui_action node" where
  "pair_row k v = element ''div'' [element ''dt'' [plain k], element ''dd'' [v]]"

definition ContextCard :: "approval_request \<Rightarrow> ui_action node" where
  "ContextCard r =
     element ''Card''
       [element ''CardHeader'' [element ''CardTitle'' [plain ''Context'']],
        element ''CardContent''
          [element ''dl''
             [pair_row ''Harness'' (plain (rq_harness r)),
              pair_row ''Session'' (plain (case rq_sessionId r of None \<Rightarrow> ''no session'' | Some s \<Rightarrow> s)),
              pair_row ''Working directory'' (plain (rq_cwd r)),
              pair_row ''Request id'' (plain (rq_id r))]]]"

definition BackButton :: "bool \<Rightarrow> ui_action node" where
  "BackButton showHints =
     Node ''Button'' [(''variant'', [S ''ghost''])] (Some OnBack)
       ([element ''span'' [Text [U 0x2190, S '' All approvals'']]] @ only_if showHints (Kbd [S ''Esc'']))"

definition DecisionBar :: "approval_request \<Rightarrow> bool \<Rightarrow> ui_action node" where
  "DecisionBar r showHints =
     element ''footer''
       [Node ''Button'' [(''variant'', [S ''outline'']), (''aria-label'', [S ''Deny''])]
          (Some (OnDecide (rq_id r) ChooseDeny)) ([plain ''Deny''] @ only_if showHints (Kbd [S ''D''])),
        Node ''Button'' [(''aria-label'', [S ''Allow once''])]
          (Some (OnDecide (rq_id r) ChooseAllow)) ([plain ''Allow once''] @ only_if showHints (Kbd [S ''A'']))]"

section \<open>The detail of a shell request\<close>

definition fragment_panel :: "fragment \<Rightarrow> ui_action node" where
  "fragment_panel f =
     element ''dl''
       ([pair_row ''Verdict'' (VerdictBadge (fr_verdict f)),
         pair_row ''Role'' (plain (fr_role f)),
         pair_row ''Rule'' (plain (case fr_rule f of None \<Rightarrow> ''no matching rule'' | Some s \<Rightarrow> s))]
        @ only_if (fr_reason f \<noteq> []) (pair_row ''Reason'' (plain (fr_reason f))))"

definition script_item :: "nat option \<Rightarrow> nat \<Rightarrow> script_line \<Rightarrow> ui_action node list" where
  "script_item openIndex index ln =
     (if length (js_trim (sl_text ln)) = 0 then []
      else
        (let is_open = (openIndex = Some index) in
         [element ''li''
            (case sl_fragment ln of
               None \<Rightarrow> [Node ''code'' [(''class'', [S ''text-muted-foreground''])] None [plain (sl_text ln)]]
             | Some f \<Rightarrow>
                 [Node ''button''
                    [(''aria-expanded'', [S (if is_open then ''true'' else ''false'')]),
                     (''aria-label'', [S (js_trim (sl_text ln)), S '' '', U 0x2014, S '' '',
                                       S (verdict_string (fr_verdict f))])]
                    (Some (OnLine (if is_open then None else Some index)))
                    [Node ''code'' [(''class'', [S (fragmentTone (fr_verdict f))])] None [plain (sl_text ln)]]]
                 @ only_if is_open (fragment_panel f))]))"

definition ShellScript :: "string \<Rightarrow> fragment list \<Rightarrow> nat option \<Rightarrow> ui_action node" where
  "ShellScript command fragments openIndex =
     Node ''Card'' [(''aria-label'', [S ''Script''])] None
       [element ''CardHeader'' [element ''CardTitle'' [plain ''Script'']],
        element ''CardContent''
          [element ''ul''
             (concat (map (\<lambda>(i, l). script_item openIndex i l) (enumerate 0 (scriptLines command fragments))))]]"

definition flagged_row :: "fragment \<Rightarrow> ui_action node" where
  "flagged_row f =
     element ''div''
       ([element ''code'' [plain (fr_display f)]]
        @ (case fr_rule f of None \<Rightarrow> [] | Some rule \<Rightarrow> only_if (rule \<noteq> []) (element ''small'' [plain rule])))"

definition ShellDetail :: "approval_request \<Rightarrow> string \<Rightarrow> fragment list \<Rightarrow> bool \<Rightarrow> nat option \<Rightarrow> ui_action node" where
  "ShellDetail r command fragments showHints openIndex =
     element ''main''
       [BackButton showHints,
        DetailHero r ''Approve shell command'',
        Node ''Card'' [(''aria-label'', [S ''Flagged commands''])] None
          [element ''CardContent''
             ([element ''span'' [plain ''Needs your attention'']]
              @ map flagged_row (flaggedFragments fragments))],
        ShellScript command fragments openIndex,
        ContextCard r,
        DecisionBar r showHints]"

section \<open>The detail of a tool call\<close>

definition ToolKeyValues :: "string \<Rightarrow> (string \<times> js) list \<Rightarrow> ui_action node" where
  "ToolKeyValues title es =
     element ''div''
       [element ''span'' [plain title],
        (if length es = 0 then element ''span'' [plain ''none'']
         else element ''dl'' (map (\<lambda>(k, v). pair_row k (plain (case v of Str s \<Rightarrow> s
                | _ \<Rightarrow> (case stringify v of None \<Rightarrow> [] | Some s \<Rightarrow> s)))) es))]"

definition view_button :: "tool_view \<Rightarrow> tool_view \<Rightarrow> string \<Rightarrow> string \<Rightarrow> bool \<Rightarrow> ui_action node" where
  "view_button view v name key showHints =
     Node ''Button''
       [(''variant'', [S (if view = v then ''default'' else ''outline'')]), (''aria-label'', [S name]),
        (''aria-pressed'', [S (if view = v then ''true'' else ''false'')])]
       (Some (OnView v)) ([plain name] @ only_if showHints (Kbd [S key]))"

definition ToolDetail :: "approval_request \<Rightarrow> tool_call \<Rightarrow> bool \<Rightarrow> tool_view \<Rightarrow> ui_action node" where
  "ToolDetail r t showHints view =
     element ''main''
       [BackButton showHints,
        DetailHero r ''Approve this tool call'',
        Node ''Card'' [(''aria-label'', [S ''Tool call''])] None
          [element ''CardHeader''
             [element ''CardTitle'' [element ''code'' [plain (tc_name t)]],
              element ''div'' [view_button view Formatted ''Formatted'' ''F'' showHints,
                               view_button view Json ''JSON'' ''J'' showHints]],
           element ''CardContent''
             [(if view = Formatted
               then Node ''section'' [(''aria-label'', [S ''Tool call formatted view''])] None
                      [element ''div'' [Badge ''outline'' [S (''capability: '' @ tc_capability t)]],
                       ToolKeyValues ''Arguments'' (entries (tc_raw t))]
               else Node ''section'' [(''aria-label'', [S ''Tool call JSON view''])] None
                      [JsonView (tc_raw t)])]],
        ContextCard r,
        DecisionBar r showHints]"

definition ApprovalDetail :: "approval_request \<Rightarrow> bool \<Rightarrow> tool_view \<Rightarrow> nat option \<Rightarrow> ui_action node" where
  "ApprovalDetail r showHints view openIndex =
     (case rq_subject r of
        Tool t \<Rightarrow> ToolDetail r t showHints view
      | Shell command fragments \<Rightarrow> ShellDetail r command fragments showHints openIndex)"

section \<open>Lemmas\<close>

lemma pair_row_quiet [simp]:
  "actions (pair_row k v) = actions v" "codes (pair_row k v) = codes v"
  by (simp_all add: pair_row_def)

lemma parts_quiet [simp]:
  "actions (DetailHero r t) = []" "codes (DetailHero r t) = []"
  "actions (ContextCard r) = []" "codes (ContextCard r) = []"
  "actions (BackButton h) = [OnBack]" "codes (BackButton h) = []"
  "actions (fragment_panel f) = []" "codes (fragment_panel f) = []"
  "actions (DecisionBar r h) = [OnDecide (rq_id r) ChooseDeny, OnDecide (rq_id r) ChooseAllow]"
  "codes (DecisionBar r h) = []"
  by (simp_all add: DetailHero_def ContextCard_def BackButton_def fragment_panel_def VerdictBadge_def
      DecisionBar_def Eyebrow_def Kbd_def only_if_def)

lemma script_item_codes:
  "concat (map codes (script_item oi i l)) = (if js_trim (sl_text l) = [] then [] else [[S (sl_text l)]])"
  by (auto simp: script_item_def Let_def only_if_def split: option.split)

lemma script_item_actions:
  "\<forall>a \<in> set (concat (map actions (script_item oi i l))). \<exists>n. a = OnLine n"
  by (auto simp: script_item_def Let_def only_if_def split: option.splits if_splits)

lemma concat_items_codes:
  "concat (map codes (concat (map (\<lambda>(i, l). script_item oi i l) (enumerate n ls)))) =
     map (\<lambda>l. [S (sl_text l)]) (filter (\<lambda>l. js_trim (sl_text l) \<noteq> []) ls)"
  by (induction ls arbitrary: n) (simp_all add: script_item_codes)

lemma script_codes:
  "codes (ShellScript command fs oi) =
     map (\<lambda>s. [S s]) (filter (\<lambda>s. js_trim s \<noteq> []) (split_on newline command))"
proof -
  have "codes (ShellScript command fs oi) =
          map (\<lambda>l. [S (sl_text l)]) (filter (\<lambda>l. js_trim (sl_text l) \<noteq> []) (scriptLines command fs))"
    by (simp add: ShellScript_def concat_items_codes)
  also have "\<dots> = map (\<lambda>s. [S s]) (filter (\<lambda>s. js_trim s \<noteq> []) (map sl_text (scriptLines command fs)))"
    by (simp add: filter_map comp_def)
  finally show ?thesis by (simp add: scriptLines_def script_lines_texts)
qed

lemma flagged_row_codes [simp]:
  "codes (flagged_row f) = [[S (fr_display f)]]" "actions (flagged_row f) = []"
  by (cases "fr_rule f"; simp add: flagged_row_def only_if_def)+

lemma JsonView_codes: "concat (map text_string (codes (JsonView v))) = (case pretty 0 v of None \<Rightarrow> [] | Some j \<Rightarrow> j)"
proof -
  have "text_string (concat (map (\<lambda>t. [S (tk_value t)]) ts)) = concat (map tk_value ts)"
    for ts :: "json_token list"
    by (induction ts) auto
  then show ?thesis
    by (simp add: JsonView_def comp_def tokenizeJson_def highlighter.run_concat del: concat_map_singleton)
qed

section \<open>Properties\<close>

text \<open>
  C15. The detail screen of a shell request hides nothing: whatever line is open, its code texts
  are the displays of all flagged fragments followed by every line of the command that is not
  blank, verbatim and in order; and the only decisions it offers are on this request.
\<close>

theorem shell_detail_shows_command:
  "codes (ShellDetail r command fs showHints openIndex) =
     map (\<lambda>f. [S (fr_display f)]) (flaggedFragments fs) @
     map (\<lambda>s. [S s]) (filter (\<lambda>s. js_trim s \<noteq> []) (split_on newline command)) \<and>
   filter (\<lambda>a. \<forall>n. a \<noteq> OnLine n) (actions (ShellDetail r command fs showHints openIndex)) =
     [OnBack, OnDecide (rq_id r) ChooseDeny, OnDecide (rq_id r) ChooseAllow]"
proof
  show "codes (ShellDetail r command fs showHints openIndex) =
     map (\<lambda>f. [S (fr_display f)]) (flaggedFragments fs) @
     map (\<lambda>s. [S s]) (filter (\<lambda>s. js_trim s \<noteq> []) (split_on newline command))"
    by (simp add: ShellDetail_def script_codes comp_def)
  have "filter (\<lambda>a. \<forall>n. a \<noteq> OnLine n) (actions (ShellScript command fs openIndex)) = []"
    using script_item_actions by (fastforce simp: ShellScript_def filter_empty_conv)
  then show "filter (\<lambda>a. \<forall>n. a \<noteq> OnLine n) (actions (ShellDetail r command fs showHints openIndex)) =
     [OnBack, OnDecide (rq_id r) ChooseDeny, OnDecide (rq_id r) ChooseAllow]"
    by (simp add: ShellDetail_def comp_def)
qed

text \<open>
  The detail screen of a tool call shows what the agent passed: in the JSON view the texts of
  its code elements are the tool's name and the pretty-printed arguments, character for
  character, and in both views the only decisions it offers are on this request.
\<close>

lemma tool_detail_shows_arguments:
  "concat (map text_string (codes (ToolDetail r t showHints Json))) =
     tc_name t @ (case pretty 0 (tc_raw t) of None \<Rightarrow> [] | Some json \<Rightarrow> json) \<and>
   actions (ToolDetail r t showHints view) =
     [OnBack, OnView Formatted, OnView Json, OnDecide (rq_id r) ChooseDeny, OnDecide (rq_id r) ChooseAllow]"
proof
  show "concat (map text_string (codes (ToolDetail r t showHints Json))) =
     tc_name t @ (case pretty 0 (tc_raw t) of None \<Rightarrow> [] | Some json \<Rightarrow> json)"
    by (simp add: ToolDetail_def view_button_def only_if_def JsonView_codes Kbd_def)
  have "actions (JsonView v) = []" for v by (simp add: JsonView_def comp_def)
  moreover have "actions (ToolKeyValues s es) = []" for s es
    by (simp add: ToolKeyValues_def comp_def case_prod_unfold)
  ultimately show "actions (ToolDetail r t showHints view) =
     [OnBack, OnView Formatted, OnView Json, OnDecide (rq_id r) ChooseDeny, OnDecide (rq_id r) ChooseAllow]"
    by (simp add: ToolDetail_def view_button_def only_if_def)
qed

end
