(* ===== verification/AppView.thy ===== *)
theory AppView
  imports DetailView Theme
begin

text \<open>
  The screen as a whole: the setup form of \<^verbatim>\<open>apps/web/src/components/broker-setup.tsx\<close>, the
  shortcuts panel of \<^verbatim>\<open>apps/web/src/components/approval/shortcuts.tsx\<close> with the
  documentation it prints (\<open>SHORTCUT_GROUPS\<close> of \<^verbatim>\<open>apps/web/src/lib/keyboard.ts\<close>), and what
  \<^verbatim>\<open>apps/web/src/App.tsx\<close> returns: one main view with the controls around it, the theme
  toggle of \<^verbatim>\<open>apps/web/src/components/theme-toggle.tsx\<close> with its icons.
\<close>

section \<open>The setup form\<close>

definition BrokerSetup :: "(string \<Rightarrow> string option) \<Rightarrow> bool \<Rightarrow> string \<Rightarrow> ui_action node" where
  "BrokerSetup url_protocol reconfiguring v =
     (let valid = isValidBrokerBase url_protocol (js_trim v);
          showError = setup_shows_error url_protocol v
      in element ''main''
           [BrandMark,
            element ''h1'' [plain (if reconfiguring then ''Change your broker'' else ''Connect to your broker'')],
            element ''p''
              [Text [S (''allowlister-remote relays approval requests through a broker you run. Enter its URL to ''
                        @ ''connect this device ''), U 0x2014, S '' it is saved on this device only.'']],
            element ''form''
              ([element ''label''
                  [plain ''Broker URL'',
                   Node ''input'' [(''value'', [S v]), (''aria-invalid'', [S (if showError then ''true'' else ''false'')])]
                     None []]]
               @ only_if showError
                   (Node ''p'' [(''role'', [S ''alert''])] None
                      [plain ''Enter a '', element ''code'' [plain ''ws://''], plain '' or '',
                       element ''code'' [plain ''wss://''], plain '' URL.''])
               @ [element ''div''
                    (only_if reconfiguring
                       (Node ''Button'' [(''variant'', [S ''outline''])] (Some OnCancelReconfigure) [plain ''Cancel''])
                     @ [Node ''Button'' [(''type'', [S ''submit'']), (''disabled'', [S (if valid then ''false'' else ''true'')])]
                          (if valid then Some OnSubmitBroker else None) [plain ''Connect'']])]),
            element ''p''
              [plain ''Tip: open this app with '', element ''code'' [Text [S ''?broker=wss://'', U 0x2026]],
               plain '' to set the broker automatically.'']])"

section \<open>The shortcuts panel\<close>

type_synonym shortcut_doc = "utext list \<times> string"

definition SHORTCUT_GROUPS :: "(string \<times> shortcut_doc list) list" where
  "SHORTCUT_GROUPS =
     [(''Global'', [([[S ''?'']], ''Show or hide this shortcuts panel'')]),
      (''Approvals inbox'',
         [([[U 0x2193]], ''Focus the next approval''),
          ([[U 0x2191]], ''Focus the previous approval''),
          ([[S ''Enter''], [S ''O'']], ''Open the focused approval''),
          ([[S ''A'']], ''Allow the focused approval''),
          ([[S ''D'']], ''Deny the focused approval'')]),
      (''Approval detail'',
         [([[S ''A'']], ''Allow this request''),
          ([[S ''D'']], ''Deny this request''),
          ([[S ''Esc''], [S ''B'']], ''Back to the inbox''),
          ([[S ''F''], [S ''J'']], ''Tool calls: formatted / JSON view'')])]"

definition ShortcutsHint :: "ui_action node" where
  "ShortcutsHint =
     element ''div''
       [Node ''Button'' [(''variant'', [S ''outline'']), (''aria-label'', [S ''Show keyboard shortcuts''])]
          (Some OnOpenPanel) [plain ''Shortcuts'', Kbd [S ''?'']]]"

definition shortcut_section :: "string \<times> shortcut_doc list \<Rightarrow> ui_action node" where
  "shortcut_section grp =
     element ''section''
       [element ''h3'' [plain (fst grp)],
        element ''dl''
          (map (\<lambda>(keys, description).
                  element ''div'' [element ''dt'' [plain description], element ''dd'' (map Kbd keys)]) (snd grp))]"

definition ShortcutsOverlay :: "ui_action node" where
  "ShortcutsOverlay =
     Node ''div'' [(''role'', [S ''dialog'']), (''aria-modal'', [S ''true''])] None
       [element ''Card''
          [element ''CardHeader''
             [element ''CardTitle'' [plain ''Keyboard shortcuts''],
              Node ''Button'' [(''variant'', [S ''ghost'']), (''aria-label'', [S ''Close shortcuts''])]
                (Some OnClosePanel) [plain ''Close'', Kbd [S ''Esc'']]],
           element ''CardContent'' (map shortcut_section SHORTCUT_GROUPS)]]"

section \<open>The screen\<close>

definition no_service_worker :: string where
  "no_service_worker = ''This browser has no service worker, which allowlister-remote requires.''"

text \<open>The text in the setup form's field is the form's own state.\<close>

definition render_main :: "browser \<Rightarrow> app \<Rightarrow> string \<Rightarrow> ui_action node" where
  "render_main br s field =
     (case MainView s of
        NoServiceWorkerView \<Rightarrow> EmptyInbox (Some no_service_worker) None
      | SetupView \<Rightarrow> BrokerSetup (br_url_protocol br) (ap_reconfiguring s) field
      | DetailView r \<Rightarrow> ApprovalDetail r (ap_isDesktop s) (ap_toolView s) (ap_openLine s)
      | EmptyView \<Rightarrow> EmptyInbox None (Some (ap_brokerStatus s))
      | InboxListView \<Rightarrow>
          InboxView (ap_requests s) (ap_focusedIndex s) (ap_isDesktop s) (ap_brokerStatus s))"

text \<open>The icons: an outline drawing, hidden from assistive technology.\<close>

definition svg_icon :: "ui_action node list \<Rightarrow> ui_action node" where
  "svg_icon shapes =
     Node ''svg''
       [(''viewBox'', [S ''0 0 24 24'']), (''width'', [S ''16'']), (''height'', [S ''16'']), (''fill'', [S ''none'']),
        (''stroke'', [S ''currentColor'']), (''strokeWidth'', [S ''2'']), (''strokeLinecap'', [S ''round'']),
        (''strokeLinejoin'', [S ''round'']), (''aria-hidden'', [S ''true''])] None shapes"

definition svg_shape :: "string \<Rightarrow> (string \<times> string) list \<Rightarrow> ui_action node" where
  "svg_shape tag attrs = Node tag (map (\<lambda>(k, v). (k, [S v])) attrs) None []"

definition SunIcon :: "ui_action node" where
  "SunIcon =
     svg_icon
       [svg_shape ''circle'' [(''cx'', ''12''), (''cy'', ''12''), (''r'', ''4'')],
        svg_shape ''path''
          [(''d'', ''M12 2v2M12 20v2M4.93 4.93l1.41 1.41M17.66 17.66l1.41 1.41M2 12h2M20 12h2M6.34 17.66l-1.41 1.41M19.07 4.93l-1.41 1.41'')]]"

definition MoonIcon :: "ui_action node" where
  "MoonIcon = svg_icon [svg_shape ''path'' [(''d'', ''M21 12.79A9 9 0 1 1 11.21 3 7 7 0 0 0 21 12.79z'')]]"

definition MonitorIcon :: "ui_action node" where
  "MonitorIcon =
     svg_icon
       [svg_shape ''rect'' [(''x'', ''2''), (''y'', ''3''), (''width'', ''20''), (''height'', ''14''), (''rx'', ''2'')],
        svg_shape ''path'' [(''d'', ''M8 21h8M12 17v4'')]]"

fun ICONS :: "preference \<Rightarrow> ui_action node" where
  "ICONS System = MonitorIcon"
| "ICONS Light = SunIcon"
| "ICONS Dark = MoonIcon"

lemma icon_silent [simp]: "actions (ICONS p) = []" "content (ICONS p) = []"
  by (cases p; simp add: MonitorIcon_def SunIcon_def MoonIcon_def svg_icon_def svg_shape_def)+

definition ThemeToggle :: "preference \<Rightarrow> ui_action node" where
  "ThemeToggle p =
     Node ''Button'' [(''variant'', [S ''outline'']), (''aria-label'', [S (toggle_label p)])]
       (Some OnToggleTheme) [ICONS p, element ''span'' [plain (LABELS p)]]"

definition render_app :: "browser \<Rightarrow> app \<Rightarrow> preference \<Rightarrow> string \<Rightarrow> ui_action node list" where
  "render_app br s p field =
     [element ''div''
        (only_if (canChangeBroker s)
           (Node ''Button'' [(''variant'', [S ''outline'']), (''aria-label'', [S ''Change broker''])]
              (Some OnChangeBroker) [plain ''Broker''])
         @ [ThemeToggle p])]
     @ [render_main br s field]
     @ only_if (ap_isDesktop s \<and> \<not> ap_showShortcuts s \<and> \<not> settingUpBroker s) ShortcutsHint
     @ only_if (ap_isDesktop s \<and> ap_showShortcuts s) ShortcutsOverlay"

section \<open>Lemmas\<close>

text \<open>The key a cap stands for.\<close>

definition lower :: "char \<Rightarrow> char" where
  "lower c = (let n = of_char c :: nat in if 65 \<le> n \<and> n \<le> 90 then char_of (n + 32) else c)"

fun cap_key :: "utext \<Rightarrow> string" where
  "cap_key [U n] = (if n = 0x2193 then ''ArrowDown'' else if n = 0x2191 then ''ArrowUp'' else [])"
| "cap_key [S s] =
     (if s = ''Esc'' then ''Escape'' else if length s = 1 then map lower s else s)"
| "cap_key t = []"

definition documented :: "string \<Rightarrow> string list" where
  "documented title =
     (case map_of SHORTCUT_GROUPS title of
        None \<Rightarrow> []
      | Some docs \<Rightarrow> map cap_key (concat (map fst docs)))"

lemma lower_simps:
  "lower (CHR ''O'') = CHR ''o''" "lower (CHR ''A'') = CHR ''a''" "lower (CHR ''D'') = CHR ''d''"
  "lower (CHR ''B'') = CHR ''b''" "lower (CHR ''F'') = CHR ''f''" "lower (CHR ''J'') = CHR ''j''"
  "lower (CHR ''?'') = CHR ''?''"
  by code_simp+

text \<open>The decisions offered anywhere on the screen.\<close>

definition offered :: "ui_action node list \<Rightarrow> (string \<times> choice) list" where
  "offered ns = concat (map (\<lambda>a. case a of OnDecide ident v \<Rightarrow> [(ident, v)] | _ \<Rightarrow> []) (concat (map actions ns)))"

definition offered_in :: "ui_action node \<Rightarrow> (string \<times> choice) list" where
  "offered_in n = concat (map (\<lambda>a. case a of OnDecide ident v \<Rightarrow> [(ident, v)] | _ \<Rightarrow> []) (actions n))"

lemma offered_simps [simp]:
  "offered [] = []" "offered (n # ns) = offered_in n @ offered ns" "offered (ns @ ms) = offered ns @ offered ms"
  by (simp_all add: offered_def offered_in_def)

lemma offered_only_if [simp]: "offered (only_if b n) = (if b then offered_in n else [])"
  by (simp add: only_if_def)

lemma offered_none [simp]:
  "offered_in (EmptyInbox e st) = []" "offered_in (BrokerSetup p r v) = []" "offered_in ShortcutsHint = []"
proof -
  show "offered_in (EmptyInbox e st) = []"
    by (cases e; cases st) (simp_all add: offered_in_def EmptyInbox_def ErrorBanner_def only_if_def)
qed (simp_all add: offered_in_def BrokerSetup_def ShortcutsHint_def only_if_def Let_def)

lemma offered_overlay [simp]: "offered_in ShortcutsOverlay = []"
  by (simp add: offered_in_def ShortcutsOverlay_def SHORTCUT_GROUPS_def shortcut_section_def)

lemma offered_inbox [simp]:
  "offered_in (InboxView rs i d st) = concat (map (\<lambda>r. [(rq_id r, ChooseDeny), (rq_id r, ChooseAllow)]) rs)"
proof -
  have "actions (InboxView rs i d st) = concat (map actions (map (\<lambda>(j, r). InboxItem r (int j = i) d j) (enumerate 0 rs)))"
    by (simp add: InboxView_def only_if_def)
  moreover have "concat (map (\<lambda>a. case a of OnDecide ident v \<Rightarrow> [(ident, v)] | _ \<Rightarrow> [])
      (concat (map actions (map (\<lambda>(j, r). InboxItem r (int j = i) d j) (enumerate n rs))))) =
      concat (map (\<lambda>r. [(rq_id r, ChooseDeny), (rq_id r, ChooseAllow)]) rs)" for n
    by (induction rs arbitrary: n) simp_all
  ultimately show ?thesis by (simp add: offered_in_def)
qed

lemma offered_lines:
  "\<forall>a \<in> set as. \<exists>n. a = OnLine n \<Longrightarrow>
     concat (map (\<lambda>a. case a of OnDecide ident v \<Rightarrow> [(ident, v)] | _ \<Rightarrow> []) as) = []"
  by (induction as) auto

lemma offered_detail [simp]:
  "offered_in (ApprovalDetail r h v oi) = [(rq_id r, ChooseDeny), (rq_id r, ChooseAllow)]"
proof (cases "rq_subject r")
  case (Shell c fs)
  have "\<forall>a \<in> set (actions (ShellScript c fs oi)). \<exists>n. a = OnLine n"
    using script_item_actions by (fastforce simp: ShellScript_def)
  from offered_lines [OF this] show ?thesis
    by (simp add: ApprovalDetail_def Shell offered_in_def ShellDetail_def comp_def)
next
  case (Tool t)
  have "actions (JsonView v) = []" for v by (simp add: JsonView_def comp_def)
  moreover have "actions (ToolKeyValues s es) = []" for s es
    by (simp add: ToolKeyValues_def comp_def case_prod_unfold)
  ultimately show ?thesis
    by (simp add: ApprovalDetail_def Tool offered_in_def ToolDetail_def view_button_def only_if_def)
qed

section \<open>Properties\<close>

text \<open>
  The shortcuts panel tells the truth: the keys it documents for the inbox and for the
  detail view are exactly the keys bound there, and its global key is the one that toggles it.
\<close>

lemma documented_shortcuts_bound:
  "set (documented ''Approvals inbox'') = dom inbox_keys \<and>
   set (documented ''Approval detail'') = dom detail_keys \<union> dom tool_keys \<and>
   documented ''Global'' = [''?''] \<and>
   key_action s ''?'' = (if ap_isDesktop s \<and> \<not> settingUpBroker s then Some TogglePanel else None)"
  by (auto simp: documented_def SHORTCUT_GROUPS_def lower_simps inbox_keys_def detail_keys_def tool_keys_def
      key_action_def split: if_splits)

text \<open>
  C16. The screen and the app agree: the decisions a rendered screen offers are, card by card,
  the denial and the approval of the requests it shows, the whole inbox or the one request
  opened, and it offers none while the broker is set up or without a service worker.
\<close>

theorem screen_offers_shown_requests:
  "offered (render_app br s p field) =
     concat (map (\<lambda>r. [(rq_id r, ChooseDeny), (rq_id r, ChooseAllow)])
       (case MainView s of
          DetailView r \<Rightarrow> [r]
        | InboxListView \<Rightarrow> ap_requests s
        | _ \<Rightarrow> []))"
proof -
  have "offered_in (element ''div'' (only_if c (Node t as (Some OnChangeBroker) [plain x]) @ [ThemeToggle p])) = []"
    for c t as x
    by (simp add: offered_in_def only_if_def ThemeToggle_def)
  then show ?thesis by (simp add: render_app_def render_main_def split: main_view.split)
qed

end
