(* ===== verification/Registration.thy ===== *)
theory Registration
  imports Prelude
begin

text \<open>
  \<^verbatim>\<open>apps/web/src/pwa/register-service-worker.tsx\<close>: what a page does when it is loaded, to have the
  service worker registered and to be allowed to show notifications. A call can be answered by a
  promise that is fulfilled or rejected, or throw at once. The machine below is a browser whose
  user loads pages and answers the question for the permission, which the browser keeps.
\<close>

section \<open>The code\<close>

datatype permission = DefaultPermission | Granted | Denied

datatype answer = Fulfils | Rejects | Throws

datatype registration_call = RegisterWorker string | RequestPermission

text \<open>The calls that are made, and whether an exception leaves the function; \<open>None\<close> for a browser
  without \<open>Notification\<close>.\<close>

definition requestNotificationPermission ::
    "permission option \<Rightarrow> answer \<Rightarrow> registration_call list \<times> bool" where
  "requestNotificationPermission perm asked =
     (if perm = None \<or> perm \<noteq> Some DefaultPermission then ([], False)
      else
        (case asked of
           Fulfils \<Rightarrow> ([RequestPermission], False)
         | Rejects \<Rightarrow> ([RequestPermission], False)
         | Throws \<Rightarrow> ([RequestPermission], False)))"

definition register_effect ::
    "bool \<Rightarrow> permission option \<Rightarrow> answer \<Rightarrow> answer \<Rightarrow> registration_call list \<times> bool" where
  "register_effect has_worker perm registered asked =
     (if \<not> has_worker then ([], False)
      else
        (case registered of
           Throws \<Rightarrow> ([RegisterWorker ''/sw.js''], True)
         | _ \<Rightarrow>
             (case requestNotificationPermission perm asked of
                (calls, thrown) \<Rightarrow> (RegisterWorker ''/sw.js'' # calls, thrown))))"

section \<open>Pages and answers\<close>

record visitor =
  vs_worker :: bool
  vs_permission :: "permission option"
  vs_calls :: "registration_call list"

datatype visit = LoadPage answer answer | AnswerPermission bool

fun visit_step :: "visitor \<Rightarrow> visit \<Rightarrow> visitor" where
  "visit_step v (LoadPage registered asked) =
     v\<lparr>vs_calls := vs_calls v @ fst (register_effect (vs_worker v) (vs_permission v) registered asked)\<rparr>"
| "visit_step v (AnswerPermission yes) =
     (if vs_permission v = Some DefaultPermission
      then v\<lparr>vs_permission := Some (if yes then Granted else Denied)\<rparr> else v)"

definition questions :: "visitor \<Rightarrow> registration_call list" where
  "questions v = filter (\<lambda>c. c = RequestPermission) (vs_calls v)"

definition answered :: "visitor \<Rightarrow> bool" where
  "answered v \<longleftrightarrow> vs_permission v \<noteq> Some DefaultPermission"

lemma answered_step: "answered v \<Longrightarrow> answered (visit_step v e)"
  by (cases e) (simp_all add: answered_def)

interpretation settled_visitor: event_machine visit_step answered
  by unfold_locales (rule answered_step)

lemma answered_quiet: "answered v \<Longrightarrow> questions (visit_step v e) = questions v"
  by (cases e)
    (auto simp: answered_def questions_def register_effect_def requestNotificationPermission_def
      split: answer.splits)

section \<open>What the comments promise\<close>

text \<open>A user who has answered is not asked again, whatever pages are loaded.\<close>

lemma never_asked_again: "answered v \<Longrightarrow> questions (foldl visit_step v es) = questions v"
  by (rule settled_visitor.run_frame [OF answered_quiet])

text \<open>Neither a failed registration nor a failed question stops the page; the question is asked
  after the registration, and only for a worker that could show the notification.\<close>

lemma registration_never_blocks:
  assumes "registered \<noteq> Throws"
  shows "register_effect has_worker perm registered asked =
           (if has_worker
            then RegisterWorker ''/sw.js'' # (if perm = Some DefaultPermission then [RequestPermission] else [])
            else [], False)"
  using assms by (auto simp: register_effect_def requestNotificationPermission_def split: answer.splits)

end
