(* ===== verification/NodePath.thy ===== *)
theory NodePath
  imports Prelude
begin

text \<open>
  The operations of \<open>node:path\<close> that the scripts call, those of a POSIX system, on strings as
  Node computes them, and facts about normalized absolute paths.
\<close>

section \<open>node:path\<close>

fun norm_segs :: "bool \<Rightarrow> string list \<Rightarrow> string list \<Rightarrow> string list" where
  "norm_segs absolute acc [] = rev acc"
| "norm_segs absolute acc (s # ss) =
     (if s = [] \<or> s = ''.'' then norm_segs absolute acc ss
      else if s = ''..'' then
        (case acc of
           [] \<Rightarrow> norm_segs absolute (if absolute then [] else [s]) ss
         | a # as \<Rightarrow> norm_segs absolute (if a = ''..'' then s # acc else as) ss)
      else norm_segs absolute (s # acc) ss)"

definition slash :: char where
  "slash = CHR ''/''"

definition is_absolute :: "string \<Rightarrow> bool" where
  "is_absolute p \<longleftrightarrow> p \<noteq> [] \<and> hd p = slash"

definition path_normalize :: "string \<Rightarrow> string" where
  "path_normalize p =
     (if p = [] then ''.''
      else
        (let absolute = is_absolute p; trailing = (last p = slash);
             body = join [slash] (norm_segs absolute [] (split_on slash p))
         in if body = []
            then (if absolute then [slash] else if trailing then ''./'' else ''.'')
            else (if absolute then [slash] else []) @ body @ (if trailing then [slash] else [])))"

text \<open>\<open>resolve(dir, p)\<close> for an absolute directory.\<close>

definition path_resolve :: "string \<Rightarrow> string \<Rightarrow> string" where
  "path_resolve dir p =
     [slash] @ join [slash] (norm_segs True [] (split_on slash (if is_absolute p then p else dir @ [slash] @ p)))"

definition path_join :: "string \<Rightarrow> string \<Rightarrow> string" where
  "path_join dir name = path_normalize (dir @ [slash] @ name)"

text \<open>\<open>dirname\<close> drops the last segment with the slashes after it and the one before it;
  \<open>basename\<close> is that segment.\<close>

definition dirname :: "string \<Rightarrow> string" where
  "dirname p =
     (let root = is_absolute p;
          parent = dropWhile (\<lambda>c. c \<noteq> slash) (dropWhile (\<lambda>c. c = slash) (rev (drop 1 p)))
      in if parent = [] then (if root then [slash] else ''.'')
         else if root \<and> length parent = 1 then [slash, slash]
         else take (length parent) p)"

definition basename :: "string \<Rightarrow> string" where
  "basename p = rev (takeWhile (\<lambda>c. c \<noteq> slash) (dropWhile (\<lambda>c. c = slash) (rev p)))"

definition dot :: char where
  "dot = CHR ''.''"

text \<open>\<open>extname\<close>: from the last dot of the last segment, unless the segment starts with it.\<close>

definition extname :: "string \<Rightarrow> string" where
  "extname p =
     (let base = last (split_on slash p);
          tail = rev (takeWhile (\<lambda>c. c \<noteq> dot) (rev base));
          stem = length base - length tail
      in if stem \<le> 1 \<or> base = ''..'' then [] else drop (stem - 1) base)"

section \<open>Absolute paths of proper segments\<close>

definition proper_seg :: "string \<Rightarrow> bool" where
  "proper_seg s \<longleftrightarrow> s \<noteq> [] \<and> s \<noteq> ''.'' \<and> s \<noteq> ''..'' \<and> slash \<notin> set s"

lemma norm_segs_proper:
  assumes "\<forall>s \<in> set ss. slash \<notin> set s" and "\<forall>s \<in> set acc. proper_seg s"
  shows "\<forall>s \<in> set (norm_segs True acc ss). proper_seg s"
  using assms
proof (induction ss arbitrary: acc)
  case Nil
  then show ?case by simp
next
  case (Cons s ss)
  have rest: "\<forall>s \<in> set ss. slash \<notin> set s" using Cons.prems(1) by simp
  note ih = Cons.IH [OF rest]
  show ?case
  proof (cases "s = [] \<or> s = ''.''")
    case True
    then show ?thesis using ih [OF Cons.prems(2)] by auto
  next
    case False
    show ?thesis
    proof (cases "s = ''..''")
      case True
      show ?thesis
      proof (cases acc)
        case Nil
        then show ?thesis using True ih [of "[]"] by simp
      next
        case (Cons a as)
        then have "a \<noteq> ''..''" "\<forall>s \<in> set as. proper_seg s"
          using \<open>\<forall>s \<in> set acc. proper_seg s\<close> by (simp_all add: proper_seg_def)
        then show ?thesis using True Cons ih [of as] by simp
      qed
    next
      case no_parent: False
      have "slash \<notin> set s" using Cons.prems(1) by (metis list.set_intros(1))
      then have "proper_seg s" using False no_parent by (auto simp: proper_seg_def)
      then have p: "\<forall>t \<in> set (s # acc). proper_seg t" using Cons.prems(2) by (metis set_ConsD)
      have "norm_segs True acc (s # ss) = norm_segs True (s # acc) ss" using False no_parent by simp
      then show ?thesis using ih [OF p] by metis
    qed
  qed
qed

lemma norm_segs_id: "\<forall>s \<in> set ss. proper_seg s \<Longrightarrow> norm_segs True acc ss = rev acc @ ss"
proof (induction ss arbitrary: acc)
  case Nil
  then show ?case by simp
next
  case (Cons s ss)
  then have "s \<noteq> [] \<and> s \<noteq> ''.'' \<and> s \<noteq> ''..''" by (simp add: proper_seg_def)
  then have "norm_segs True acc (s # ss) = norm_segs True (s # acc) ss" by simp
  also have "\<dots> = rev (s # acc) @ ss" using Cons by simp
  finally show ?case by simp
qed

lemma split_on_append:
  "c \<notin> set p \<Longrightarrow> split_on c (p @ c # r) = p # split_on c r"
  by (induction p) auto

lemma split_on_single: "c \<notin> set p \<Longrightarrow> split_on c p = [p]"
  by (induction p) auto

text \<open>The absolute path of a list of proper segments.\<close>

definition abs_path :: "string list \<Rightarrow> string" where
  "abs_path ss = [slash] @ join [slash] ss"

lemma split_abs_path:
  assumes "ss \<noteq> []" and "\<forall>s \<in> set ss. proper_seg s"
  shows "split_on slash (abs_path ss) = [] # ss"
proof -
  have "split_on slash (join [slash] ss) = ss" using assms
  proof (induction ss)
    case Nil
    then show ?case by simp
  next
    case (Cons s ss)
    then show ?case
      by (cases ss) (auto simp: proper_seg_def split_on_append split_on_single)
  qed
  then show ?thesis by (simp add: abs_path_def)
qed

lemma join_snoc: "ss \<noteq> [] \<Longrightarrow> join sep (ss @ [s]) = join sep ss @ sep @ s"
proof (induction ss)
  case Nil
  then show ?case by simp
next
  case (Cons a ss)
  then show ?case by (cases ss) auto
qed

lemma join_append:
  "ss \<noteq> [] \<Longrightarrow> ns \<noteq> [] \<Longrightarrow> join sep (ss @ ns) = join sep ss @ sep @ join sep ns"
proof (induction ss)
  case Nil
  then show ?case by simp
next
  case (Cons a ss)
  then show ?case by (cases ss) (auto simp: join_Cons)
qed

lemma abs_path_snoc: "ss \<noteq> [] \<Longrightarrow> abs_path ss @ [slash] @ s = abs_path (ss @ [s])"
  by (simp add: abs_path_def join_snoc)

lemma abs_path_last:
  assumes "ss \<noteq> []" and "\<forall>s \<in> set ss. proper_seg s"
  shows "last (abs_path ss) \<noteq> slash"
proof -
  obtain bs s where ss: "ss = bs @ [s]" using assms(1) by (cases ss rule: rev_cases) auto
  have s: "s \<noteq> []" "slash \<notin> set s" using assms(2) by (auto simp: ss proper_seg_def)
  then have "last s \<noteq> slash" by (metis last_in_set)
  moreover have "last (abs_path ss) = last s"
    using s(1) by (cases "bs = []") (simp_all add: ss abs_path_def join_snoc)
  ultimately show ?thesis by simp
qed

lemma normalize_abs_path:
  assumes "ss \<noteq> []" and "\<forall>s \<in> set ss. proper_seg s"
  shows "path_normalize (abs_path ss) = abs_path ss"
proof -
  have a: "is_absolute (abs_path ss)" "abs_path ss \<noteq> []" by (simp_all add: abs_path_def is_absolute_def)
  have j: "join [slash] ss \<noteq> []" using assms by (cases ss rule: remdups_adj.cases) (auto simp: proper_seg_def)
  have "norm_segs True [] (split_on slash (abs_path ss)) = ss"
    using norm_segs_id [OF assms(2), of "[]"] by (simp add: split_abs_path [OF assms])
  then have "path_normalize (abs_path ss) = [slash] @ join [slash] ss"
    using a j abs_path_last [OF assms] by (simp add: path_normalize_def Let_def)
  then show ?thesis by (simp add: abs_path_def)
qed

lemma join_index:
  assumes "ss \<noteq> []" and "\<forall>s \<in> set ss. proper_seg s"
  shows "path_join (abs_path ss) ''index.html'' = abs_path ss @ ''/index.html''"
proof -
  have "proper_seg ''index.html''" by (simp add: proper_seg_def slash_def)
  then have p: "\<forall>s \<in> set (ss @ [''index.html'']). proper_seg s" using assms(2) by auto
  have e: "abs_path ss @ [slash] @ ''index.html'' = abs_path (ss @ [''index.html''])"
    using assms(1) by (rule abs_path_snoc)
  have n: "path_normalize (abs_path (ss @ [''index.html''])) = abs_path (ss @ [''index.html''])"
    by (rule normalize_abs_path [OF _ p]) simp
  show ?thesis unfolding path_join_def e n by (simp add: e [symmetric] slash_def)
qed

lemma resolve_abs_path: "\<exists>ss. path_resolve dir p = abs_path ss \<and> (\<forall>s \<in> set ss. proper_seg s)"
proof -
  let ?ss = "split_on slash (if is_absolute p then p else dir @ [slash] @ p)"
  have "\<forall>s \<in> set ?ss. slash \<notin> set s" using split_on_pieces by blast
  then have "\<forall>s \<in> set (norm_segs True [] ?ss). proper_seg s" by (intro norm_segs_proper) auto
  then show ?thesis
    by (intro exI [of _ "norm_segs True [] ?ss"]) (simp add: path_resolve_def abs_path_def)
qed

definition proper_dir :: "string \<Rightarrow> bool" where
  "proper_dir dir \<longleftrightarrow> (\<exists>ss. ss \<noteq> [] \<and> (\<forall>s \<in> set ss. proper_seg s) \<and> dir = abs_path ss)"

lemma join_proper_dir:
  assumes "proper_dir dir" and "names \<noteq> []" and "\<forall>s \<in> set names. proper_seg s"
  shows "path_join dir (join [slash] names) = dir @ [slash] @ join [slash] names"
proof -
  obtain ss where ss: "ss \<noteq> []" "\<forall>s \<in> set ss. proper_seg s" "dir = abs_path ss"
    using assms(1) by (auto simp: proper_dir_def)
  have "join [slash] (ss @ names) = join [slash] ss @ [slash] @ join [slash] names"
    by (rule join_append [OF ss(1) assms(2)])
  then have e: "dir @ [slash] @ join [slash] names = abs_path (ss @ names)"
    by (simp add: ss(3) abs_path_def)
  have "path_normalize (abs_path (ss @ names)) = abs_path (ss @ names)"
    by (rule normalize_abs_path) (use ss assms in auto)
  then show ?thesis by (simp add: path_join_def e [simplified])
qed

text \<open>Going up ends: every step but the last shortens the path, or reaches the current directory.\<close>

definition path_height :: "string \<Rightarrow> nat" where
  "path_height p = (if p = ''.'' then 0 else if p = [] then 2 else length p)"

lemma dirname_height:
  assumes "dirname p \<noteq> p"
  shows "path_height (dirname p) < path_height p"
proof -
  let ?b = "dropWhile (\<lambda>c. c \<noteq> slash) (dropWhile (\<lambda>c. c = slash) (rev (drop 1 p)))"
  have len: "length ?b \<le> length p - 1"
    using length_dropWhile_le [of "\<lambda>c. c \<noteq> slash" "dropWhile (\<lambda>c. c = slash) (rev (drop 1 p))"]
      length_dropWhile_le [of "\<lambda>c. c = slash" "rev (drop 1 p)"] by simp
  show ?thesis
  proof (cases "?b = []")
    case True
    have d: "dirname p = (if is_absolute p then [slash] else ''.'')"
      unfolding dirname_def Let_def True by simp
    show ?thesis
    proof (cases "is_absolute p")
      case True
      then have "p \<noteq> [] \<and> hd p = slash \<and> p \<noteq> [slash]" using d assms by (auto simp: is_absolute_def)
      then have "1 < length p \<and> p \<noteq> ''.''" by (cases p; cases "tl p") (auto simp: slash_def)
      then show ?thesis using True d by (auto simp: path_height_def slash_def)
    next
      case False
      then show ?thesis using d assms by (simp add: path_height_def)
    qed
  next
    case False
    then have "0 < length ?b" by (simp only: length_greater_0_conv not_False_eq_True)
    then have p: "1 < length p" using len by linarith
    have "length (dirname p) < length p \<and> dirname p \<noteq> []"
    proof (cases "is_absolute p \<and> length ?b = 1")
      case True
      have "length p \<noteq> 2"
      proof
        assume "length p = 2"
        then obtain a b where "p = [a, b]" by (auto simp: length_Suc_conv eval_nat_numeral)
        then show False using False by (simp split: if_splits)
      qed
      moreover have "dirname p = [slash, slash]" using True False unfolding dirname_def Let_def by (simp only: if_True if_False conj_assoc simp_thms)
      ultimately show ?thesis using p by simp
    next
      case no: False
      then have d: "dirname p = take (length ?b) p"
        using False unfolding dirname_def Let_def by (simp only: if_False)
      have "p \<noteq> []" using p by auto
      then have "length (take (length ?b) p) < length p \<and> 0 < length (take (length ?b) p)"
        using len p \<open>0 < length ?b\<close> by (simp only: length_take) linarith
      then show ?thesis unfolding d by (metis length_greater_0_conv)
    qed
    moreover have "p \<noteq> ''.''" using p by auto
    ultimately show ?thesis using p by (auto simp: path_height_def)
  qed
qed

section \<open>Resolving a path that has been joined\<close>

text \<open>The names a path leads through, from the root.\<close>

definition segs :: "string \<Rightarrow> string \<Rightarrow> string list" where
  "segs cwd p = norm_segs True [] (split_on slash (if is_absolute p then p else cwd @ [slash] @ p))"

text \<open>\<open>join\<close> leaves out empty parts.\<close>

definition join_path :: "string \<Rightarrow> string \<Rightarrow> string" where
  "join_path dir name = (if dir = [] then path_normalize name else path_join dir name)"

lemma split_on_app: "split_on c (p @ c # r) = split_on c p @ split_on c r"
  by (induction p) (auto split: list.splits)

lemma norm_segs_app: "norm_segs absolute acc (xs @ ys) = norm_segs absolute (rev (norm_segs absolute acc xs)) ys"
  by (induction absolute acc xs rule: norm_segs.induct) (auto split: list.splits)

lemma norm_segs_skip:
  assumes "a \<noteq> []" "a \<noteq> ''.''" "a \<noteq> ''..''"
  shows "norm_segs True acc (xs @ a # ''..'' # ps) = norm_segs True acc (xs @ ps)"
  using assms by (simp add: norm_segs_app [of _ _ xs])

lemma norm_segs_relative:
  "\<forall>s \<in> set racc. s \<noteq> [] \<and> s \<noteq> ''.'' \<Longrightarrow> norm_segs True acc (norm_segs False racc ps) = norm_segs True acc (rev racc @ ps)"
proof (induction ps arbitrary: racc)
  case (Cons s ps)
  consider "s = [] \<or> s = ''.''" | "s = ''..''" | "s \<noteq> []" "s \<noteq> ''.''" "s \<noteq> ''..''" by blast
  then show ?case
  proof cases
    case 1
    then show ?thesis using Cons by (auto simp: norm_segs_app)
  next
    case 2
    show ?thesis
    proof (cases racc)
      case Nil
      then show ?thesis using 2 Cons.IH [of "[s]"] by simp
    next
      case (Cons a as)
      show ?thesis
      proof (cases "a = ''..''")
        case True
        then show ?thesis using 2 Cons Cons.prems Cons.IH [of "s # racc"] by simp
      next
        case False
        then show ?thesis
          using 2 Cons Cons.prems Cons.IH [of as] norm_segs_skip [of a acc "rev as" ps] by simp
      qed
    qed
  next
    case 3
    then show ?thesis using Cons.IH [of "s # racc"] Cons.prems by simp
  qed
qed simp

lemma norm_segs_names: "t \<in> set (norm_segs absolute acc ss) \<Longrightarrow> t \<in> set acc \<or> t \<in> set ss \<and> t \<noteq> [] \<and> t \<noteq> ''.''"
proof (induction ss arbitrary: acc)
  case (Cons s ss)
  consider "s = [] \<or> s = ''.''" | "s = ''..''" "acc = []" | a as where "s = ''..''" "acc = a # as"
    | "s \<noteq> []" "s \<noteq> ''.''" "s \<noteq> ''..''"
    by (cases acc) blast+
  then show ?case
  proof cases
    case 1
    then show ?thesis using Cons.IH [of acc] Cons.prems by auto
  next
    case 2
    then show ?thesis using Cons.IH [of "[]"] Cons.IH [of "[s]"] Cons.prems by (auto split: if_splits)
  next
    case 3
    then show ?thesis using Cons.IH [of as] Cons.IH [of "s # acc"] Cons.prems by (auto split: if_splits)
  next
    case 4
    then show ?thesis using Cons.IH [of "s # acc"] Cons.prems by auto
  qed
qed simp

lemma norm_segs_split:
  "s \<in> set (norm_segs absolute [] (split_on slash p)) \<Longrightarrow> s \<noteq> [] \<and> s \<noteq> ''.'' \<and> slash \<notin> set s"
  using norm_segs_names [of s absolute "[]" "split_on slash p"] split_on_pieces [of s slash p] by auto

lemma norm_segs_edges:
  "norm_segs True acc ((if a then [[]] else []) @ ss @ (if b then [[]] else [])) = norm_segs True acc ss"
  by (simp add: norm_segs_app [of _ _ ss])

lemma join_first:
  assumes "ss \<noteq> []" "\<forall>s \<in> set ss. s \<noteq> [] \<and> c \<notin> set s" shows "join [c] ss \<noteq> [] \<and> hd (join [c] ss) \<noteq> c"
proof (cases ss)
  case (Cons s ss')
  then show ?thesis using assms by (cases s; cases ss') auto
qed (use assms in simp)

lemma norm_segs_normalize:
  "norm_segs True (if is_absolute p then [] else acc) (split_on slash (path_normalize p)) =
     norm_segs True (if is_absolute p then [] else acc) (split_on slash p) \<and>
   is_absolute (path_normalize p) = is_absolute p"
proof (cases "p = []")
  case True
  then show ?thesis by (simp add: path_normalize_def is_absolute_def slash_def)
next
  case False
  let ?acc = "if is_absolute p then [] else acc"
  define ss where "ss = norm_segs (is_absolute p) [] (split_on slash p)"
  have names: "s \<in> set ss \<Longrightarrow> s \<noteq> [] \<and> s \<noteq> ''.'' \<and> slash \<notin> set s" for s
    unfolding ss_def by (rule norm_segs_split)
  have same: "norm_segs True ?acc ss = norm_segs True ?acc (split_on slash p)"
  proof (cases "is_absolute p")
    case True
    have "\<forall>s \<in> set (norm_segs True [] (split_on slash p)). proper_seg s"
      by (rule norm_segs_proper) (use split_on_pieces in auto)
    then show ?thesis using True norm_segs_id [of ss "[]"] by (simp add: ss_def)
  next
    case False
    then show ?thesis using norm_segs_relative [of "[]" acc "split_on slash p"] by (simp add: ss_def)
  qed
  show ?thesis
  proof (cases "ss = []")
    case True
    then have "path_normalize p = (if is_absolute p then [slash] else if last p = slash then ''./'' else ''.'')"
      using False by (simp add: path_normalize_def ss_def [symmetric] Let_def)
    moreover have "split_on slash [slash] = [[], []]" "split_on slash ''./'' = [''.'', []]" "split_on slash ''.'' = [''.'']"
      by (simp_all add: slash_def)
    ultimately show ?thesis using same True by (auto simp: is_absolute_def slash_def)
  next
    case nonempty: False
    have body: "join [slash] ss \<noteq> [] \<and> hd (join [slash] ss) \<noteq> slash"
      by (rule join_first) (use nonempty names in auto)
    then have n: "path_normalize p = (if is_absolute p then [slash] else []) @ join [slash] ss @ (if last p = slash then [slash] else [])"
      using False by (simp add: path_normalize_def ss_def [symmetric] Let_def)
    have "split_on slash (join [slash] ss) = ss" by (rule split_on_join) (use nonempty names in auto)
    then have "split_on slash (path_normalize p) =
        (if is_absolute p then [[]] else []) @ ss @ (if last p = slash then [[]] else [])"
      using split_on_app [of slash "join [slash] ss" "[]"] by (simp add: n)
    moreover have "is_absolute (path_normalize p) = is_absolute p"
      using body by (auto simp: n is_absolute_def)
    ultimately show ?thesis using same norm_segs_edges by metis
  qed
qed

lemma segs_normalize: "segs cwd (path_normalize p) = segs cwd p"
proof (cases "is_absolute p")
  case True
  then show ?thesis using norm_segs_normalize [of p] by (simp add: segs_def)
next
  case False
  have split: "split_on slash (cwd @ [slash] @ q) = split_on slash cwd @ split_on slash q" for q
    using split_on_app [of slash cwd q] by simp
  show ?thesis
    using False norm_segs_normalize [of p "rev (norm_segs True [] (split_on slash cwd))"]
    by (simp add: segs_def split norm_segs_app [of _ _ "split_on slash cwd"] del: append_Cons append_Nil)
qed

lemma segs_join:
  assumes "proper_seg name" shows "segs cwd (join_path dir name) = segs cwd dir @ [name]"
proof -
  have rel: "\<not> is_absolute name" using assms by (cases name) (auto simp: proper_seg_def is_absolute_def)
  have one: "split_on slash name = [name]" using assms by (intro split_on_single) (simp add: proper_seg_def)
  have push: "norm_segs True acc [name] = rev acc @ [name]" for acc
    using assms norm_segs_id [of "[name]"] by simp
  have snoc: "norm_segs True [] (split_on slash (d @ [slash] @ name)) = norm_segs True [] (split_on slash d) @ [name]" for d
    using split_on_app [of slash d name] by (simp only: append_Cons append_Nil one norm_segs_app [of _ _ "split_on slash d"] push rev_rev_ident)
  show ?thesis
  proof (cases "dir = []")
    case True
    have "norm_segs True [] (split_on slash (cwd @ [slash])) = norm_segs True [] (split_on slash cwd)"
      using split_on_app [of slash cwd "[]"] by (simp add: norm_segs_app [of _ _ "split_on slash cwd"])
    moreover have "\<not> is_absolute []" by (simp add: is_absolute_def)
    ultimately show ?thesis
      using True rel snoc [of cwd] by (simp add: join_path_def segs_normalize) (simp add: segs_def)
  next
    case False
    then have "is_absolute (dir @ [slash] @ name) = is_absolute dir" by (simp add: is_absolute_def)
    then show ?thesis
      using False snoc [of dir] snoc [of "cwd @ [slash] @ dir"]
      by (simp add: join_path_def path_join_def segs_normalize) (simp add: segs_def)
  qed
qed

end
