(* ===== verification/StaticServer.thy ===== *)
theory StaticServer
  imports JsValue NodePath
begin

text \<open>
  \<^verbatim>\<open>packages/allowlister-remote-web/bin/serve.mjs\<close>: the static server of the npm package. The
  operations of \<open>node:path\<close> are in \<open>NodePath\<close>. \<open>decodeURIComponent\<close>
  (\<open>None\<close> where it throws), which paths are regular files when they are looked at, and which files
  can then be opened and read to their end are arguments; what is shown holds whatever they are.

  The lemmas show which files can be served, and which request brings the server down: neither an
  exception in the request listener nor an error of the stream that reads the file is caught.
\<close>

section \<open>The code\<close>

definition MIME :: "(string \<times> string) list" where
  "MIME =
     [(''.html'', ''text/html''), (''.js'', ''text/javascript''), (''.mjs'', ''text/javascript''),
      (''.css'', ''text/css''), (''.json'', ''application/json''),
      (''.webmanifest'', ''application/manifest+json''), (''.png'', ''image/png''),
      (''.svg'', ''image/svg+xml''), (''.ico'', ''image/x-icon''), (''.txt'', ''text/plain''),
      (''.map'', ''application/json''), (''.woff2'', ''font/woff2'')]"

definition COMPRESSIBLE :: "string list" where
  "COMPRESSIBLE =
     [''text/html'', ''text/javascript'', ''text/css'', ''application/json'',
      ''application/manifest+json'', ''image/svg+xml'', ''text/plain'']"

definition to_lower :: "char \<Rightarrow> char" where
  "to_lower c = (let n = of_char c :: nat
                 in if 65 \<le> n \<and> n \<le> 90 \<or> 192 \<le> n \<and> n \<le> 222 \<and> n \<noteq> 215 then char_of (n + 32) else c)"

definition mimeFor :: "string \<Rightarrow> string" where
  "mimeFor filePath =
     (case map_of MIME (map to_lower (extname filePath)) of
        Some m \<Rightarrow> m
      | None \<Rightarrow> ''application/octet-stream'')"

record server_options =
  so_port :: number
  so_host :: "string option"

fun parse_options :: "server_options \<Rightarrow> string list \<Rightarrow> server_options" where
  "parse_options opts [] = opts"
| "parse_options opts [arg] =
     (if arg = ''--port'' then opts\<lparr>so_port := NaN\<rparr>
      else if arg = ''--host'' then opts\<lparr>so_host := None\<rparr>
      else opts)"
| "parse_options opts (arg # v # argv) =
     (if arg = ''--port'' then parse_options (opts\<lparr>so_port := string_to_number v\<rparr>) argv
      else if arg = ''--host'' then parse_options (opts\<lparr>so_host := Some v\<rparr>) argv
      else parse_options opts (v # argv))"

definition parseArgs :: "string option \<Rightarrow> string option \<Rightarrow> string list \<Rightarrow> server_options" where
  "parseArgs env_port env_host argv =
     parse_options
       \<lparr>so_port = (case env_port of None \<Rightarrow> Dec False 8787 4 | Some p \<Rightarrow> string_to_number p),
        so_host = Some (case env_host of None \<Rightarrow> ''0.0.0.0'' | Some h \<Rightarrow> h)\<rparr> argv"

text \<open>The replacement of \<open>/^(\.\.[/\\])+/\<close> by nothing.\<close>

fun strip_parents :: "string \<Rightarrow> string" where
  "strip_parents (a # b # c # r) =
     (if a = dot \<and> b = dot \<and> (c = slash \<or> c = CHR 0x5C) then strip_parents r else a # b # c # r)"
| "strip_parents s = s"

datatype target =
    Forbidden
  | FileTarget string
  | FallbackTarget string
  | NotFoundTarget

definition request_path :: "string \<Rightarrow> string" where
  "request_path url = takeWhile (\<lambda>c. c \<noteq> CHR ''?'') url"

definition target_candidate :: "string \<Rightarrow> string \<Rightarrow> string" where
  "target_candidate dir decoded =
     (let rel = strip_parents (path_normalize decoded)
      in path_resolve dir (dot # (if is_absolute rel then rel else slash # rel)))"

definition resolveTarget ::
    "(string \<Rightarrow> string option) \<Rightarrow> (string \<Rightarrow> bool) \<Rightarrow> string \<Rightarrow> string \<Rightarrow> target option" where
  "resolveTarget decode isFile dir url =
     (case decode (request_path url) of
        None \<Rightarrow> None
      | Some decoded \<Rightarrow>
          (let candidate = target_candidate dir decoded;
               asHtml = candidate @ ''.html'';
               asIndex = path_join candidate ''index.html'';
               fallback = path_join dir ''index.html''
           in Some
             (if candidate \<noteq> dir \<and> \<not> starts_with (dir @ [slash]) candidate then Forbidden
              else if isFile candidate then FileTarget candidate
              else if extname candidate = [] \<and> isFile asHtml then FileTarget asHtml
              else if extname candidate = [] \<and> isFile asIndex then FileTarget asIndex
              else if isFile fallback then FallbackTarget fallback
              else NotFoundTarget)))"

text \<open>\<open>/\bgzip\b/.test(s)\<close>, after a character that is or is not a word character.\<close>

fun has_gzip :: "bool \<Rightarrow> string \<Rightarrow> bool" where
  "has_gzip after_word [] = False"
| "has_gzip after_word (c # cs) \<longleftrightarrow>
     (\<not> after_word \<and> starts_with ''gzip'' (c # cs) \<and>
      (case drop 4 (c # cs) of [] \<Rightarrow> True | d # _ \<Rightarrow> \<not> word_char d)) \<or>
     has_gzip (word_char c) cs"

record server_request =
  sr_method :: string
  sr_url :: "string option"
  sr_accept_encoding :: "string option"

datatype response_body = NoBody | TextBody string | FileBody string bool

record server_response =
  sp_status :: nat
  sp_headers :: "(string \<times> string) list"
  sp_body :: response_body

definition url_of :: "server_request \<Rightarrow> string" where
  "url_of req = (case sr_url req of None \<Rightarrow> ''/'' | Some u \<Rightarrow> u)"

text \<open>How a request ends: with a response, or with the process, by an uncaught exception in the
  listener (\<open>Ended None\<close>) or an unhandled error of the stream that feeds the body of a response
  that has been begun (\<open>Ended (Some resp)\<close>).\<close>

datatype served = Answered server_response | Ended "server_response option"

definition sendFile ::
    "(string \<Rightarrow> string option) \<Rightarrow> (string \<Rightarrow> bool) \<Rightarrow> server_request \<Rightarrow> string \<Rightarrow> served" where
  "sendFile decode readable req filePath =
     (case decode (request_path (url_of req)) of
        None \<Rightarrow> Ended None
      | Some urlPath \<Rightarrow>
          (let type = mimeFor filePath;
               acceptsGzip = has_gzip False (case sr_accept_encoding req of None \<Rightarrow> [] | Some s \<Rightarrow> s);
               compress = acceptsGzip \<and> type \<in> set COMPRESSIBLE;
               headers =
                 [(''Content-Type'', type)]
                 @ (if urlPath = ''/sw.js''
                    then [(''Service-Worker-Allowed'', ''/''), (''Cache-Control'', ''no-cache'')] else [])
                 @ (if compress then [(''Content-Encoding'', ''gzip''), (''Vary'', ''Accept-Encoding'')] else [])
           in if sr_method req = ''HEAD''
              then Answered \<lparr>sp_status = 200, sp_headers = headers, sp_body = NoBody\<rparr>
              else
                (let resp = \<lparr>sp_status = 200, sp_headers = headers, sp_body = FileBody filePath compress\<rparr>
                 in if readable filePath then Answered resp else Ended (Some resp))))"

definition text_response :: "nat \<Rightarrow> string \<Rightarrow> server_response" where
  "text_response status body =
     \<lparr>sp_status = status, sp_headers = [(''Content-Type'', ''text/plain'')], sp_body = TextBody body\<rparr>"

text \<open>The request listener.\<close>

definition on_request ::
    "(string \<Rightarrow> string option) \<Rightarrow> (string \<Rightarrow> bool) \<Rightarrow> (string \<Rightarrow> bool) \<Rightarrow> string \<Rightarrow> server_request \<Rightarrow> served" where
  "on_request decode isFile readable staticDir req =
     (if sr_method req \<noteq> ''GET'' \<and> sr_method req \<noteq> ''HEAD''
      then Answered (text_response 405 ''Method Not Allowed'')
      else
        (case resolveTarget decode isFile staticDir (url_of req) of
           None \<Rightarrow> Ended None
         | Some Forbidden \<Rightarrow> Answered (text_response 403 ''Forbidden'')
         | Some NotFoundTarget \<Rightarrow> Answered (text_response 404 ''Not Found'')
         | Some (FileTarget f) \<Rightarrow> sendFile decode readable req f
         | Some (FallbackTarget f) \<Rightarrow> sendFile decode readable req f))"

datatype server_run = PrintHelp | PrintVersion | AssetsMissing | Listen server_options

definition server_main :: "string option \<Rightarrow> string option \<Rightarrow> bool \<Rightarrow> string list \<Rightarrow> server_run" where
  "server_main env_port env_host assets argv =
     (if ''--help'' \<in> set argv \<or> ''-h'' \<in> set argv then PrintHelp
      else if ''--version'' \<in> set argv \<or> ''-v'' \<in> set argv \<or> ''-V'' \<in> set argv then PrintVersion
      else if \<not> assets then AssetsMissing
      else Listen (parseArgs env_port env_host argv))"

section \<open>Lemmas\<close>

lemma resolveTarget_inside:
  assumes "proper_dir dir" and "\<not> isFile dir"
    and "resolveTarget decode isFile dir url = Some (FileTarget f) \<or>
         resolveTarget decode isFile dir url = Some (FallbackTarget f)"
  shows "isFile f \<and> (starts_with (dir @ [slash]) f \<or> f = dir @ ''.html'')"
proof -
  obtain ds where ds: "ds \<noteq> []" "\<forall>s \<in> set ds. proper_seg s" "dir = abs_path ds"
    using assms(1) by (auto simp: proper_dir_def)
  have fb: "path_join dir ''index.html'' = dir @ ''/index.html''"
    unfolding ds(3) by (rule join_index [OF ds(1,2)])
  obtain decoded where decoded: "decode (request_path url) = Some decoded"
    using assms(3) by (cases "decode (request_path url)") (auto simp: resolveTarget_def)
  obtain cs where cs: "target_candidate dir decoded = abs_path cs" "\<forall>s \<in> set cs. proper_seg s"
    using resolve_abs_path unfolding target_candidate_def Let_def by blast
  let ?c = "target_candidate dir decoded"
  have idx: "path_join ?c ''index.html'' = ?c @ ''/index.html''" if "?c = dir \<or> starts_with (dir @ [slash]) ?c"
  proof -
    have "cs \<noteq> []"
    proof
      assume "cs = []"
      then have c: "?c = [slash]" using cs(1) by (simp add: abs_path_def)
      have "dir \<noteq> [slash]" using abs_path_last [OF ds(1,2)] ds(3) by auto
      then have "starts_with (dir @ [slash]) [slash]" using that c by simp
      then show False using ds(3) by (auto simp: starts_with_iff abs_path_def)
    qed
    from join_index [OF this cs(2)] show ?thesis by (simp add: cs(1))
  qed
  have pre: "starts_with (dir @ [slash]) (x @ y)" if "starts_with (dir @ [slash]) x" for x y
    using that by (auto simp: starts_with_iff)
  have dirpre: "starts_with (dir @ [slash]) (dir @ ''/index.html'')"
    by (auto simp: starts_with_iff slash_def)
  have cpre: "starts_with (dir @ [slash]) (path_join ?c ''index.html'')"
    if c: "?c = dir \<or> starts_with (dir @ [slash]) ?c"
    unfolding idx [OF c] using c pre [of ?c "''/index.html''"] dirpre by auto
  have hpre: "starts_with (dir @ [slash]) (?c @ ''.html'') \<or> ?c @ ''.html'' = dir @ ''.html''"
    if c: "?c = dir \<or> starts_with (dir @ [slash]) ?c"
    using c pre [of ?c "''.html''"] by auto
  show ?thesis
  proof (cases "?c = dir \<or> starts_with (dir @ [slash]) ?c")
    case False
    then show ?thesis using assms(3) decoded by (simp add: resolveTarget_def Let_def)
  next
    case True
    note h = hpre [OF True] and i = cpre [OF True]
    have "f \<in> {?c, ?c @ ''.html'', path_join ?c ''index.html'', dir @ ''/index.html''} \<and> isFile f"
      using assms(3) decoded True fb by (auto simp: resolveTarget_def Let_def split: if_splits)
    then show ?thesis using True h i dirpre assms(2) by (elim conjE insertE) auto
  qed
qed

section \<open>Properties\<close>

text \<open>The response of a request, whether or not the process survives it.\<close>

fun response_of :: "served \<Rightarrow> server_response option" where
  "response_of (Answered resp) = Some resp"
| "response_of (Ended begun) = begun"

text \<open>
  C22. The server hands out nothing but its assets: whatever the request and however its path
  decodes, a file it serves is a file below the static directory, or the one beside it that is
  named after it with \<open>.html\<close>.
\<close>

theorem served_files_contained:
  assumes "proper_dir staticDir" and "\<not> isFile staticDir"
    and "response_of (on_request decode isFile readable staticDir req) = Some resp" and "sp_body resp = FileBody f gz"
  shows "isFile f \<and> (starts_with (staticDir @ ''/'') f \<or> f = staticDir @ ''.html'')"
proof -
  have "resolveTarget decode isFile staticDir (url_of req) = Some (FileTarget f) \<or>
        resolveTarget decode isFile staticDir (url_of req) = Some (FallbackTarget f)"
    using assms(3,4)
    by (auto simp: on_request_def text_response_def sendFile_def Let_def
        split: if_splits option.splits target.splits)
  from resolveTarget_inside [OF assms(1,2) this] show ?thesis by (simp add: slash_def)
qed

theorem served_files_contained_witness:
  "on_request Some (\<lambda>p. p = ''/srv/static/a.js'' \<or> p = ''/srv/secret.js'') (\<lambda>_. True) ''/srv/static''
     \<lparr>sr_method = ''GET'', sr_url = Some ''../../x/../a.js?q'', sr_accept_encoding = None\<rparr> \<noteq> Ended None \<and>
   starts_with ''/srv/static/'' ''/srv/static/a.js''"
proof -
  let ?f = "\<lambda>p. p = ''/srv/static/a.js'' \<or> p = ''/srv/secret.js''"
  let ?r = "\<lparr>sr_method = ''GET'', sr_url = Some ''../../x/../a.js?q'', sr_accept_encoding = None\<rparr>"
  let ?resp = "\<lparr>sp_status = 200, sp_headers = [(''Content-Type'', ''text/javascript'')],
                sp_body = FileBody ''/srv/static/a.js'' False\<rparr>"
  have d: "proper_dir ''/srv/static''"
    unfolding proper_dir_def
    by (rule exI [of _ "[''srv'', ''static'']"]) (simp add: proper_seg_def abs_path_def slash_def)
  have n: "\<not> ?f ''/srv/static''" by simp
  have r: "on_request Some ?f (\<lambda>_. True) ''/srv/static'' ?r = Answered ?resp" by code_simp
  have r': "response_of (on_request Some ?f (\<lambda>_. True) ''/srv/static'' ?r) = Some ?resp" by (simp add: r)
  have b: "sp_body ?resp = FileBody ''/srv/static/a.js'' False" by simp
  from served_files_contained [OF d n r' b] r show ?thesis by simp
qed

text \<open>
  C23. What a request does to the server. Its listener throws, which ends the process, exactly for a
  GET or HEAD whose path cannot be decoded; the stream of a body fails, which ends it too, exactly
  for a GET of a file that is there when it is looked at and cannot be read after that. Every other
  request is answered: 405 for another method, 403 outside the directory, 404 where there is nothing
  to serve, and otherwise 200 with the file, without a body for HEAD.
\<close>

theorem request_crashes_iff:
  "(on_request decode isFile readable staticDir req = Ended None \<longleftrightarrow>
      sr_method req \<in> {''GET'', ''HEAD''} \<and> decode (request_path (url_of req)) = None) \<and>
   ((\<exists>resp. on_request decode isFile readable staticDir req = Ended (Some resp)) \<longleftrightarrow>
      sr_method req = ''GET'' \<and>
      (\<exists>f. resolveTarget decode isFile staticDir (url_of req) \<in> {Some (FileTarget f), Some (FallbackTarget f)} \<and>
         \<not> readable f)) \<and>
   (case response_of (on_request decode isFile readable staticDir req) of
      None \<Rightarrow> on_request decode isFile readable staticDir req = Ended None
    | Some resp \<Rightarrow>
        if sr_method req \<notin> {''GET'', ''HEAD''} then resp = text_response 405 ''Method Not Allowed''
        else
          (case resolveTarget decode isFile staticDir (url_of req) of
             None \<Rightarrow> False
           | Some Forbidden \<Rightarrow> resp = text_response 403 ''Forbidden''
           | Some NotFoundTarget \<Rightarrow> resp = text_response 404 ''Not Found''
           | Some (FileTarget f) \<Rightarrow>
               sp_status resp = 200 \<and>
               (if sr_method req = ''HEAD'' then sp_body resp = NoBody else \<exists>gz. sp_body resp = FileBody f gz)
           | Some (FallbackTarget f) \<Rightarrow>
               sp_status resp = 200 \<and>
               (if sr_method req = ''HEAD'' then sp_body resp = NoBody else \<exists>gz. sp_body resp = FileBody f gz)))"
proof (cases "sr_method req \<in> {''GET'', ''HEAD''}")
  case False
  then have "on_request decode isFile readable staticDir req = Answered (text_response 405 ''Method Not Allowed'')"
    by (simp add: on_request_def)
  then show ?thesis using False by simp
next
  case True
  show ?thesis
  proof (cases "decode (request_path (url_of req))")
    case None
    then have "resolveTarget decode isFile staticDir (url_of req) = None" by (simp add: resolveTarget_def)
    then show ?thesis using True None by (auto simp: on_request_def)
  next
    case (Some d)
    then obtain t where t: "resolveTarget decode isFile staticDir (url_of req) = Some t"
      by (simp add: resolveTarget_def Let_def)
    show ?thesis using True Some t
      by (cases t) (auto simp: on_request_def sendFile_def Let_def)
  qed
qed

end
