(* ===== verification/DevServer.thy ===== *)
theory DevServer
  imports StaticServer
begin

text \<open>
  \<^verbatim>\<open>scripts/serve-web.mjs\<close>: the server the end-to-end tests and the measurements run against. It is
  a second copy of the published server (\<open>StaticServer\<close>), which its comments say it mirrors; its
  operations are modelled from its own source, and the copies are shown to answer every request
  alike. Only the options differ: it has a directory, no environment variables, and no check that
  the directory exists.
\<close>

section \<open>The code\<close>

definition dev_MIME :: "string \<Rightarrow> string option" where
  "dev_MIME =
     [''.html'' \<mapsto> ''text/html'', ''.js'' \<mapsto> ''text/javascript'', ''.mjs'' \<mapsto> ''text/javascript'',
      ''.css'' \<mapsto> ''text/css'', ''.json'' \<mapsto> ''application/json'',
      ''.webmanifest'' \<mapsto> ''application/manifest+json'', ''.png'' \<mapsto> ''image/png'',
      ''.svg'' \<mapsto> ''image/svg+xml'', ''.ico'' \<mapsto> ''image/x-icon'', ''.txt'' \<mapsto> ''text/plain'',
      ''.map'' \<mapsto> ''application/json'', ''.woff2'' \<mapsto> ''font/woff2'']"

definition dev_compressible :: "string \<Rightarrow> bool" where
  "dev_compressible type \<longleftrightarrow>
     type = ''text/html'' \<or> type = ''text/javascript'' \<or> type = ''text/css'' \<or>
     type = ''application/json'' \<or> type = ''application/manifest+json'' \<or>
     type = ''image/svg+xml'' \<or> type = ''text/plain''"

definition dev_mimeFor :: "string \<Rightarrow> string" where
  "dev_mimeFor filePath =
     (case dev_MIME (map to_lower (extname filePath)) of
        None \<Rightarrow> ''application/octet-stream''
      | Some m \<Rightarrow> m)"

record dev_options =
  do_dir :: "string option"
  do_port :: number
  do_host :: "string option"

fun dev_parse :: "dev_options \<Rightarrow> string list \<Rightarrow> dev_options" where
  "dev_parse opts [] = opts"
| "dev_parse opts [arg] =
     (if arg = ''--dir'' then opts\<lparr>do_dir := None\<rparr>
      else if arg = ''--port'' then opts\<lparr>do_port := NaN\<rparr>
      else if arg = ''--host'' then opts\<lparr>do_host := None\<rparr>
      else opts)"
| "dev_parse opts (arg # v # argv) =
     (if arg = ''--dir'' then dev_parse (opts\<lparr>do_dir := Some v\<rparr>) argv
      else if arg = ''--port'' then dev_parse (opts\<lparr>do_port := string_to_number v\<rparr>) argv
      else if arg = ''--host'' then dev_parse (opts\<lparr>do_host := Some v\<rparr>) argv
      else dev_parse opts (v # argv))"

definition dev_parseArgs :: "string list \<Rightarrow> dev_options" where
  "dev_parseArgs argv =
     dev_parse
       \<lparr>do_dir = Some ''apps/web/out'', do_port = Dec False 4183 4, do_host = Some ''127.0.0.1''\<rparr> argv"

text \<open>The file for a path: an error of \<open>decodeURIComponent\<close> is \<open>None\<close>, a path outside the
  directory \<open>Some Forbidden\<close>.\<close>

definition dev_resolveTarget ::
    "(string \<Rightarrow> string option) \<Rightarrow> (string \<Rightarrow> bool) \<Rightarrow> string \<Rightarrow> string \<Rightarrow> target option" where
  "dev_resolveTarget decode isFile dir urlPath =
     map_option
       (\<lambda>decoded.
          let rel = strip_parents (path_normalize decoded);
              candidate = path_resolve dir (''.'' @ (if starts_with ''/'' rel then rel else ''/'' @ rel))
          in if \<not> (candidate = dir \<or> starts_with (dir @ ''/'') candidate) then Forbidden
             else
               (case find isFile
                       (candidate #
                        (if extname candidate = []
                         then [candidate @ ''.html'', path_join candidate ''index.html''] else [])) of
                  Some file \<Rightarrow> FileTarget file
                | None \<Rightarrow>
                    (let fallback = path_join dir ''index.html''
                     in if isFile fallback then FallbackTarget fallback else NotFoundTarget)))
       (decode (takeWhile (\<lambda>c. c \<noteq> CHR ''?'') urlPath))"

definition dev_sendFile ::
    "(string \<Rightarrow> string option) \<Rightarrow> (string \<Rightarrow> bool) \<Rightarrow> server_request \<Rightarrow> string \<Rightarrow> served" where
  "dev_sendFile decode readable req filePath =
     (case decode (takeWhile (\<lambda>c. c \<noteq> CHR ''?'') (url_of req)) of
        None \<Rightarrow> Ended None
      | Some urlPath \<Rightarrow>
          (let type = dev_mimeFor filePath;
               acceptsGzip = (case sr_accept_encoding req of None \<Rightarrow> False | Some s \<Rightarrow> has_gzip False s);
               compress = acceptsGzip \<and> dev_compressible type;
               resp =
                 \<lparr>sp_status = 200,
                  sp_headers =
                    (''Content-Type'', type) #
                    (if urlPath = ''/sw.js''
                     then [(''Service-Worker-Allowed'', ''/''), (''Cache-Control'', ''no-cache'')] else []) @
                    (if compress then [(''Content-Encoding'', ''gzip''), (''Vary'', ''Accept-Encoding'')] else []),
                  sp_body = NoBody\<rparr>
           in if sr_method req = ''HEAD'' then Answered resp
              else if readable filePath then Answered (resp\<lparr>sp_body := FileBody filePath compress\<rparr>)
              else Ended (Some (resp\<lparr>sp_body := FileBody filePath compress\<rparr>))))"

definition dev_on_request ::
    "(string \<Rightarrow> string option) \<Rightarrow> (string \<Rightarrow> bool) \<Rightarrow> (string \<Rightarrow> bool) \<Rightarrow> string \<Rightarrow> server_request \<Rightarrow> served" where
  "dev_on_request decode isFile readable dir req =
     (if sr_method req \<noteq> ''GET'' \<and> sr_method req \<noteq> ''HEAD''
      then Answered (text_response 405 ''Method Not Allowed'')
      else
        (case dev_resolveTarget decode isFile dir (url_of req) of
           None \<Rightarrow> Ended None
         | Some Forbidden \<Rightarrow> Answered (text_response 403 ''Forbidden'')
         | Some NotFoundTarget \<Rightarrow> Answered (text_response 404 ''Not Found'')
         | Some (FileTarget file) \<Rightarrow> dev_sendFile decode readable req file
         | Some (FallbackTarget file) \<Rightarrow> dev_sendFile decode readable req file))"

text \<open>The directory that is served and the listener for it.\<close>

definition dev_serves ::
    "string \<Rightarrow> (string \<Rightarrow> string option) \<Rightarrow> (string \<Rightarrow> bool) \<Rightarrow> (string \<Rightarrow> bool) \<Rightarrow> string list \<Rightarrow>
       server_request \<Rightarrow> served option" where
  "dev_serves cwd decode isFile readable argv req =
     map_option (\<lambda>d. dev_on_request decode isFile readable (path_resolve cwd d) req) (do_dir (dev_parseArgs argv))"

section \<open>The copies agree\<close>

lemma dev_mime: "dev_mimeFor f = mimeFor f"
  by (simp add: dev_mimeFor_def mimeFor_def dev_MIME_def MIME_def)

lemma dev_compress: "dev_compressible type \<longleftrightarrow> type \<in> set COMPRESSIBLE"
  by (simp add: dev_compressible_def COMPRESSIBLE_def)

lemma dev_target: "dev_resolveTarget decode isFile dir url = resolveTarget decode isFile dir url"
proof -
  have abs: "starts_with ''/'' rel \<longleftrightarrow> is_absolute rel" for rel
    by (cases rel) (auto simp: is_absolute_def slash_def)
  have c: "(let rel = strip_parents (path_normalize d)
            in path_resolve dir (''.'' @ (if starts_with ''/'' rel then rel else ''/'' @ rel))) =
           target_candidate dir d" for d
    by (simp add: target_candidate_def abs Let_def dot_def slash_def)
  show ?thesis
  proof (cases "decode (request_path url)")
    case None
    then show ?thesis by (simp add: dev_resolveTarget_def resolveTarget_def request_path_def [symmetric])
  next
    case (Some d)
    define cand where "cand = target_candidate dir d"
    have "dev_resolveTarget decode isFile dir url =
        Some (if \<not> (cand = dir \<or> starts_with (dir @ ''/'') cand) then Forbidden
             else
               (case find isFile
                       (cand # (if extname cand = [] then [cand @ ''.html'', path_join cand ''index.html''] else [])) of
                  Some file \<Rightarrow> FileTarget file
                | None \<Rightarrow>
                    (let fallback = path_join dir ''index.html''
                     in if isFile fallback then FallbackTarget fallback else NotFoundTarget)))"
      using Some c [of d]
      unfolding dev_resolveTarget_def request_path_def [symmetric] cand_def by (simp only: option.map Let_def)
    also have "\<dots> = resolveTarget decode isFile dir url"
      using Some unfolding resolveTarget_def by (simp add: cand_def [symmetric] Let_def slash_def)
    finally show ?thesis .
  qed
qed

lemma dev_send: "dev_sendFile decode readable req f = sendFile decode readable req f"
  by (cases "decode (request_path (url_of req))"; cases "sr_accept_encoding req")
    (simp_all add: dev_sendFile_def sendFile_def request_path_def [symmetric] dev_mime dev_compress Let_def)

lemma dev_parse_dir: "''--dir'' \<notin> set argv \<Longrightarrow> do_dir (dev_parse opts argv) = do_dir opts"
  by (induction opts argv rule: dev_parse.induct) auto

text \<open>The server the tests run against is the published server: for every directory, every file
  system and every request it gives the same answer or the same crash.\<close>

lemma dev_server_mirrors:
  "dev_on_request decode isFile readable dir req = on_request decode isFile readable dir req"
proof -
  have "dev_sendFile = sendFile" by (intro ext) (rule dev_send)
  then show ?thesis unfolding dev_on_request_def on_request_def dev_target by (simp only:)
qed

end
