(* ===== verification/Installer.thy ===== *)
theory Installer
  imports JsValue NodePath
begin

text \<open>
  \<^verbatim>\<open>packages/allowlister-remote-plugin/lib/platform.mjs\<close> and \<^verbatim>\<open>install.mjs\<close>: which native package
  belongs to a platform, and the post-install step that puts its binaries on the command path.

  A thrown error is \<open>Inl\<close> of its message. The step reads and changes files, and what it has
  changed stays changed when it throws, so an action is a function from the files to a result
  and the files. \<open>require.resolve\<close>, \<open>JSON.parse\<close>, the permissions and the texts of system
  errors are fields of the environment; a copy that fails leaves its destination as it was.
\<close>

section \<open>lib/platform.mjs\<close>

record platform_entry =
  pe_pkg :: string
  pe_suffix :: string

definition PLATFORM_PACKAGES :: "(string \<times> platform_entry) list" where
  "PLATFORM_PACKAGES =
     [(''darwin-arm64'', \<lparr>pe_pkg = ''allowlister-remote-plugin-darwin-arm64'', pe_suffix = []\<rparr>),
      (''linux-x64'', \<lparr>pe_pkg = ''allowlister-remote-plugin-linux-x64'', pe_suffix = []\<rparr>),
      (''win32-x64'', \<lparr>pe_pkg = ''allowlister-remote-plugin-win32-x64'', pe_suffix = ''.exe''\<rparr>)]"

definition SCOPE :: string where
  "SCOPE = ''@nickderobertis''"

definition INTEL_MACOS_UNSUPPORTED :: string where
  "INTEL_MACOS_UNSUPPORTED =
     ''Intel macOS (darwin-x64) is no longer supported: allowlister-remote ships Apple Silicon (arm64) macOS binaries only.''"

record platform_package =
  pp_name :: string
  pp_file :: string
  pp_daemonFile :: string

definition platformPackage :: "string \<Rightarrow> string \<Rightarrow> string + platform_package" where
  "platformPackage platform arch =
     (if platform = ''darwin'' \<and> arch = ''x64'' then Inl INTEL_MACOS_UNSUPPORTED
      else
        (case map_of PLATFORM_PACKAGES (platform @ ''-'' @ arch) of
           None \<Rightarrow> Inl (''Unsupported platform: '' @ platform @ ''-'' @ arch)
         | Some entry \<Rightarrow>
             Inr \<lparr>pp_name = SCOPE @ ''/'' @ pe_pkg entry,
                  pp_file = ''allowlister-remote-plugin'' @ pe_suffix entry,
                  pp_daemonFile = ''allowlister-remote-daemon'' @ pe_suffix entry\<rparr>))"

definition binarySpecifier :: "string \<Rightarrow> string \<Rightarrow> string + string" where
  "binarySpecifier platform arch =
     (case platformPackage platform arch of
        Inl e \<Rightarrow> Inl e
      | Inr p \<Rightarrow> Inr (pp_name p @ ''/bin/'' @ pp_file p))"

definition daemonSpecifier :: "string \<Rightarrow> string \<Rightarrow> string + string" where
  "daemonSpecifier platform arch =
     (case platformPackage platform arch of
        Inl e \<Rightarrow> Inl e
      | Inr p \<Rightarrow> Inr (pp_name p @ ''/bin/'' @ pp_daemonFile p))"

definition resolveNativeBinary ::
    "(string \<Rightarrow> string + string) \<Rightarrow> string \<Rightarrow> string \<Rightarrow> string + string" where
  "resolveNativeBinary resolve platform arch =
     (case binarySpecifier platform arch of Inl e \<Rightarrow> Inl e | Inr s \<Rightarrow> resolve s)"

section \<open>Files\<close>

text \<open>The regular files with their contents and permission bits.\<close>

type_synonym files = "string \<rightharpoonup> string \<times> nat"

type_synonym 'a action = "files \<Rightarrow> (string + 'a) \<times> files"

definition and_then :: "'a action \<Rightarrow> ('a \<Rightarrow> 'b action) \<Rightarrow> 'b action" where
  "and_then f g fs = (case f fs of (Inl e, fs') \<Rightarrow> (Inl e, fs') | (Inr x, fs') \<Rightarrow> g x fs')"

definition outcome :: "string + 'a \<Rightarrow> 'a action" where
  "outcome r fs = (r, fs)"

record install_env =
  ie_platform :: string
  ie_arch :: string
  ie_here :: string
  ie_resolve :: "string \<Rightarrow> string + string"
  ie_parse :: "string \<Rightarrow> js option"
  ie_denied :: "string \<Rightarrow> bool"
  ie_sysError :: "string \<Rightarrow> string \<Rightarrow> string"

definition copyFileSync :: "install_env \<Rightarrow> string \<Rightarrow> string \<Rightarrow> unit action" where
  "copyFileSync env src dst fs =
     (case fs src of
        None \<Rightarrow> (Inl (ie_sysError env ''copyfile'' src), fs)
      | Some f \<Rightarrow>
          if ie_denied env dst then (Inl (ie_sysError env ''copyfile'' dst), fs)
          else (Inr (), fs(dst \<mapsto> f)))"

definition chmodSync :: "install_env \<Rightarrow> string \<Rightarrow> nat \<Rightarrow> unit action" where
  "chmodSync env path mode fs =
     (case fs path of
        None \<Rightarrow> (Inl (ie_sysError env ''chmod'' path), fs)
      | Some (content, m) \<Rightarrow>
          if ie_denied env path then (Inl (ie_sysError env ''chmod'' path), fs)
          else (Inr (), fs(path \<mapsto> (content, mode))))"

section \<open>install.mjs\<close>

definition declares_workspaces :: "(string \<Rightarrow> js option) \<Rightarrow> files \<Rightarrow> string \<Rightarrow> bool" where
  "declares_workspaces parse fs dir =
     (case fs (path_join dir ''package.json'') of
        None \<Rightarrow> False
      | Some (content, m) \<Rightarrow>
          (case parse content of None \<Rightarrow> False | Some v \<Rightarrow> truthy (member v ''workspaces'')))"

function inWorkspaceCheckout :: "(string \<Rightarrow> js option) \<Rightarrow> files \<Rightarrow> string \<Rightarrow> bool" where
  "inWorkspaceCheckout parse fs dir =
     (if basename dir = ''node_modules'' then False
      else if declares_workspaces parse fs dir then True
      else if dirname dir = dir then False
      else inWorkspaceCheckout parse fs (dirname dir))"
  by pat_completeness auto
termination
  by (relation "measure (\<lambda>(parse, fs, dir). path_height dir)") (simp_all add: dirname_height)

declare inWorkspaceCheckout.simps [simp del]

definition on_path :: "install_env \<Rightarrow> string" where
  "on_path env = path_join (ie_here env) ''bin/allowlister-remote-plugin''"

definition daemon_on_path :: "install_env \<Rightarrow> string" where
  "daemon_on_path env = path_join (ie_here env) ''bin/allowlister-remote-daemon''"

definition octal_755 :: nat where
  "octal_755 = 493"

definition LINKED :: string where
  "LINKED = ''allowlister-remote-plugin: linked the native plugin and daemon binaries directly onto the command path''"

definition link_native :: "install_env \<Rightarrow> string action" where
  "link_native env =
     and_then
       (outcome (case binarySpecifier (ie_platform env) (ie_arch env) of
                   Inl e \<Rightarrow> Inl e | Inr s \<Rightarrow> ie_resolve env s)) (\<lambda>native.
     if ie_platform env = ''win32''
     then outcome (Inr ''allowlister-remote-plugin: keeping the JS launcher (required by npm shims on Windows)'')
     else
       and_then (copyFileSync env native (on_path env)) (\<lambda>_.
       and_then (chmodSync env (on_path env) octal_755) (\<lambda>_.
       and_then
         (outcome (case daemonSpecifier (ie_platform env) (ie_arch env) of
                     Inl e \<Rightarrow> Inl e | Inr s \<Rightarrow> ie_resolve env s)) (\<lambda>daemon.
       and_then (copyFileSync env daemon (daemon_on_path env)) (\<lambda>_.
       and_then (chmodSync env (daemon_on_path env) octal_755) (\<lambda>_.
       outcome (Inr LINKED)))))))"

text \<open>The whole step: what it prints and the files it leaves.\<close>

definition run_install :: "install_env \<Rightarrow> files \<Rightarrow> string \<times> files" where
  "run_install env fs =
     (if inWorkspaceCheckout (ie_parse env) fs (ie_here env)
      then (''allowlister-remote-plugin: source checkout detected, keeping the JS launcher'', fs)
      else
        (case link_native env fs of
           (Inr message, fs') \<Rightarrow> (message, fs')
         | (Inl message, fs') \<Rightarrow>
             (''allowlister-remote-plugin: keeping the JS launcher fallback ('' @ message @ '')'', fs')))"

section \<open>Lemmas\<close>

lemma checkout_step:
  "inWorkspaceCheckout parse fs dir \<longleftrightarrow>
     basename dir \<noteq> ''node_modules'' \<and>
     (declares_workspaces parse fs dir \<or> dirname dir \<noteq> dir \<and> inWorkspaceCheckout parse fs (dirname dir))"
  using inWorkspaceCheckout.simps [of parse fs dir] by argo

lemma up_fixed: "dirname dir = dir \<Longrightarrow> (dirname ^^ n) dir = dir"
  by (induction n) simp_all

lemma checkout_ancestors:
  "inWorkspaceCheckout parse fs dir \<longleftrightarrow>
     (\<exists>n. declares_workspaces parse fs ((dirname ^^ n) dir) \<and>
          (\<forall>m \<le> n. basename ((dirname ^^ m) dir) \<noteq> ''node_modules''))" (is "_ \<longleftrightarrow> (\<exists>n. ?up n dir)")
proof (induction parse fs dir rule: inWorkspaceCheckout.induct)
  case (1 parse fs dir)
  let ?u = "\<lambda>n d. declares_workspaces parse fs ((dirname ^^ n) d) \<and>
               (\<forall>m \<le> n. basename ((dirname ^^ m) d) \<noteq> ''node_modules'')"
  have zero: "?u 0 dir \<longleftrightarrow> declares_workspaces parse fs dir \<and> basename dir \<noteq> ''node_modules''" by simp
  have le_Suc: "(\<forall>m \<le> Suc n. P m) \<longleftrightarrow> P 0 \<and> (\<forall>m \<le> n. P (Suc m))" for n and P :: "nat \<Rightarrow> bool"
    by (metis Suc_le_mono le0 not0_implies_Suc)
  have suc: "?u (Suc n) dir \<longleftrightarrow> basename dir \<noteq> ''node_modules'' \<and> ?u n (dirname dir)" for n
    by (subst le_Suc) (auto simp: funpow_swap1 simp del: funpow.simps(2) simp add: funpow_Suc_right)
  have ex_Suc: "(\<exists>n. P n) \<longleftrightarrow> P 0 \<or> (\<exists>n. P (Suc n))" for P :: "nat \<Rightarrow> bool"
    by (metis not0_implies_Suc)
  have split: "(\<exists>n. ?u n dir) \<longleftrightarrow> ?u 0 dir \<or> (\<exists>n. ?u (Suc n) dir)" by (rule ex_Suc)
  show ?case
  proof (cases "basename dir = ''node_modules'' \<or> declares_workspaces parse fs dir")
    case True
    then show ?thesis unfolding split suc zero by (subst checkout_step) blast
  next
    case no: False
    show ?thesis
    proof (cases "dirname dir = dir")
      case True
      have "(\<exists>n. ?u n dir) \<longleftrightarrow> False" using no by (simp add: up_fixed [OF True])
      then show ?thesis using no True by (subst checkout_step) simp
    next
      case False
      then show ?thesis using no 1 unfolding split suc zero by (subst checkout_step) blast
    qed
  qed
qed
lemma checkout_height:
  "inWorkspaceCheckout parse fs dir \<Longrightarrow>
     \<exists>n \<le> path_height dir. declares_workspaces parse fs ((dirname ^^ n) dir)"
proof (induction parse fs dir rule: inWorkspaceCheckout.induct)
  case (1 parse fs dir)
  show ?case
  proof (cases "declares_workspaces parse fs dir")
    case True
    then show ?thesis by (intro exI [of _ 0]) simp
  next
    case False
    then have s: "basename dir \<noteq> ''node_modules''" "dirname dir \<noteq> dir"
      and "inWorkspaceCheckout parse fs (dirname dir)"
      using 1(2) False checkout_step [of parse fs dir] by blast+
    with 1(1) False obtain n where "n \<le> path_height (dirname dir)"
      "declares_workspaces parse fs ((dirname ^^ n) (dirname dir))" by blast
    then show ?thesis using dirname_height [OF s(2)]
      by (intro exI [of _ "Suc n"]) (simp add: funpow_swap1)
  qed
qed

text \<open>The contents of the native binary that a specifier resolves to.\<close>

definition native_content :: "install_env \<Rightarrow> string + string \<Rightarrow> files \<Rightarrow> string option" where
  "native_content env spec fs =
     (case spec of
        Inl e \<Rightarrow> None
      | Inr s \<Rightarrow> (case ie_resolve env s of Inl e \<Rightarrow> None | Inr path \<Rightarrow> map_option fst (fs path)))"

text \<open>The native plugin that is to be put on the command path, if the step may and can.\<close>

definition plugin_to_link :: "install_env \<Rightarrow> files \<Rightarrow> string option" where
  "plugin_to_link env fs =
     (if inWorkspaceCheckout (ie_parse env) fs (ie_here env) \<or> ie_platform env = ''win32'' \<or>
         ie_denied env (on_path env)
      then None else native_content env (binarySpecifier (ie_platform env) (ie_arch env)) fs)"

lemma binaries_apart:
  assumes "proper_dir (ie_here env)"
  shows "on_path env = ie_here env @ ''/bin/allowlister-remote-plugin'' \<and>
         daemon_on_path env = ie_here env @ ''/bin/allowlister-remote-daemon'' \<and>
         on_path env \<noteq> daemon_on_path env"
proof -
  have 1: "on_path env = ie_here env @ ''/bin/allowlister-remote-plugin''"
    using join_proper_dir [OF assms, of "[''bin'', ''allowlister-remote-plugin'']"]
    by (simp add: on_path_def slash_def proper_seg_def)
  have 2: "daemon_on_path env = ie_here env @ ''/bin/allowlister-remote-daemon''"
    using join_proper_dir [OF assms, of "[''bin'', ''allowlister-remote-daemon'']"]
    by (simp add: daemon_on_path_def slash_def proper_seg_def)
  show ?thesis by (simp add: 1 2)
qed

lemma and_then_Inl: "f fs = (Inl e, fs') \<Longrightarrow> and_then f g fs = (Inl e, fs')"
  by (simp add: and_then_def)

lemma and_then_Inr: "f fs = (Inr x, fs') \<Longrightarrow> and_then f g fs = g x fs'"
  by (simp add: and_then_def)

text \<open>What an action may do to a file, whether it throws or not.\<close>

definition touches_only :: "string set \<Rightarrow> 'a action \<Rightarrow> bool" where
  "touches_only ps f \<longleftrightarrow> (\<forall>fs q. q \<notin> ps \<longrightarrow> snd (f fs) q = fs q)"

lemma touches_and_then [intro]:
  assumes "touches_only ps f" and "\<And>x. touches_only ps (g x)"
  shows "touches_only ps (and_then f g)"
  unfolding touches_only_def
proof (intro allI impI)
  fix fs q assume q: "q \<notin> ps"
  obtain r fs' where f: "f fs = (r, fs')" by (cases "f fs")
  then have "fs' q = fs q" using assms(1) q by (metis snd_conv touches_only_def)
  then show "snd (and_then f g fs) q = fs q"
    using assms(2) q f by (cases r) (simp_all add: and_then_def touches_only_def)
qed

lemma touches_basic [intro]:
  "touches_only ps (outcome r)"
  "dst \<in> ps \<Longrightarrow> touches_only ps (copyFileSync env src dst)"
  "path \<in> ps \<Longrightarrow> touches_only ps (chmodSync env path mode)"
  by (auto simp: touches_only_def outcome_def copyFileSync_def chmodSync_def split: option.splits)

lemma link_touches: "touches_only {on_path env, daemon_on_path env} (link_native env)"
  unfolding link_native_def by (intro touches_and_then touches_basic impI | simp split: if_split | rule conjI)+

text \<open>The part of the step after the native plugin has been copied.\<close>

definition link_rest :: "install_env \<Rightarrow> string action" where
  "link_rest env =
     and_then (chmodSync env (on_path env) octal_755) (\<lambda>_.
       and_then
         (outcome (case daemonSpecifier (ie_platform env) (ie_arch env) of
                     Inl e \<Rightarrow> Inl e | Inr s \<Rightarrow> ie_resolve env s)) (\<lambda>daemon.
       and_then (copyFileSync env daemon (daemon_on_path env)) (\<lambda>_.
       and_then (chmodSync env (daemon_on_path env) octal_755) (\<lambda>_.
       outcome (Inr LINKED)))))"

lemma link_not_replaced:
  assumes "\<not> inWorkspaceCheckout (ie_parse env) fs (ie_here env)" and "plugin_to_link env fs = None"
  shows "\<exists>r. link_native env fs = (r, fs) \<and> r \<noteq> Inr LINKED"
  using assms
  by (auto simp: link_native_def LINKED_def plugin_to_link_def native_content_def and_then_def outcome_def
      copyFileSync_def split: sum.splits option.splits if_splits)

lemma link_replaced:
  assumes "plugin_to_link env fs = Some c"
  shows "\<exists>m. link_native env fs = link_rest env (fs(on_path env \<mapsto> (c, m)))"
  using assms
  by (auto simp: link_native_def link_rest_def plugin_to_link_def native_content_def and_then_def outcome_def
      copyFileSync_def split: sum.splits option.splits if_splits)

lemma chmod_done:
  "fs path = Some (c, m) \<Longrightarrow> \<not> ie_denied env path \<Longrightarrow>
     chmodSync env path mode fs = (Inr (), fs(path \<mapsto> (c, mode)))"
  by (simp add: chmodSync_def)

lemma link_rest_effect:
  assumes apart: "on_path env \<noteq> daemon_on_path env" and own: "fs (on_path env) = Some (c, m)"
    and allowed: "\<not> ie_denied env (on_path env)"
  shows "snd (link_rest env fs) (on_path env) = Some (c, octal_755) \<and>
         (\<forall>msg. fst (link_rest env fs) = Inr msg \<longrightarrow>
            (\<exists>d. snd (link_rest env fs) (daemon_on_path env) = Some (d, octal_755)))"
proof -
  have 1: "chmodSync env (on_path env) octal_755 fs = (Inr (), fs(on_path env \<mapsto> (c, octal_755)))"
    by (rule chmod_done [where fs = fs, OF own allowed])
  show ?thesis
    unfolding link_rest_def and_then_Inr [where f = "chmodSync env (on_path env) octal_755", OF 1]
    using apart
    by (auto simp: and_then_def outcome_def copyFileSync_def chmodSync_def
        split: sum.splits option.splits if_splits)
qed

section \<open>Properties\<close>

text \<open>
  C28. The search for the source checkout ends: it answers yes exactly when some directory above the
  package, reached without passing a \<^verbatim>\<open>node_modules\<close>, has a manifest that declares workspaces,
  and then one such directory is found within as many steps up as the path is long.
\<close>

theorem checkout_search:
  "inWorkspaceCheckout parse fs dir \<longleftrightarrow>
     (\<exists>n \<le> path_height dir. declares_workspaces parse fs ((dirname ^^ n) dir)) \<and>
     (\<exists>n. declares_workspaces parse fs ((dirname ^^ n) dir) \<and>
          (\<forall>m \<le> n. basename ((dirname ^^ m) dir) \<noteq> ''node_modules''))"
  using checkout_height [of parse fs dir] checkout_ancestors [of parse fs dir] by blast

theorem checkout_search_witness:
  "\<exists>n \<le> path_height ''/w/p/q''.
     declares_workspaces (\<lambda>s. Some (Obj [(''workspaces'', Arr [])])) [''/w/package.json'' \<mapsto> ([], 420)]
       ((dirname ^^ n) ''/w/p/q'')"
proof -
  have "inWorkspaceCheckout (\<lambda>s. Some (Obj [(''workspaces'', Arr [])])) [''/w/package.json'' \<mapsto> ([], 420)] ''/w/p/q''"
    by code_simp
  then show ?thesis unfolding checkout_search by (elim conjE)
qed

text \<open>
  C24. What the installation does to the disk. It writes nothing but the two files of the package's
  \<^verbatim>\<open>bin\<close> directory; the launcher is replaced, by the native plugin and executable,
  exactly when this is no source checkout and no Windows, the platform is published and its
  plugin can be read and put there, and in every other case the disk stays as it was; when it
  reports that it linked the binaries, both are there and executable.
\<close>

theorem install_effect:
  assumes "proper_dir (ie_here env)" and "run_install env fs = (message, fs')"
  shows "(\<forall>q. q \<noteq> on_path env \<and> q \<noteq> daemon_on_path env \<longrightarrow> fs' q = fs q) \<and>
         (case plugin_to_link env fs of
            None \<Rightarrow> fs' = fs
          | Some c \<Rightarrow> fs' (on_path env) = Some (c, octal_755)) \<and>
         (message = LINKED
            \<longrightarrow> (\<exists>c d. fs' (on_path env) = Some (c, octal_755) \<and> fs' (daemon_on_path env) = Some (d, octal_755)))"
proof (cases "inWorkspaceCheckout (ie_parse env) fs (ie_here env)")
  case True
  then show ?thesis using assms(2) by (auto simp: run_install_def plugin_to_link_def LINKED_def)
next
  case no: False
  have res: "fs' = snd (link_native env fs) \<and>
      (message = LINKED
         \<longrightarrow> fst (link_native env fs) = Inr message)"
    using assms(2) no by (auto simp: run_install_def LINKED_def split: prod.splits sum.splits)
  have only: "q \<noteq> on_path env \<and> q \<noteq> daemon_on_path env \<longrightarrow> fs' q = fs q" for q
    using link_touches [of env] res by (simp add: touches_only_def)
  show ?thesis
  proof (cases "plugin_to_link env fs")
    case None
    from link_not_replaced [OF no None] show ?thesis using res None by auto
  next
    case (Some c)
    obtain m where l: "link_native env fs = link_rest env (fs(on_path env \<mapsto> (c, m)))"
      using link_replaced [OF Some] by blast
    have "\<not> ie_denied env (on_path env)" using Some by (auto simp: plugin_to_link_def split: if_splits)
    from link_rest_effect [OF conjunct2 [OF conjunct2 [OF binaries_apart [OF assms(1)]]] _ this, of "fs(on_path env \<mapsto> (c, m))" c m]
    show ?thesis using only res Some by (auto simp: l)
  qed
qed

theorem install_effect_witness:
  "\<exists>env fs message fs'. proper_dir (ie_here env) \<and> run_install env fs = (message, fs') \<and>
     plugin_to_link env fs = Some ''B'' \<and> fs' (on_path env) = Some (''B'', octal_755)"
proof -
  let ?env = "\<lparr>ie_platform = ''linux'', ie_arch = ''x64'', ie_here = ''/p'',
     ie_resolve = (\<lambda>s. if Inr s = daemonSpecifier ''linux'' ''x64'' then Inl ''gone'' else Inr ''/b''),
     ie_parse = (\<lambda>s. Some Null), ie_denied = (\<lambda>p. False), ie_sysError = (\<lambda>op p. op)\<rparr>"
  let ?fs = "[''/b'' \<mapsto> (''B'', 420), ''/p/bin/allowlister-remote-plugin'' \<mapsto> (''js'', 420)] :: files"
  have d: "proper_dir (ie_here ?env)"
    unfolding proper_dir_def
    by (rule exI [of _ "[''p'']"]) (simp add: proper_seg_def abs_path_def slash_def)
  obtain message fs' where r: "run_install ?env ?fs = (message, fs')" by fastforce
  have l: "plugin_to_link ?env ?fs = Some ''B''" by code_simp
  from install_effect [OF d r] l have "fs' (on_path ?env) = Some (''B'', octal_755)"
    by (simp only: option.case)
  with d r l show ?thesis by blast
qed

text \<open>When the daemon cannot be resolved, the launcher has been replaced although the message
  says that it is kept.\<close>

lemma fallback_after_replacing:
  assumes "proper_dir (ie_here env)" and "plugin_to_link env fs = Some c"
    and "daemonSpecifier (ie_platform env) (ie_arch env) = Inr s" and "ie_resolve env s = Inl e"
  shows "\<exists>fs'. run_install env fs =
           (''allowlister-remote-plugin: keeping the JS launcher fallback ('' @ e @ '')'', fs') \<and>
         fs' (on_path env) = Some (c, octal_755)"
proof -
  obtain m where l: "link_native env fs = link_rest env (fs(on_path env \<mapsto> (c, m)))"
    using link_replaced [OF assms(2)] by blast
  have p: "\<not> ie_denied env (on_path env)" "\<not> inWorkspaceCheckout (ie_parse env) fs (ie_here env)"
    using assms(2) by (auto simp: plugin_to_link_def split: if_splits)
  have "link_rest env (fs(on_path env \<mapsto> (c, m))) = (Inl e, fs(on_path env \<mapsto> (c, octal_755)))"
    using p(1) assms(3,4) by (simp add: link_rest_def and_then_def outcome_def chmodSync_def)
  then show ?thesis using p(2) l by (simp add: run_install_def)
qed

end
