(* ===== verification/WorkflowGraph.thy ===== *)
theory WorkflowGraph
  imports JsValue "HOL-Library.AList"
begin

text \<open>
  \<^verbatim>\<open>.github/workflow-graph.mjs\<close>: which jobs of the repository's GitHub workflows run for an
  event, and on which runners. A workflow is the value its YAML file parses to; a thrown error
  is \<open>Inl\<close> of its kind. The expressions of GitHub Actions are evaluated by a library: \<open>ge_expr\<close>
  is its answer for a text, a context and the status functions, \<open>None\<close> where it throws; the outputs of a
  job are the caller's (\<open>ge_outputFor\<close>). Two objects or arrays are never identical, as the
  nodes of a YAML file without aliases are not, and member names are not those of a prototype.

  The jobs are visited depth first (\<open>visit_all\<close>), each after its prerequisites; a call of a
  reusable workflow resolves that one in turn. Both recursions end: a job on the current path
  and a file on the call stack are errors.
\<close>

section \<open>Values\<close>

text \<open>\<open>a === b\<close>, and the comparison of \<open>includes\<close>, in which NaN equals itself.\<close>

fun same_value_zero :: "js \<Rightarrow> js \<Rightarrow> bool" where
  "same_value_zero (Num (Dec n s p)) (Num (Dec n' s' p')) \<longleftrightarrow>
     s = s' \<and> (s = 0 \<or> n = n' \<and> p = p')"
| "same_value_zero (Arr xs) w = False"
| "same_value_zero (Obj ms) w = False"
| "same_value_zero v w \<longleftrightarrow> v = w"

definition strict_equal :: "js \<Rightarrow> js \<Rightarrow> bool" where
  "strict_equal v w \<longleftrightarrow> same_value_zero v w \<and> v \<noteq> Num NaN"

text \<open>\<open>v.includes(x)\<close> of an array or a string.\<close>

fun includes_value :: "js \<Rightarrow> js \<Rightarrow> bool option" where
  "includes_value (Arr xs) x = Some (list_ex (\<lambda>y. same_value_zero y x) xs)"
| "includes_value (Str s) x = map_option (js_includes s) (js_String x)"
| "includes_value v x = None"

text \<open>\<open>{ ...a, ...b }\<close>.\<close>

definition spread :: "(string \<times> js) list \<Rightarrow> (string \<times> js) list \<Rightarrow> (string \<times> js) list" where
  "spread a b = foldl (\<lambda>acc (k, v). AList.update k v acc) a b"

text \<open>\<open>s.replace(p, "")\<close> of a string pattern: its first occurrence.\<close>

fun remove_first :: "string \<Rightarrow> string \<Rightarrow> string" where
  "remove_first p [] = []"
| "remove_first p (c # cs) =
     (if starts_with p (c # cs) then drop (length p) (c # cs) else c # remove_first p cs)"

section \<open>Errors and inputs\<close>

datatype graph_error =
    UnsupportedStructure string
  | UnsupportedEvent string string
  | UnsupportedTriggerField string string string
  | UnhandledRefExclusion
  | UnhandledPathFilter
  | UnresolvedMatrix string js
  | RecursiveCall string
  | DependencyCycle string string
  | MissingPrerequisite string string
  | UnresolvedReusable js
  | UnresolvedRunner string string js
  | UnreadableFile string
  | ExpressionError string
  | TypeError

record scenario =
  sc_id :: js
  sc_eventName :: string
  sc_event :: js
  sc_ref :: "string option"
  sc_optionalPublish :: js

record graph_env =
  ge_files :: "(string \<times> js) list"
  ge_expr :: "string \<Rightarrow> js \<Rightarrow> (string \<Rightarrow> bool) \<Rightarrow> js option"
  ge_outputFor :: "string \<Rightarrow> string \<Rightarrow> js"
  ge_scenario :: scenario

section \<open>load\<close>

definition EVENTS :: "string list" where
  "EVENTS =
     [''pull_request'', ''push'', ''release'', ''workflow_run'', ''repository_dispatch'', ''schedule'',
      ''workflow_dispatch'', ''workflow_call'']"

definition TRIGGER_FIELDS :: "string list" where
  "TRIGGER_FIELDS =
     [''types'', ''branches'', ''tags'', ''workflows'', ''paths'', ''paths-ignore'', ''branches-ignore'',
      ''tags-ignore'']"

fun check_triggers :: "string \<Rightarrow> (string \<times> js) list \<Rightarrow> graph_error option" where
  "check_triggers path [] = None"
| "check_triggers path ((event, trigger) # ts) =
     (if event \<notin> set EVENTS then Some (UnsupportedEvent path event)
      else
        (case (if truthy trigger \<and> event \<notin> {''workflow_dispatch'', ''workflow_call'', ''schedule''}
               then find (\<lambda>key. key \<notin> set TRIGGER_FIELDS) (map fst (entries trigger)) else None) of
           Some key \<Rightarrow> Some (UnsupportedTriggerField path event key)
         | None \<Rightarrow> check_triggers path ts))"

definition load_file :: "(string \<times> js) list \<Rightarrow> string \<Rightarrow> graph_error + js" where
  "load_file files path =
     (case map_of files path of
        None \<Rightarrow> Inl (UnreadableFile path)
      | Some v \<Rightarrow>
          if \<not> is_object v \<or> \<not> is_object (member v ''on'') \<or> \<not> is_object (member v ''jobs'')
          then Inl (UnsupportedStructure path)
          else
            (case check_triggers path (entries (member v ''on'')) of
               Some e \<Rightarrow> Inl e
             | None \<Rightarrow> Inr v))"

section \<open>evaluate\<close>

definition strip_expression :: "string \<Rightarrow> string" where
  "strip_expression s =
     (let t = (if starts_with ''${{'' s then dropWhile js_space (drop 3 s) else s)
      in if starts_with ''}}'' (rev t) then rev (dropWhile js_space (drop 2 (rev t))) else t)"

text \<open>The functions \<open>always\<close>, \<open>success\<close>, \<open>failure\<close> and \<open>cancelled\<close> that an expression can call.\<close>

definition status_function :: "string \<Rightarrow> string \<Rightarrow> bool" where
  "status_function status name \<longleftrightarrow>
     name = ''always'' \<or> name = ''success'' \<and> status = ''success'' \<or>
     name = ''failure'' \<and> status = ''failure'' \<or> name = ''cancelled'' \<and> status = ''cancelled''"

definition evaluate :: "graph_env \<Rightarrow> js \<Rightarrow> js \<Rightarrow> string \<Rightarrow> graph_error + js" where
  "evaluate env source ctx status =
     (case source of
        Str s \<Rightarrow>
          (case ge_expr env (strip_expression s) ctx (status_function status) of
             None \<Rightarrow> Inl (ExpressionError s)
           | Some v \<Rightarrow> Inr v)
      | v \<Rightarrow> Inr v)"

definition expression :: "graph_env \<Rightarrow> js \<Rightarrow> js \<Rightarrow> graph_error + js" where
  "expression env value ctx =
     (case value of
        Str s \<Rightarrow> if starts_with ''${{'' s then evaluate env value ctx ''success'' else Inr value
      | v \<Rightarrow> Inr v)"

section \<open>matrixRows\<close>

type_synonym members = "(string \<times> js) list"

text \<open>The cartesian product of the lists of the matrix, one key after the other.\<close>

fun combine ::
    "(js \<Rightarrow> graph_error + js) \<Rightarrow> members \<Rightarrow> members list \<Rightarrow> graph_error + members list" where
  "combine expr [] rows = Inr rows"
| "combine expr ((key, values) # ms) rows =
     (if key = ''include'' \<or> key = ''exclude'' then combine expr ms rows
      else
        (case expr values of
           Inl e \<Rightarrow> Inl e
         | Inr (Arr xs) \<Rightarrow>
             combine expr ms (concat (map (\<lambda>row. map (\<lambda>value. AList.update key value row) xs) rows))
         | Inr v \<Rightarrow> Inl (UnresolvedMatrix key v)))"

definition row_at :: "members \<Rightarrow> string \<Rightarrow> js" where
  "row_at row key = (case map_of row key of None \<Rightarrow> Undefined | Some v \<Rightarrow> v)"

fun excluded :: "members \<Rightarrow> js list \<Rightarrow> graph_error + bool" where
  "excluded row [] = Inr False"
| "excluded row (ex # exs) =
     (if nullish ex then Inl TypeError
      else if list_all (\<lambda>(key, value). strict_equal (row_at row key) value) (entries ex) then Inr True
      else excluded row exs)"

fun exclude_rows :: "js \<Rightarrow> members list \<Rightarrow> graph_error + members list" where
  "exclude_rows ex [] = Inr []"
| "exclude_rows ex (row # rows) =
     (case (if nullish ex then Inr False else case ex of Arr exs \<Rightarrow> excluded row exs | _ \<Rightarrow> Inl TypeError) of
        Inl e \<Rightarrow> Inl e
      | Inr out \<Rightarrow>
          (case exclude_rows ex rows of
             Inl e \<Rightarrow> Inl e
           | Inr kept \<Rightarrow> Inr (if out then kept else row # kept)))"

definition matches :: "string list \<Rightarrow> js \<Rightarrow> members \<Rightarrow> bool" where
  "matches keys inc row \<longleftrightarrow>
     list_all (\<lambda>key. at_key inc key = Undefined \<or> strict_equal (at_key inc key) (row_at row key)) keys"

fun include_rows ::
    "string list \<Rightarrow> js list \<Rightarrow> members list \<Rightarrow> js list \<Rightarrow> graph_error + js list" where
  "include_rows keys [] rows additional = Inr (map Obj rows @ additional)"
| "include_rows keys (inc # incs) rows additional =
     (if nullish inc \<and> keys \<noteq> [] \<and> rows \<noteq> [] then Inl TypeError
      else
        include_rows keys incs
          (map (\<lambda>row. if matches keys inc row then spread row (entries inc) else row) rows)
          (if list_ex (matches keys inc) rows then additional else additional @ [inc]))"

definition matrixRows :: "graph_env \<Rightarrow> js \<Rightarrow> js \<Rightarrow> graph_error + js list" where
  "matrixRows env matrix ctx =
     (if \<not> truthy matrix then Inr [Obj []]
      else
        (case (if is_string matrix then expression env matrix ctx else Inr matrix) of
           Inl e \<Rightarrow> Inl e
         | Inr resolved \<Rightarrow>
             if nullish resolved then Inl TypeError
             else
               (case combine (\<lambda>v. expression env v ctx) (entries resolved) [[]] of
                  Inl e \<Rightarrow> Inl e
                | Inr rows \<Rightarrow>
                    (let keys = filter (\<lambda>key. key \<noteq> ''include'' \<and> key \<noteq> ''exclude'') (map fst (entries resolved));
                         incs = member resolved ''include''
                     in if keys = [] \<and> truthy incs
                        then (case iterate incs of None \<Rightarrow> Inl TypeError | Some xs \<Rightarrow> Inr xs)
                        else
                          (case exclude_rows (member resolved ''exclude'') rows of
                             Inl e \<Rightarrow> Inl e
                           | Inr kept \<Rightarrow>
                               (case (if nullish incs then Some [] else iterate incs) of
                                  None \<Rightarrow> Inl TypeError
                                | Some xs \<Rightarrow> include_rows keys xs kept []))))))"

section \<open>triggered\<close>

definition js_ref :: "scenario \<Rightarrow> js" where
  "js_ref s = (case sc_ref s of None \<Rightarrow> Undefined | Some r \<Rightarrow> Str r)"

fun some_tag :: "scenario \<Rightarrow> js list \<Rightarrow> graph_error + bool" where
  "some_tag s [] = Inr False"
| "some_tag s (pattern # ps) =
     (case sc_ref s of
        None \<Rightarrow> some_tag s ps
      | Some ref \<Rightarrow>
          (case pattern of
             Str p \<Rightarrow>
               if starts_with (remove_first ''*'' p) (remove_first ''refs/tags/'' ref) then Inr True
               else some_tag s ps
           | _ \<Rightarrow> Inl TypeError))"

text \<open>One of the conditions under which the function returns false: a filter that is given and
  does not include the value.\<close>

definition filter_passes :: "js \<Rightarrow> js \<Rightarrow> graph_error + bool" where
  "filter_passes allowed value =
     (if \<not> truthy allowed then Inr True
      else case includes_value allowed value of None \<Rightarrow> Inl TypeError | Some b \<Rightarrow> Inr b)"

fun all_pass :: "(graph_error + bool) list \<Rightarrow> graph_error + bool" where
  "all_pass [] = Inr True"
| "all_pass (Inl e # cs) = Inl e"
| "all_pass (Inr b # cs) = (if b then all_pass cs else Inr False)"

definition triggered :: "js \<Rightarrow> scenario \<Rightarrow> graph_error + bool" where
  "triggered workflow s =
     (let trigger = member (member workflow ''on'') (sc_eventName s);
          action = member (sc_event s) ''action'';
          branch = (if sc_eventName s = ''workflow_run''
                    then member (member (sc_event s) ''workflow_run'') ''head_branch''
                    else case sc_ref s of None \<Rightarrow> Undefined | Some r \<Rightarrow> Str (remove_first ''refs/heads/'' r));
          tags = member trigger ''tags''
      in if trigger = Undefined then Inr False
         else if sc_eventName s = ''pull_request'' \<and> \<not> truthy (member trigger ''types'') \<and>
                 action \<notin> {Str ''opened'', Str ''synchronize'', Str ''reopened''} then Inr False
         else if \<not> truthy trigger then Inr True
         else
           all_pass
             [filter_passes (member trigger ''types'') (nullish_or action (Str ''completed'')),
              filter_passes (member trigger ''branches'') branch,
              (if \<not> truthy tags then Inr True else case tags of Arr ps \<Rightarrow> some_tag s ps | _ \<Rightarrow> Inl TypeError),
              Inr (\<not> truthy tags \<or> (case sc_ref s of None \<Rightarrow> False | Some r \<Rightarrow> starts_with ''refs/tags/'' r)),
              filter_passes (member trigger ''workflows'') (member (member (sc_event s) ''workflow_run'') ''name''),
              (if truthy (member trigger ''branches-ignore'') \<or> truthy (member trigger ''tags-ignore'')
               then Inl UnhandledRefExclusion else Inr True),
              (if truthy (member trigger ''paths'') \<or> truthy (member trigger ''paths-ignore'')
               then Inl UnhandledPathFilter else Inr True)])"

section \<open>resolveRun\<close>

record need =
  nd_result :: string
  nd_outputs :: js

record graph_row =
  gr_workflow :: string
  gr_event :: js
  gr_job :: string
  gr_display :: string
  gr_runner :: js
  gr_matrix :: js
  gr_macos :: bool

text \<open>The arguments of a call that stay the same while its jobs are visited.\<close>

record run =
  ru_file :: string
  ru_workflow :: js
  ru_inputs :: members
  ru_prefix :: string
  ru_stack :: "string list"

text \<open>\<open>needs\<close> in insertion order, and \<open>rows\<close>.\<close>

record resolve_state =
  rs_needs :: "(string \<times> need) list"
  rs_rows :: "graph_row list"

definition job_ids :: "run \<Rightarrow> string list" where
  "job_ids r = map fst (entries (member (ru_workflow r) ''jobs''))"

definition job_of :: "run \<Rightarrow> string \<Rightarrow> js" where
  "job_of r ident = at_key (member (ru_workflow r) ''jobs'') ident"

definition dependency_id :: "js \<Rightarrow> string" where
  "dependency_id v = (case js_String v of None \<Rightarrow> [] | Some s \<Rightarrow> s)"

definition dependencies :: "js \<Rightarrow> string list" where
  "dependencies job =
     map dependency_id
       (case nullish_or (member job ''needs'') (Arr []) of Arr xs \<Rightarrow> xs | v \<Rightarrow> [v])"

definition need_of :: "resolve_state \<Rightarrow> string \<Rightarrow> need" where
  "need_of st ident =
     (case map_of (rs_needs st) ident of
        Some n \<Rightarrow> n
      | None \<Rightarrow> \<lparr>nd_result = [], nd_outputs = Undefined\<rparr>)"

definition github_context :: "scenario \<Rightarrow> js" where
  "github_context s =
     Obj [(''event_name'', Str (sc_eventName s)), (''event'', sc_event s),
          (''repository'', Str ''nickderobertis/allowlister-remote''), (''ref'', js_ref s),
          (''head_ref'',
           nullish_or (member (member (member (sc_event s) ''pull_request'') ''head'') ''ref'') (Str []))]"

definition need_value :: "need \<Rightarrow> js" where
  "need_value n = Obj [(''result'', Str (nd_result n)), (''outputs'', nd_outputs n)]"

definition context_of :: "graph_env \<Rightarrow> run \<Rightarrow> resolve_state \<Rightarrow> string list \<Rightarrow> members" where
  "context_of env r st deps =
     [(''github'', github_context (ge_scenario env)), (''inputs'', Obj (ru_inputs r)),
      (''needs'', Obj (map (\<lambda>key. (key, need_value (need_of st key))) (foldl add_once [] deps)))]"

definition status_of :: "resolve_state \<Rightarrow> string list \<Rightarrow> string" where
  "status_of st deps =
     (if list_all (\<lambda>key. nd_result (need_of st key) = ''success'') deps then ''success''
      else if list_ex (\<lambda>key. nd_result (need_of st key) = ''failure'') deps then ''failure''
      else if list_ex (\<lambda>key. nd_result (need_of st key) = ''cancelled'') deps then ''cancelled''
      else ''skipped'')"

definition overrides_status :: "string \<Rightarrow> bool" where
  "overrides_status s \<longleftrightarrow>
     js_includes s ''always('' \<or> js_includes s ''failure('' \<or> js_includes s ''cancelled(''"

definition job_enabled ::
    "graph_env \<Rightarrow> run \<Rightarrow> resolve_state \<Rightarrow> string \<Rightarrow> graph_error + bool" where
  "job_enabled env r st ident =
     (let job = job_of r ident; cond = member job ''if''; deps = dependencies job;
          status = status_of st deps
      in if cond = Undefined then Inr (status = ''success'')
         else
           (case evaluate env cond (Obj (context_of env r st deps)) status of
              Inl e \<Rightarrow> Inl e
            | Inr v \<Rightarrow>
                if \<not> truthy v then Inr False
                else if status = ''success'' then Inr True
                else
                  (case js_String (nullish_or cond (Str [])) of
                     None \<Rightarrow> Inl TypeError
                   | Some s \<Rightarrow> Inr (overrides_status s))))"

text \<open>\<open>String(v)\<close> and a template's \<open>${v}\<close>.\<close>

definition to_text :: "js \<Rightarrow> graph_error + string" where
  "to_text v = (case js_String v of None \<Rightarrow> Inl TypeError | Some s \<Rightarrow> Inr s)"

section \<open>A call of a reusable workflow\<close>

definition called_file :: "js \<Rightarrow> graph_error + string" where
  "called_file uses =
     (case uses of
        Str s \<Rightarrow>
          if starts_with ''./.github/workflows/'' s then Inr (drop 2 s)
          else if s = ''nickderobertis/screencomp/.github/workflows/visual-docs-reusable.yml@v0.4.2''
          then Inr ''.github/tests/fixtures/visual-docs-reusable.yml''
          else Inl (UnresolvedReusable uses)
      | _ \<Rightarrow> Inl TypeError)"

fun default_inputs :: "members \<Rightarrow> graph_error + members" where
  "default_inputs [] = Inr []"
| "default_inputs ((key, value) # ms) =
     (if nullish value then Inl TypeError
      else
        (case default_inputs ms of
           Inl e \<Rightarrow> Inl e
         | Inr ds \<Rightarrow> Inr ((key, member value ''default'') # ds)))"

fun supplied_inputs :: "(js \<Rightarrow> graph_error + js) \<Rightarrow> members \<Rightarrow> graph_error + members" where
  "supplied_inputs expr [] = Inr []"
| "supplied_inputs expr ((key, value) # ms) =
     (case expr value of
        Inl e \<Rightarrow> Inl e
      | Inr v \<Rightarrow>
          (case supplied_inputs expr ms of Inl e \<Rightarrow> Inl e | Inr vs \<Rightarrow> Inr ((key, v) # vs)))"

definition job_title :: "run \<Rightarrow> string \<Rightarrow> js" where
  "job_title r ident = nullish_or (member (job_of r ident) ''name'') (Str ident)"

definition child_run :: "graph_env \<Rightarrow> run \<Rightarrow> resolve_state \<Rightarrow> string \<Rightarrow> graph_error + run" where
  "child_run env r st ident =
     (let job = job_of r ident; ctx = Obj (context_of env r st (dependencies job))
      in case called_file (member job ''uses'') of
           Inl e \<Rightarrow> Inl e
         | Inr called \<Rightarrow>
             (case load_file (ge_files env) called of
                Inl e \<Rightarrow> Inl e
              | Inr child \<Rightarrow>
                  (let call = member (member child ''on'') ''workflow_call''
                   in if nullish call then Inl TypeError
                      else
                        (case default_inputs (entries (nullish_or (member call ''inputs'') (Obj []))) of
                           Inl e \<Rightarrow> Inl e
                         | Inr defaults \<Rightarrow>
                             (case supplied_inputs (\<lambda>v. expression env v ctx)
                                     (entries (nullish_or (member job ''with'') (Obj []))) of
                                Inl e \<Rightarrow> Inl e
                              | Inr supplied \<Rightarrow>
                                  (case to_text (job_title r ident) of
                                     Inl e \<Rightarrow> Inl e
                                   | Inr title \<Rightarrow>
                                       Inr \<lparr>ru_file = called, ru_workflow = child,
                                            ru_inputs =
                                              spread
                                                (spread defaults
                                                   (entries (sc_optionalPublish (ge_scenario env))))
                                                supplied,
                                            ru_prefix = ru_prefix r @ title @ '' / '',
                                            ru_stack = ru_stack r @ [ru_file r]\<rparr>))))))"

section \<open>The rows of a job\<close>

text \<open>\<open>text.replace(/\$\{\{(.*?)\}\}/g, ...)\<close>: the body and the rest of the text after a
  \<open>${{\<close>, if it is closed on the line.\<close>

fun close_expression :: "string \<Rightarrow> (string \<times> string) option" where
  "close_expression [] = None"
| "close_expression (c # cs) =
     (if starts_with ''}}'' (c # cs) then Some ([], drop 2 (c # cs))
      else if c = CHR 0x0A \<or> c = CHR 0x0D then None
      else (case close_expression cs of None \<Rightarrow> None | Some (body, rest) \<Rightarrow> Some (c # body, rest)))"

lemma close_expression_shorter:
  "close_expression s = Some (body, rest) \<Longrightarrow> length rest < length s"
  by (induction s arbitrary: body) (fastforce split: if_splits option.splits)+

function replace_expressions ::
    "(string \<Rightarrow> graph_error + string) \<Rightarrow> string \<Rightarrow> graph_error + string" where
  "replace_expressions f [] = Inr []"
| "replace_expressions f (c # cs) =
     (case (if starts_with ''${{'' (c # cs) then close_expression (drop 3 (c # cs)) else None) of
        Some (body, rest) \<Rightarrow>
          (case f body of
             Inl e \<Rightarrow> Inl e
           | Inr new \<Rightarrow>
               (case replace_expressions f rest of Inl e \<Rightarrow> Inl e | Inr s \<Rightarrow> Inr (new @ s)))
      | None \<Rightarrow>
          (case replace_expressions f cs of Inl e \<Rightarrow> Inl e | Inr s \<Rightarrow> Inr (c # s)))"
  by pat_completeness auto
termination
  by (relation "measure (\<lambda>(f, s). length s)")
    (auto dest!: close_expression_shorter split: if_splits)

definition RUNNERS :: "string list" where
  "RUNNERS = [''ubuntu-'', ''windows-'', ''macos-'']"

fun known_runner :: "js \<Rightarrow> bool" where
  "known_runner (Str s) = list_ex (\<lambda>p. starts_with p s) RUNNERS"
| "known_runner v = False"

fun is_macos :: "js \<Rightarrow> bool" where
  "is_macos (Str s) = starts_with ''macos-'' s"
| "is_macos v = False"

definition matrix_row ::
    "graph_env \<Rightarrow> run \<Rightarrow> resolve_state \<Rightarrow> string \<Rightarrow> js \<Rightarrow> graph_error + graph_row" where
  "matrix_row env r st ident matrix =
     (let job = job_of r ident;
          ctx = Obj (AList.update ''matrix'' matrix (context_of env r st (dependencies job)))
      in case expression env (member job ''runs-on'') ctx of
           Inl e \<Rightarrow> Inl e
         | Inr runner \<Rightarrow>
             (let labels = (case runner of Arr xs \<Rightarrow> xs | v \<Rightarrow> [v])
              in if \<not> list_all known_runner labels then Inl (UnresolvedRunner (ru_file r) ident runner)
                 else
                   (case job_title r ident of
                      Str title \<Rightarrow>
                        (case replace_expressions
                                (\<lambda>body. case evaluate env (Str body) ctx ''success'' of
                                          Inl e \<Rightarrow> Inl e | Inr v \<Rightarrow> to_text v) title of
                           Inl e \<Rightarrow> Inl e
                         | Inr display \<Rightarrow>
                             if nullish matrix then Inl TypeError
                             else
                               (case (if truthy (member matrix ''arch'') then to_text (member matrix ''arch'')
                                      else Inr []) of
                                  Inl e \<Rightarrow> Inl e
                                | Inr arch \<Rightarrow>
                                    Inr \<lparr>gr_workflow = ru_file r, gr_event = sc_id (ge_scenario env),
                                         gr_job = ident,
                                         gr_display =
                                           ru_prefix r @ display
                                           @ (if truthy (member matrix ''arch'')
                                              then '' ('' @ arch @ '')'' else []),
                                         gr_runner = runner, gr_matrix = matrix,
                                         gr_macos = list_ex is_macos labels\<rparr>))
                    | _ \<Rightarrow> Inl TypeError)))"

fun matrix_rows_of :: "(js \<Rightarrow> graph_error + graph_row) \<Rightarrow> js list \<Rightarrow> graph_error + graph_row list" where
  "matrix_rows_of f [] = Inr []"
| "matrix_rows_of f (m # ms) =
     (case f m of
        Inl e \<Rightarrow> Inl e
      | Inr row \<Rightarrow>
          (case matrix_rows_of f ms of Inl e \<Rightarrow> Inl e | Inr rows \<Rightarrow> Inr (row # rows)))"

definition job_rows ::
    "graph_env \<Rightarrow> run \<Rightarrow> resolve_state \<Rightarrow> string \<Rightarrow> graph_error + graph_row list" where
  "job_rows env r st ident =
     (let job = job_of r ident
      in case matrixRows env (member (member job ''strategy'') ''matrix'')
                (Obj (context_of env r st (dependencies job))) of
           Inl e \<Rightarrow> Inl e
         | Inr ms \<Rightarrow> matrix_rows_of (matrix_row env r st ident) ms)"

section \<open>The visit\<close>

definition settle ::
    "graph_env \<Rightarrow> run \<Rightarrow> string \<Rightarrow> bool \<Rightarrow> graph_row list \<Rightarrow> resolve_state \<Rightarrow> resolve_state" where
  "settle env r ident enabled rows st =
     st\<lparr>rs_needs := rs_needs st
          @ [(ident, \<lparr>nd_result = (if enabled then ''success'' else ''skipped''),
                      nd_outputs = (if enabled then ge_outputFor env (ru_file r) ident else Obj [])\<rparr>)],
        rs_rows := rs_rows st @ rows\<rparr>"

definition fresh_state :: resolve_state where
  "fresh_state = \<lparr>rs_needs = [], rs_rows = []\<rparr>"

lemma map_of_known: "map_of ms k \<noteq> None \<Longrightarrow> k \<in> set (map fst ms)"
  by (simp add: map_of_eq_None_iff)

lemma load_file_known: "load_file files path = Inr v \<Longrightarrow> path \<in> set (map fst files)"
  by (cases "map_of files path") (simp_all add: load_file_def map_of_known del: set_map)

lemma child_run_Inr:
  "child_run env r st ident = Inr r' \<Longrightarrow>
     ru_stack r' = ru_stack r @ [ru_file r] \<and> ru_file r' \<in> set (map fst (ge_files env))"
  by (auto simp: child_run_def Let_def split: sum.splits if_splits dest: load_file_known)

lemma job_known: "truthy (job_of r ident) \<Longrightarrow> ident \<in> set (job_ids r)"
  by (cases "map_of (entries (member (ru_workflow r) ''jobs'')) ident")
    (simp_all add: job_of_def job_ids_def at_key_def map_of_known del: set_map)

text \<open>Going on with a result, unless it is an error.\<close>

definition proceed :: "'e + 'a \<Rightarrow> ('a \<Rightarrow> 'e + 'b) \<Rightarrow> 'e + 'b" where
  "proceed x f = (case x of Inl e \<Rightarrow> Inl e | Inr v \<Rightarrow> f v)"

lemma proceed_simps [simp]:
  "proceed (Inl e) f = Inl e"
  "proceed (Inr v) f = f v"
  by (simp_all add: proceed_def)


lemma proceed_Inl_iff: "proceed x f = Inl e \<longleftrightarrow> x = Inl e \<or> (\<exists>v. x = Inr v \<and> f v = Inl e)"
  by (cases x) auto

lemma proceed_cong [fundef_cong]:
  "x = y \<Longrightarrow> (\<And>v. y = Inr v \<Longrightarrow> f v = g v) \<Longrightarrow> proceed x f = proceed y g"
  by (cases y) auto

text \<open>\<open>visit\<close> of each of some jobs, with \<open>path\<close> for \<open>visiting\<close>: the jobs between the one
  started with and the current one.\<close>

function visit_all ::
    "graph_env \<Rightarrow> run \<Rightarrow> string list \<Rightarrow> resolve_state \<Rightarrow> string list \<Rightarrow> graph_error + resolve_state" where
  "visit_all env r path st [] = Inr st"
| "visit_all env r path st (ident # ids) =
     (if ident \<in> set (map fst (rs_needs st)) then visit_all env r path st ids
      else if ident \<in> set path then Inl (DependencyCycle (ru_file r) ident)
      else if \<not> truthy (job_of r ident) then Inl (MissingPrerequisite (ru_file r) ident)
      else
        proceed (visit_all env r (ident # path) st (dependencies (job_of r ident))) (\<lambda>st1.
        proceed (job_enabled env r st1 ident) (\<lambda>enabled.
        proceed
          (if enabled \<and> truthy (member (job_of r ident) ''uses'') then
             proceed (child_run env r st1 ident) (\<lambda>r'.
               if ru_file r' \<in> set (ru_stack r') then Inl (RecursiveCall (ru_file r'))
               else
                 proceed (visit_all env r' [] fresh_state (job_ids r')) (\<lambda>st2. Inr (rs_rows st2)))
           else if enabled then job_rows env r st1 ident
           else Inr [])
          (\<lambda>rows. visit_all env r path (settle env r ident enabled rows st1) ids))))"
  by pat_completeness auto
termination
proof (relation
    "measures [\<lambda>(env, r, path, st, ids). card (set (map fst (ge_files env)) - set (ru_file r # ru_stack r)),
               \<lambda>(env, r, path, st, ids). card (set (job_ids r) - set path),
               \<lambda>(env, r, path, st, ids). length ids]", goal_cases)
  case 1
  then show ?case by simp
next
  case (3 env r path st ident ids)
  then have "ident \<in> set (job_ids r)" by (simp add: job_known)
  then have "card (set (job_ids r) - set (ident # path)) < card (set (job_ids r) - set path)"
    using 3 by (intro psubset_card_mono) auto
  then show ?case by simp
next
  case (4 env r path st ident ids st1 enabled r')
  note c = child_run_Inr [OF 4(7)]
  have "ru_file r' \<in> set (map fst (ge_files env)) - set (ru_file r # ru_stack r)" using c 4(8) by simp
  moreover have "set (ru_file r' # ru_stack r') = insert (ru_file r') (set (ru_file r # ru_stack r))"
    using c by auto
  ultimately have "card (set (map fst (ge_files env)) - set (ru_file r' # ru_stack r'))
      < card (set (map fst (ge_files env)) - set (ru_file r # ru_stack r))"
    by (intro psubset_card_mono) auto
  then show ?case by simp
qed (simp_all)

definition resolveRun ::
    "graph_env \<Rightarrow> string \<Rightarrow> js \<Rightarrow> members \<Rightarrow> string \<Rightarrow> string list \<Rightarrow> graph_error + graph_row list" where
  "resolveRun env file workflow inputs prefix stack =
     (if file \<in> set stack then Inl (RecursiveCall file)
      else
        (let r = \<lparr>ru_file = file, ru_workflow = workflow, ru_inputs = inputs, ru_prefix = prefix,
                  ru_stack = stack\<rparr>
         in proceed (visit_all env r [] fresh_state (job_ids r)) (\<lambda>st. Inr (rs_rows st))))"

text \<open>What \<open>visit_all\<close> does for a call is \<open>resolveRun\<close> of the called workflow.\<close>

lemma call_resolves:
  "(if ru_file r \<in> set (ru_stack r) then Inl (RecursiveCall (ru_file r))
    else proceed (visit_all env r [] fresh_state (job_ids r)) (\<lambda>st. Inr (rs_rows st))) =
   resolveRun env (ru_file r) (ru_workflow r) (ru_inputs r) (ru_prefix r) (ru_stack r)"
  by (cases r) (simp add: resolveRun_def Let_def)

section \<open>The order and the results of a visit\<close>

declare visit_all.simps(2) [simp del]


text \<open>A record of results is right when every job stands after all its prerequisites, once, and
  with the result its condition has there.\<close>

definition fits :: "graph_env \<Rightarrow> run \<Rightarrow> (string \<times> need) list \<Rightarrow> string \<times> need \<Rightarrow> bool" where
  "fits env r ns x \<longleftrightarrow>
     fst x \<notin> fst ` set ns \<and> truthy (job_of r (fst x)) \<and>
     set (dependencies (job_of r (fst x))) \<subseteq> fst ` set ns \<and>
     job_enabled env r \<lparr>rs_needs = ns, rs_rows = []\<rparr> (fst x) = Inr (nd_result (snd x) = ''success'')"

definition settled :: "graph_env \<Rightarrow> run \<Rightarrow> (string \<times> need) list \<Rightarrow> bool" where
  "settled env r ns \<longleftrightarrow> (\<forall>xs x ys. ns = xs @ x # ys \<longrightarrow> fits env r xs x)"

lemma settled_Nil [simp]: "settled env r []"
  by (simp add: settled_def)


lemma need_of_rows [simp]: "need_of (st\<lparr>rs_rows := rs\<rparr>) d = need_of st d"
  by (simp add: need_of_def)






definition rows_for :: "graph_env \<Rightarrow> run \<Rightarrow> resolve_state \<Rightarrow> string \<Rightarrow> bool \<Rightarrow> graph_error + graph_row list" where
  "rows_for env r st ident enabled =
     (if enabled \<and> truthy (member (job_of r ident) ''uses'') then
        proceed (child_run env r st ident) (\<lambda>r'.
          resolveRun env (ru_file r') (ru_workflow r') (ru_inputs r') (ru_prefix r') (ru_stack r'))
      else if enabled then job_rows env r st ident
      else Inr [])"

text \<open>The equations by which a concrete visit is computed.\<close>

lemma visit_all_code [code]:
  "visit_all env r path st [] = Inr st"
  "visit_all env r path st (ident # ids) =
     (if ident \<in> set (map fst (rs_needs st)) then visit_all env r path st ids
      else if ident \<in> set path then Inl (DependencyCycle (ru_file r) ident)
      else if \<not> truthy (job_of r ident) then Inl (MissingPrerequisite (ru_file r) ident)
      else
        (case visit_all env r (ident # path) st (dependencies (job_of r ident)) of
           Inl e \<Rightarrow> Inl e
         | Inr st1 \<Rightarrow>
             (case job_enabled env r st1 ident of
                Inl e \<Rightarrow> Inl e
              | Inr enabled \<Rightarrow>
                  (case rows_for env r st1 ident enabled of
                     Inl e \<Rightarrow> Inl e
                   | Inr rows \<Rightarrow> visit_all env r path (settle env r ident enabled rows st1) ids))))"
  unfolding visit_all.simps call_resolves rows_for_def
  unfolding proceed_def by (rule refl)+











section \<open>The rows\<close>








lemma need_of_mem: "distinct (map fst (rs_needs st)) \<Longrightarrow> (d, n) \<in> set (rs_needs st) \<Longrightarrow> need_of st d = n"
  by (simp add: need_of_def)

subsection \<open>The rows of every job\<close>








subsection \<open>What a workflow means\<close>




section \<open>Properties\<close>










end
