(* ===== verification/MacosPolicy.thy ===== *)
theory MacosPolicy
  imports JsValue
begin

text \<open>
  \<^verbatim>\<open>.github/macos-policy.mjs\<close>: whether a pull request needs the macOS lane of the CI. The lane is
  left out for an event that is no pull request, for a draft, and for a release pull request
  whose diff changes nothing but versions and the changelog; anything that cannot be verified
  keeps it.

  What git and the file system answer, and \<open>JSON.parse\<close>, are parts of the environment, \<open>None\<close>
  where they throw. A function that throws returns \<open>None\<close>.
\<close>

section \<open>Texts\<close>

definition some_digits :: "string \<Rightarrow> string option" where
  "some_digits s = (if takeWhile is_digit s = [] then None else Some (dropWhile is_digit s))"

definition after_char :: "char \<Rightarrow> string \<Rightarrow> string option" where
  "after_char c s = (case s of [] \<Rightarrow> None | x # xs \<Rightarrow> if x = c then Some xs else None)"

text \<open>\<open>\d+\.\d+\.\d+\<close> at the start of a text, and what follows.\<close>

definition version_core :: "string \<Rightarrow> string option" where
  "version_core s =
     Option.bind (some_digits s) (\<lambda>r. Option.bind (after_char (CHR ''.'') r) (\<lambda>r.
     Option.bind (some_digits r) (\<lambda>r. Option.bind (after_char (CHR ''.'') r) some_digits)))"

definition label_char :: "char \<Rightarrow> bool" where
  "label_char c \<longleftrightarrow> word_char c \<or> c = CHR ''.'' \<or> c = CHR ''-''"

text \<open>\<open>(?:c[\w.-]+)?\<close> at the start of a text: what follows, \<open>None\<close> for a \<open>c\<close> without a label.\<close>

definition label_after :: "char \<Rightarrow> string \<Rightarrow> string option" where
  "label_after c s =
     (case after_char c s of
        None \<Rightarrow> Some s
      | Some r \<Rightarrow> if takeWhile label_char r = [] then None else Some (dropWhile label_char r))"

definition is_version :: "string \<Rightarrow> bool" where
  "is_version s \<longleftrightarrow>
     Option.bind (version_core s) (\<lambda>r. Option.bind (label_after (CHR ''-'') r) (label_after (CHR ''+''))) = Some []"

text \<open>The texts from the start of each line, where \<open>^\<close> matches with the flag \<open>m\<close>.\<close>

fun line_starts :: "string \<Rightarrow> string list" where
  "line_starts [] = []"
| "line_starts (c # cs) =
     (if c = CHR 0x0A \<or> c = CHR 0x0D then cs # line_starts cs else line_starts cs)"

definition changelog_title :: "string \<Rightarrow> bool" where
  "changelog_title s \<longleftrightarrow>
     starts_with ''# Changelog'' s \<and> (case drop 11 s of [] \<Rightarrow> False | c # _ \<Rightarrow> js_space c)"

definition changelog_release :: "string \<Rightarrow> bool" where
  "changelog_release s \<longleftrightarrow>
     starts_with ''## '' s \<and>
     (let r = drop 3 s
      in version_core r \<noteq> None \<or> (case after_char (CHR ''['') r of None \<Rightarrow> False | Some t \<Rightarrow> version_core t \<noteq> None))"

section \<open>jsonVersionsOnly\<close>

text \<open>\<open>isDeepStrictEqual\<close> of values read from JSON: the order of members does not matter.\<close>

fun deep_equal :: "js \<Rightarrow> js \<Rightarrow> bool" where
  "deep_equal (Arr xs) w = (case w of Arr ys \<Rightarrow> list_all2 deep_equal xs ys | _ \<Rightarrow> False)"
| "deep_equal (Obj ms) w =
     (case w of
        Obj ns \<Rightarrow>
          length ms = length ns \<and>
          (\<forall>m \<in> set ms. case map_of ns (fst m) of None \<Rightarrow> False | Some v \<Rightarrow> deep_equal (snd m) v)
      | _ \<Rightarrow> False)"
| "deep_equal v w = (v = w)"

fun is_boolean :: "js \<Rightarrow> bool" where
  "is_boolean (Bool b) = True"
| "is_boolean v = False"

fun is_record :: "js \<Rightarrow> bool" where
  "is_record (Obj ms) = True"
| "is_record v = False"

definition without :: "string \<Rightarrow> (string \<times> js) list \<Rightarrow> (string \<times> js) list" where
  "without key ms = filter (\<lambda>m. fst m \<noteq> key) ms"

definition removeVersion :: "js \<Rightarrow> js option" where
  "removeVersion v =
     (case v of
        Obj ms \<Rightarrow>
          (case member v ''version'' of
             Str s \<Rightarrow> if is_version s then Some (Obj (without ''version'' ms)) else None
           | _ \<Rightarrow> None)
      | _ \<Rightarrow> None)"

fun remove_workspace_versions ::
    "string list \<Rightarrow> (string \<times> js) list \<Rightarrow> (string \<times> js) list option" where
  "remove_workspace_versions workspaces [] = Some []"
| "remove_workspace_versions workspaces ((key, entry) # ms) =
     (case (if key = [] \<or> key \<in> set workspaces then removeVersion entry else Some entry) of
        None \<Rightarrow> None
      | Some e \<Rightarrow> map_option ((#) (key, e)) (remove_workspace_versions workspaces ms))"

definition replace_member :: "string \<Rightarrow> js \<Rightarrow> (string \<times> js) list \<Rightarrow> (string \<times> js) list" where
  "replace_member key v ms = map (\<lambda>m. if fst m = key then (key, v) else m) ms"

text \<open>\<open>strip\<close>: the outer \<open>None\<close> throws, the inner one is \<open>null\<close>.\<close>

definition strip :: "string \<Rightarrow> string list \<Rightarrow> js \<Rightarrow> js option option" where
  "strip path workspaces value =
     (if path = ''.release-please-manifest.json'' then
        (if nullish value then None
         else if list_ex (\<lambda>key. key \<noteq> ''.'') (map fst (entries value)) then Some None
         else
           (case member value ''.'' of
              Str s \<Rightarrow> if is_version s then Some (Some (Obj [])) else Some None
            | _ \<Rightarrow> Some None))
      else if ends_with ''package-lock.json'' path then
        (case removeVersion value of
           Some (Obj ms) \<Rightarrow>
             (case member (Obj ms) ''packages'' of
                Obj ps \<Rightarrow>
                  map_option (\<lambda>qs. Some (Obj (replace_member ''packages'' (Obj qs) ms)))
                    (remove_workspace_versions workspaces ps)
              | _ \<Rightarrow> None)
         | _ \<Rightarrow> None)
      else map_option Some (removeVersion value))"

definition jsonVersionsOnly ::
    "(string \<Rightarrow> js option) \<Rightarrow> string \<Rightarrow> string \<Rightarrow> string \<Rightarrow> string list \<Rightarrow> bool option" where
  "jsonVersionsOnly parse path before after workspaces =
     Option.bind (parse before) (\<lambda>b. Option.bind (strip path workspaces b) (\<lambda>left.
     Option.bind (parse after) (\<lambda>a. Option.bind (strip path workspaces a) (\<lambda>right.
       Some (case (left, right) of (Some l, Some r) \<Rightarrow> deep_equal l r | _ \<Rightarrow> False)))))"

section \<open>versionDiffOnly\<close>

record policy_env =
  pv_readEvent :: "string \<Rightarrow> string option"
  pv_parse :: "string \<Rightarrow> js option"
  pv_commit :: "string \<Rightarrow> string option"
  pv_diff :: "string \<Rightarrow> string \<Rightarrow> string option"
  pv_show :: "string \<Rightarrow> string \<Rightarrow> string option"

text \<open>A workspace path: segments of \<open>[\w.-]+\<close>, none of them \<open>..\<close>.\<close>

definition workspace_path :: "js \<Rightarrow> bool" where
  "workspace_path v \<longleftrightarrow>
     (case v of
        Str s \<Rightarrow>
          list_all (\<lambda>seg. seg \<noteq> [] \<and> list_all label_char seg \<and> seg \<noteq> ''..'') (split_on (CHR ''/'') s)
      | _ \<Rightarrow> False)"

definition workspacePaths :: "policy_env \<Rightarrow> string \<Rightarrow> string list option" where
  "workspacePaths env ref =
     Option.bind (pv_show env ref ''package.json'') (\<lambda>text.
     Option.bind (pv_parse env text) (\<lambda>manifest.
       if nullish manifest then None
       else
         (case nullish_or (member manifest ''workspaces'') (Arr []) of
            Arr paths \<Rightarrow>
              if list_all workspace_path paths then Some (map (\<lambda>v. string_or v []) paths) else None
          | _ \<Rightarrow> None)))"

text \<open>\<open>/^packages\/allowlister-remote-[\w-]+\/package.json$/\<close>, whose dot is any character.\<close>

definition package_manifest :: "string \<Rightarrow> bool" where
  "package_manifest path \<longleftrightarrow>
     (let name = ''packages/allowlister-remote-'';
          dash = (\<lambda>c. word_char c \<or> c = CHR ''-'');
          r = drop (length name) path; tail = dropWhile dash r
      in starts_with name path \<and> takeWhile dash r \<noteq> [] \<and> starts_with ''/package'' tail \<and>
         (case drop 8 tail of
            [] \<Rightarrow> False
          | c # ext \<Rightarrow> c \<noteq> CHR 0x0A \<and> c \<noteq> CHR 0x0D \<and> ext = ''json''))"

text \<open>The paths whose only allowed change is one of versions.\<close>

definition manifest_path :: "string list \<Rightarrow> string \<Rightarrow> bool" where
  "manifest_path workspaces path \<longleftrightarrow>
     path = ''.release-please-manifest.json'' \<or> path = ''package.json'' \<or> path = ''package-lock.json'' \<or>
     list_ex (\<lambda>workspace. path = workspace @ ''/package.json'') workspaces \<or> package_manifest path"

text \<open>\<open>path\<close> of \<open>[status, path]\<close>; \<open>undefined\<close> where it is used as a text.\<close>

definition path_field :: "string list \<Rightarrow> string" where
  "path_field parts = (case parts of [] \<Rightarrow> ''undefined'' | p # _ \<Rightarrow> p)"

text \<open>The callback for a line of \<open>git diff --name-status\<close>.\<close>

definition file_ok :: "policy_env \<Rightarrow> string \<Rightarrow> string \<Rightarrow> string list \<Rightarrow> string \<Rightarrow> bool option" where
  "file_ok env base head workspaces line =
     (let parts = split_on (CHR 0x09) line; path = path_field (tl parts)
      in if hd parts \<noteq> ''M'' then Some False
         else
           Option.bind (pv_show env base path) (\<lambda>before. Option.bind (pv_show env head path) (\<lambda>after.
             if path = ''CHANGELOG.md'' then
               Some (list_ex changelog_title (after # line_starts after) \<and>
                     list_ex changelog_release (after # line_starts after))
             else if manifest_path workspaces path
             then jsonVersionsOnly (pv_parse env) path before after workspaces
             else Some False)))"

text \<open>\<open>every\<close> with a callback that can throw.\<close>

fun every :: "('a \<Rightarrow> bool option) \<Rightarrow> 'a list \<Rightarrow> bool option" where
  "every f [] = Some True"
| "every f (x # xs) =
     (case f x of None \<Rightarrow> None | Some b \<Rightarrow> if b then every f xs else Some False)"

definition versionDiffOnly :: "policy_env \<Rightarrow> string \<Rightarrow> string \<Rightarrow> bool option" where
  "versionDiffOnly env base head =
     Option.bind (pv_diff env base head) (\<lambda>diff.
       let files = split_on newline (js_trim diff)
       in if hd files = [] then Some False
          else
            Option.bind (workspacePaths env base) (\<lambda>workspaces.
            Option.bind (workspacePaths env head) (\<lambda>workspaces'.
              if workspaces \<noteq> workspaces' then Some False
              else every (file_ok env base head workspaces) files)))"

section \<open>classify\<close>

record route =
  rt_isReleaseOnly :: bool
  rt_macosRequired :: bool
  rt_reason :: string

definition NON_PR_EVENTS :: "string list" where
  "NON_PR_EVENTS =
     [''push'', ''release'', ''workflow_run'', ''repository_dispatch'', ''schedule'', ''workflow_dispatch'',
      ''workflow_call'']"

definition alphanumeric :: "char \<Rightarrow> bool" where
  "alphanumeric c \<longleftrightarrow> word_char c \<and> c \<noteq> CHR ''_''"

text \<open>\<open>/^[A-Za-z0-9-]+\/[A-Za-z0-9_.-]+$/\<close>.\<close>

definition repository_name :: "string \<Rightarrow> bool" where
  "repository_name s \<longleftrightarrow>
     (let part = (\<lambda>c. alphanumeric c \<or> c = CHR ''-''); r = dropWhile part s
      in takeWhile part s \<noteq> [] \<and>
         (case after_char (CHR ''/'') r of None \<Rightarrow> False | Some n \<Rightarrow> n \<noteq> [] \<and> list_all label_char n))"

text \<open>\<open>/^release-please--branches--main(?:--|$)/\<close>.\<close>

definition release_branch :: "string \<Rightarrow> bool" where
  "release_branch s \<longleftrightarrow>
     (let name = ''release-please--branches--main''
      in s = name \<or> starts_with (name @ ''--'') s)"

definition authorized :: "js \<Rightarrow> bool" where
  "authorized event \<longleftrightarrow>
     (let pr = member event ''pull_request''; repo = member (member event ''repository'') ''full_name'';
          head = member pr ''head''
      in case (repo, member head ''ref'') of
           (Str name, Str ref) \<Rightarrow>
             repository_name name \<and> member (member head ''repo'') ''full_name'' = repo \<and>
             member (member (member pr ''base'') ''repo'') ''full_name'' = repo \<and> release_branch ref
         | _ \<Rightarrow> False)"

definition release_diff :: "policy_env \<Rightarrow> js \<Rightarrow> string \<Rightarrow> string \<Rightarrow> bool option" where
  "release_diff env event base head =
     (if \<not> authorized event then Some False
      else
        Option.bind (pv_commit env base) (\<lambda>b. Option.bind (pv_commit env head) (versionDiffOnly env b)))"

definition unknown_route :: route where
  "unknown_route =
     \<lparr>rt_isReleaseOnly = False, rt_macosRequired = True,
      rt_reason = ''unknown or unreadable PR classification''\<rparr>"

text \<open>The part after the event has been read: the body of the \<open>try\<close>.\<close>

definition classify_event :: "policy_env \<Rightarrow> js \<Rightarrow> string \<Rightarrow> string \<Rightarrow> route option" where
  "classify_event env event base head =
     (if nullish event \<or> \<not> truthy (member event ''pull_request'') then None
      else
        (let flag = member (member event ''pull_request'') ''draft''; draft = (flag = Bool True)
         in case (case release_diff env event base head of
                    None \<Rightarrow> if draft then Some False else None
                  | r \<Rightarrow> r) of
              None \<Rightarrow> None
            | Some release \<Rightarrow>
                Some
                  (if draft then
                     \<lparr>rt_isReleaseOnly = release, rt_macosRequired = False,
                      rt_reason = ''draft pull request: Mac lane deferred to ready_for_review''\<rparr>
                   else if \<not> is_boolean flag then
                     \<lparr>rt_isReleaseOnly = release, rt_macosRequired = True,
                      rt_reason = ''draft flag is not a boolean: failing closed to macOS''\<rparr>
                   else
                     \<lparr>rt_isReleaseOnly = release, rt_macosRequired = \<not> release,
                      rt_reason =
                        (if release then ''same-repository release-please version/changelog-only diff''
                         else ''ordinary or unverified PR'')\<rparr>)))"

definition classify ::
    "policy_env \<Rightarrow> string \<Rightarrow> string \<Rightarrow> string \<Rightarrow> string option \<Rightarrow> route" where
  "classify env eventPath base head eventName =
     (let name = (case eventName of None \<Rightarrow> [] | Some n \<Rightarrow> n)
      in if name \<in> set NON_PR_EVENTS
         then \<lparr>rt_isReleaseOnly = False, rt_macosRequired = False, rt_reason = ''non-PR event''\<rparr>
         else if name \<noteq> [] \<and> name \<noteq> ''pull_request''
         then \<lparr>rt_isReleaseOnly = False, rt_macosRequired = True,
               rt_reason = ''unrecognised event '' @ json_quote name @ '': failing closed to macOS''\<rparr>
         else
           (case Option.bind (pv_readEvent env eventPath) (pv_parse env) of
              None \<Rightarrow> unknown_route
            | Some event \<Rightarrow>
                (case classify_event env event base head of
                   None \<Rightarrow> unknown_route
                 | Some r \<Rightarrow> r)))"

section \<open>Lemmas\<close>

lemma every_True_iff: "every f xs = Some True \<longleftrightarrow> (\<forall>x \<in> set xs. f x = Some True)"
  by (induction xs) (auto split: option.splits)

lemma bind_Some_iff: "Option.bind x f = Some y \<longleftrightarrow> (\<exists>v. x = Some v \<and> f v = Some y)"
  by (cases x) auto

lemma undefined_no_manifest: "\<not> manifest_path workspaces ''undefined''"
proof -
  have "''undefined'' \<noteq> w @ ''/package.json''" for w
  proof
    assume "''undefined'' = w @ ''/package.json''"
    then have "last ''undefined'' = last (w @ ''/package.json'')" by (rule arg_cong)
    then show False by simp
  qed
  moreover have "\<not> package_manifest ''undefined''" by code_simp
  ultimately show ?thesis by (auto simp: manifest_path_def list_ex_iff)
qed

lemma file_ok_True:
  assumes "file_ok env base head workspaces line = Some True"
  shows "\<exists>path rest before after. split_on (CHR 0x09) line = ''M'' # path # rest \<and>
           pv_show env base path = Some before \<and> pv_show env head path = Some after \<and>
           (path = ''CHANGELOG.md'' \<or>
            manifest_path workspaces path \<and>
            jsonVersionsOnly (pv_parse env) path before after workspaces = Some True)"
proof -
  let ?fs = "split_on (CHR 0x09) line"
  obtain path where p: "path_field (tl ?fs) = path" by simp
  have m: "hd ?fs = ''M''" using assms unfolding file_ok_def by (simp only: Let_def split: if_splits) simp
  obtain before after where s: "pv_show env base path = Some before" "pv_show env head path = Some after"
    and c: "(if path = ''CHANGELOG.md'' then
               Some (list_ex changelog_title (after # line_starts after) \<and>
                     list_ex changelog_release (after # line_starts after))
             else if manifest_path workspaces path
             then jsonVersionsOnly (pv_parse env) path before after workspaces
             else Some False) = Some True"
    using assms m unfolding file_ok_def by (simp only: Let_def p bind_Some_iff simp_thms if_False) blast
  have d: "path = ''CHANGELOG.md'' \<or>
      manifest_path workspaces path \<and> jsonVersionsOnly (pv_parse env) path before after workspaces = Some True"
    using c by (simp only: split: if_splits) simp_all
  have "tl ?fs \<noteq> []"
  proof
    assume "tl ?fs = []"
    then have "path = ''undefined''" using p by (simp add: path_field_def)
    then show False using d undefined_no_manifest [of workspaces] by simp
  qed
  then obtain rest where "tl ?fs = path # rest" using p by (cases "tl ?fs") (simp_all add: path_field_def)
  then have "?fs = ''M'' # path # rest" using m by (cases ?fs) simp_all
  then show ?thesis using s d by blast
qed

lemma versionDiffOnly_True:
  assumes "versionDiffOnly env base head = Some True"
  shows "\<exists>diff workspaces. pv_diff env base head = Some diff \<and>
           workspacePaths env base = Some workspaces \<and> workspacePaths env head = Some workspaces \<and>
           (\<forall>line \<in> set (split_on newline (js_trim diff)). file_ok env base head workspaces line = Some True)"
  using assms by (auto simp: versionDiffOnly_def bind_Some_iff Let_def every_True_iff split: if_splits)

lemma release_diff_True:
  "release_diff env event base head = Some True \<longleftrightarrow>
     authorized event \<and>
     (\<exists>b h. pv_commit env base = Some b \<and> pv_commit env head = Some h \<and> versionDiffOnly env b h = Some True)"
  by (auto simp: release_diff_def bind_Some_iff)

lemma removeVersion_Some:
  "removeVersion v = Some w \<longleftrightarrow>
     (\<exists>ms s. v = Obj ms \<and> member v ''version'' = Str s \<and> is_version s \<and> w = Obj (without ''version'' ms))"
  by (auto simp: removeVersion_def split: js.splits)

lemma without_map_of: "map_of (without key ms) k = (if k = key then None else map_of ms k)"
  by (induction ms) (auto simp: without_def)

lemma deep_equal_member:
  assumes "deep_equal (Obj ms) (Obj ns)" and "distinct (map fst ms)" and "distinct (map fst ns)"
  shows "case (map_of ms k, map_of ns k) of
           (None, None) \<Rightarrow> True
         | (Some v, Some w) \<Rightarrow> deep_equal v w
         | _ \<Rightarrow> False"
proof -
  have each: "\<exists>w. map_of ns (fst m) = Some w \<and> deep_equal (snd m) w" if "m \<in> set ms" for m
    using assms(1) that by (auto split: option.splits)
  then have "fst ` set ms \<subseteq> fst ` set ns" by (force dest: map_of_SomeD)
  moreover have "card (fst ` set ms) = card (fst ` set ns)"
    using assms by (simp add: distinct_card [symmetric]) (metis card_image distinct_card distinct_map length_map)
  ultimately have same: "fst ` set ms = fst ` set ns" by (simp add: card_subset_eq)
  show ?thesis
  proof (cases "map_of ms k")
    case None
    then have "map_of ns k = None" using same by (simp add: map_of_eq_None_iff)
    then show ?thesis using None by simp
  next
    case (Some v)
    then have "(k, v) \<in> set ms" by (rule map_of_SomeD)
    from each [OF this] show ?thesis using Some by auto
  qed
qed

lemma distinct_without: "distinct (map fst ms) \<Longrightarrow> distinct (map fst (without key ms))"
  by (simp add: without_def)

lemma is_boolean_iff: "is_boolean v \<longleftrightarrow> v = Bool True \<or> v = Bool False"
  by (cases v) auto

lemma event_skips:
  "(\<exists>r. classify_event env event base head = Some r \<and> \<not> rt_macosRequired r) \<longleftrightarrow>
     member (member event ''pull_request'') ''draft'' = Bool True \<or>
     member (member event ''pull_request'') ''draft'' = Bool False \<and> release_diff env event base head = Some True"
proof -
  let ?pr = "member event ''pull_request''"
  have pr: "truthy ?pr \<and> \<not> nullish event" if "member ?pr ''draft'' = Bool b" for b
    using that by (cases ?pr; cases event) (auto simp: nullish_def)
  show ?thesis
  proof (cases "member ?pr ''draft'' = Bool True \<or> member ?pr ''draft'' = Bool False")
    case True
    then have "truthy ?pr \<and> \<not> nullish event" using pr by blast
    then show ?thesis using True
      by (auto simp: classify_event_def Let_def is_boolean_iff split: option.splits)
  next
    case False
    then show ?thesis
      by (auto simp: classify_event_def Let_def is_boolean_iff split: option.splits if_splits)
  qed
qed

section \<open>Properties\<close>

text \<open>
  C26. When the macOS lane is left out: for an event that is no pull request, for a draft whose event
  can be read, and for a pull request, marked as no draft, whose branch and repositories are
  authorized and whose diff from base to head is versions and changelog only; everything else,
  whatever fails on the way, keeps the lane.
\<close>

theorem macos_skipped_iff:
  "\<not> rt_macosRequired (classify env eventPath base head eventName) \<longleftrightarrow>
     (\<exists>name. eventName = Some name \<and> name \<in> set NON_PR_EVENTS) \<or>
     eventName \<in> {None, Some [], Some ''pull_request''} \<and>
     (\<exists>text event. pv_readEvent env eventPath = Some text \<and> pv_parse env text = Some event \<and>
        (member (member event ''pull_request'') ''draft'' = Bool True \<or>
         member (member event ''pull_request'') ''draft'' = Bool False \<and> authorized event \<and>
         (\<exists>b h. pv_commit env base = Some b \<and> pv_commit env head = Some h \<and>
                versionDiffOnly env b h = Some True)))"
proof (cases "eventName \<in> {None, Some [], Some ''pull_request''}")
  case False
  then obtain name where "eventName = Some name" "name \<noteq> []" "name \<noteq> ''pull_request''"
    by (cases eventName) auto
  then show ?thesis using False by (auto simp: classify_def Let_def)
next
  case True
  have n: "(case eventName of None \<Rightarrow> [] | Some n \<Rightarrow> n) \<notin> set NON_PR_EVENTS"
    using True by (auto simp: NON_PR_EVENTS_def)
  have c: "classify env eventPath base head eventName =
      (case Option.bind (pv_readEvent env eventPath) (pv_parse env) of
         None \<Rightarrow> unknown_route
       | Some event \<Rightarrow> (case classify_event env event base head of None \<Rightarrow> unknown_route | Some r \<Rightarrow> r))"
    using True n by (auto simp: classify_def Let_def)
  have "\<not> rt_macosRequired (classify env eventPath base head eventName) \<longleftrightarrow>
      (\<exists>text event. pv_readEvent env eventPath = Some text \<and> pv_parse env text = Some event \<and>
         (\<exists>r. classify_event env event base head = Some r \<and> \<not> rt_macosRequired r))"
    unfolding c by (auto simp: unknown_route_def bind_Some_iff split: option.splits)
  also have "\<dots> \<longleftrightarrow>
      (\<exists>text event. pv_readEvent env eventPath = Some text \<and> pv_parse env text = Some event \<and>
        (member (member event ''pull_request'') ''draft'' = Bool True \<or>
         member (member event ''pull_request'') ''draft'' = Bool False \<and> authorized event \<and>
         (\<exists>b h. pv_commit env base = Some b \<and> pv_commit env head = Some h \<and>
                versionDiffOnly env b h = Some True)))"
    unfolding event_skips release_diff_True by blast
  finally have skipped: "\<not> rt_macosRequired (classify env eventPath base head eventName) \<longleftrightarrow> \<dots>" .
  have "\<not> (\<exists>name. eventName = Some name \<and> name \<in> set NON_PR_EVENTS)" using n by auto
  with skipped True show ?thesis by argo
qed

text \<open>
  What a diff that is left to the other lanes contains: every changed file was modified in place,
  and is the changelog or a manifest that parses, before and after, to values that agree in
  everything but versions, which are there on both sides.
\<close>

lemma release_diff_contents:
  assumes "versionDiffOnly env base head = Some True"
  shows "\<exists>diff workspaces. pv_diff env base head = Some diff \<and>
           workspacePaths env base = Some workspaces \<and> workspacePaths env head = Some workspaces \<and>
           (\<forall>line \<in> set (split_on newline (js_trim diff)).
              \<exists>path rest before after. split_on (CHR 0x09) line = ''M'' # path # rest \<and>
                pv_show env base path = Some before \<and> pv_show env head path = Some after \<and>
                (path = ''CHANGELOG.md'' \<or>
                 manifest_path workspaces path \<and>
                 (\<exists>b a l r. pv_parse env before = Some b \<and> pv_parse env after = Some a \<and>
                    strip path workspaces b = Some (Some l) \<and> strip path workspaces a = Some (Some r) \<and>
                    deep_equal l r)))"
proof -
  have j: "\<exists>b a l r. pv_parse env before = Some b \<and> pv_parse env after = Some a \<and>
              strip path workspaces b = Some (Some l) \<and> strip path workspaces a = Some (Some r) \<and>
              deep_equal l r"
    if "jsonVersionsOnly (pv_parse env) path before after workspaces = Some True" for path before after workspaces
    using that by (auto simp: jsonVersionsOnly_def bind_Some_iff split: option.splits)
  obtain diff workspaces where d: "pv_diff env base head = Some diff" "workspacePaths env base = Some workspaces"
      "workspacePaths env head = Some workspaces"
    and all: "\<forall>line \<in> set (split_on newline (js_trim diff)). file_ok env base head workspaces line = Some True"
    using versionDiffOnly_True [OF assms] by blast
  show ?thesis
  proof (rule exI [of _ diff], rule exI [of _ workspaces], intro conjI ballI)
    show "pv_diff env base head = Some diff" "workspacePaths env base = Some workspaces"
      "workspacePaths env head = Some workspaces" by (rule d)+
    fix line assume "line \<in> set (split_on newline (js_trim diff))"
    then have "file_ok env base head workspaces line = Some True" using all by blast
    from file_ok_True [OF this] obtain path rest before after
      where p: "split_on (CHR 0x09) line = ''M'' # path # rest" "pv_show env base path = Some before"
        "pv_show env head path = Some after"
      and k: "path = ''CHANGELOG.md'' \<or> manifest_path workspaces path \<and>
            jsonVersionsOnly (pv_parse env) path before after workspaces = Some True" by blast
    have "path = ''CHANGELOG.md'' \<or> manifest_path workspaces path \<and>
       (\<exists>b a l r. pv_parse env before = Some b \<and> pv_parse env after = Some a \<and>
          strip path workspaces b = Some (Some l) \<and> strip path workspaces a = Some (Some r) \<and> deep_equal l r)"
      using k j [of path before after workspaces] by argo
    with p show "\<exists>path rest before after. split_on (CHR 0x09) line = ''M'' # path # rest \<and>
                pv_show env base path = Some before \<and> pv_show env head path = Some after \<and>
                (path = ''CHANGELOG.md'' \<or>
                 manifest_path workspaces path \<and>
                 (\<exists>b a l r. pv_parse env before = Some b \<and> pv_parse env after = Some a \<and>
                    strip path workspaces b = Some (Some l) \<and> strip path workspaces a = Some (Some r) \<and>
                    deep_equal l r))"
      by blast
  qed
qed

lemma release_diff_contents_instance:
  "\<exists>env. versionDiffOnly env ''a'' ''b'' = Some True \<and>
     (\<forall>diff. pv_diff env ''a'' ''b'' = Some diff \<longrightarrow>
        (\<forall>line \<in> set (split_on newline (js_trim diff)). hd (split_on (CHR 0x09) line) = ''M''))"
proof -
  let ?env = "\<lparr>pv_readEvent = (\<lambda>p. None), pv_parse = (\<lambda>s. Some (Obj [])), pv_commit = Some,
     pv_diff = (\<lambda>b h. Some (''M'' @ [CHR 0x09] @ ''CHANGELOG.md'' @ [newline])),
     pv_show = (\<lambda>r p. Some (''# Changelog'' @ [newline] @ ''## [1.20.3]''))\<rparr>"
  have v: "versionDiffOnly ?env ''a'' ''b'' = Some True" by code_simp
  from release_diff_contents [OF v] obtain diff where
    "pv_diff ?env ''a'' ''b'' = Some diff"
    "\<forall>line \<in> set (split_on newline (js_trim diff)). hd (split_on (CHR 0x09) line) = ''M''"
    by (metis list.sel(1))
  then show ?thesis using v by (metis option.inject)
qed

text \<open>For a package manifest: the members other than the version are pairwise equal.\<close>

lemma version_bump_only:
  assumes "jsonVersionsOnly parse path before after workspaces = Some True"
    and "path \<noteq> ''.release-please-manifest.json''" and "\<not> ends_with ''package-lock.json'' path"
    and "parse before = Some b" and "parse after = Some a" and "js_wf b" and "js_wf a" and "k \<noteq> ''version''"
  shows "\<exists>ms ns. b = Obj ms \<and> a = Obj ns \<and>
           (case (map_of ms k, map_of ns k) of
              (None, None) \<Rightarrow> True
            | (Some v, Some w) \<Rightarrow> deep_equal v w
            | _ \<Rightarrow> False)"
proof -
  obtain l r where "removeVersion b = Some l" "removeVersion a = Some r" and e: "deep_equal l r"
    using assms(1-5) by (auto simp: jsonVersionsOnly_def bind_Some_iff strip_def split: option.splits)
  then obtain ms ns where b: "b = Obj ms" "l = Obj (without ''version'' ms)"
    and a: "a = Obj ns" "r = Obj (without ''version'' ns)"
    by (auto simp: removeVersion_Some)
  have "distinct (map fst ms)" "distinct (map fst ns)" using assms(6,7) by (simp_all add: a b)
  from deep_equal_member [OF e [unfolded a b] distinct_without [OF this(1)] distinct_without [OF this(2)], of k]
  show ?thesis using assms(8) by (simp add: a b without_map_of)
qed

end
