(* ===== verification/JsonParse.thy ===== *)
theory JsonParse
  imports JsValue "HOL-Library.AList"
begin

text \<open>
  \<open>JSON.parse\<close>, as a recursive descent over the text: a parser takes the text that is left and
  returns the value it read with the text after it; \<open>None\<close> is the SyntaxError. An escape
  for a code unit above 255 is outside the alphabet of the model and reads as an error.
\<close>

section \<open>Objects\<close>

text \<open>
  Own properties are enumerated with the array indices first, in ascending order, and the other
  keys in the order in which they were added. Setting a property that exists keeps its place.
\<close>

definition array_index :: "string \<Rightarrow> bool" where
  "array_index k \<longleftrightarrow>
     k \<noteq> [] \<and> list_all is_digit k \<and> (hd k = CHR ''0'' \<longrightarrow> k = ''0'') \<and> parse_digits k < 4294967295"

definition comes_before :: "string \<Rightarrow> string \<Rightarrow> bool" where
  "comes_before k k' \<longleftrightarrow> array_index k \<and> (array_index k' \<longrightarrow> parse_digits k < parse_digits k')"

fun insert_member :: "string \<Rightarrow> js \<Rightarrow> (string \<times> js) list \<Rightarrow> (string \<times> js) list" where
  "insert_member k v [] = [(k, v)]"
| "insert_member k v (m # ms) =
     (if comes_before k (fst m) then (k, v) # m # ms else m # insert_member k v ms)"

definition put_member :: "string \<Rightarrow> js \<Rightarrow> (string \<times> js) list \<Rightarrow> (string \<times> js) list" where
  "put_member k v ms =
     (if k \<in> fst ` set ms then AList.update k v ms
      else insert_member k v ms)"

definition make_object :: "(string \<times> js) list \<Rightarrow> (string \<times> js) list" where
  "make_object ms = foldl (\<lambda>acc (k, v). put_member k v acc) [] ms"

text \<open>Putting members in one by one keeps the keys distinct, and a key added once reads back.\<close>

lemma insert_member_set: "set (insert_member k v ms) = insert (k, v) (set ms)"
  by (induction ms) auto

lemma insert_member_distinct:
  "k \<notin> fst ` set ms \<Longrightarrow> distinct (map fst ms) \<Longrightarrow> distinct (map fst (insert_member k v ms))"
  by (induction ms) (auto simp: insert_member_set)

lemma map_of_insert_member: "k \<notin> fst ` set ms \<Longrightarrow> map_of (insert_member k v ms) = (map_of ms)(k \<mapsto> v)"
  by (induction ms) (auto simp: fun_eq_iff)

lemma put_member_keys [simp]: "fst ` set (put_member k v ms) = insert k (fst ` set ms)"
  using dom_update [of k v ms] by (force simp: put_member_def insert_member_set)

lemma put_member_distinct: "distinct (map fst ms) \<Longrightarrow> distinct (map fst (put_member k v ms))"
  by (simp add: put_member_def insert_member_distinct distinct_update)

lemma map_of_put_member [simp]: "map_of (put_member k v ms) = (map_of ms)(k \<mapsto> v)"
  by (simp add: put_member_def map_of_insert_member update_conv')

lemma member_put [simp]: "member (Obj (put_member k v ms)) k' = (if k' = k then v else member (Obj ms) k')"
  by (simp add: map_of_put_member)

section \<open>Tokens\<close>

definition json_ws :: "char \<Rightarrow> bool" where
  "json_ws c \<longleftrightarrow> c = CHR 0x20 \<or> c = CHR 0x0A \<or> c = CHR 0x0D \<or> c = CHR 0x09"

definition skip_ws :: "string \<Rightarrow> string" where
  "skip_ws s = dropWhile json_ws s"

text \<open>The characters of a string literal up to its closing quote.\<close>

definition simple_escape :: "char \<Rightarrow> char option" where
  "simple_escape c =
     (if c = CHR 0x22 \<or> c = CHR 0x5C \<or> c = CHR ''/'' then Some c
      else if c = CHR ''b'' then Some (CHR 0x08)
      else if c = CHR ''f'' then Some (CHR 0x0C)
      else if c = CHR ''n'' then Some (CHR 0x0A)
      else if c = CHR ''r'' then Some (CHR 0x0D)
      else if c = CHR ''t'' then Some (CHR 0x09)
      else None)"

definition unicode_escape :: "string \<Rightarrow> char option" where
  "unicode_escape h =
     (case traverse (radix_val 16) h of
        None \<Rightarrow> None
      | Some vs \<Rightarrow>
          (let n = foldl (\<lambda>acc v. 16 * acc + v) 0 vs
           in if n < 256 then Some (char_of n) else None))"

definition prepend :: "char \<Rightarrow> (string \<times> string) option \<Rightarrow> (string \<times> string) option" where
  "prepend c = map_option (\<lambda>(s, r). (c # s, r))"

fun parse_chars :: "string \<Rightarrow> (string \<times> string) option" where
  "parse_chars [] = None"
| "parse_chars (c # cs) =
     (if c = CHR 0x22 then Some ([], cs)
      else if c = CHR 0x5C then
        (case cs of
           [] \<Rightarrow> None
         | e # r \<Rightarrow>
             if e = CHR ''u'' then
               (if length r < 4 then None
                else (case unicode_escape (take 4 r) of
                        None \<Rightarrow> None
                      | Some x \<Rightarrow> prepend x (parse_chars (drop 4 r))))
             else
               (case simple_escape e of None \<Rightarrow> None | Some x \<Rightarrow> prepend x (parse_chars r)))
      else if (of_char c :: nat) < 32 then None
      else prepend c (parse_chars cs))"

text \<open>A number literal: no leading zero, digits after the point and in the exponent.\<close>

definition json_exponent :: "string \<Rightarrow> (int \<times> string) option" where
  "json_exponent s =
     (if s \<noteq> [] \<and> hd s \<in> {CHR ''e'', CHR ''E''} then
        (let r = tl s;
             neg = (r \<noteq> [] \<and> hd r = CHR ''-'');
             ds = (if r \<noteq> [] \<and> hd r \<in> {CHR ''-'', CHR ''+''} then tl r else r);
             e = takeWhile is_digit ds
         in if e = [] then None
            else Some (if neg then - int (parse_digits e) else int (parse_digits e), dropWhile is_digit ds))
      else Some (0, s))"

definition json_fraction :: "string \<Rightarrow> (string \<times> string) option" where
  "json_fraction s =
     (if s \<noteq> [] \<and> hd s = CHR ''.'' then
        (let f = takeWhile is_digit (tl s)
         in if f = [] then None else Some (f, dropWhile is_digit (tl s)))
      else Some ([], s))"

definition parse_number :: "string \<Rightarrow> (js \<times> string) option" where
  "parse_number s =
     (let neg = (s \<noteq> [] \<and> hd s = CHR ''-''); t = (if neg then tl s else s);
          ip = takeWhile is_digit t
      in if ip = [] \<or> hd ip = CHR ''0'' \<and> length ip > 1 then None
         else (case json_fraction (dropWhile is_digit t) of
                 None \<Rightarrow> None
               | Some (fp, r) \<Rightarrow>
                   (case json_exponent r of
                      None \<Rightarrow> None
                    | Some (e, r') \<Rightarrow> Some (Num (canonical_dec neg (ip @ fp) (int (length ip) + e)), r'))))"

definition parse_literal :: "string \<Rightarrow> (js \<times> string) option" where
  "parse_literal s =
     (if starts_with ''null'' s then Some (Null, drop 4 s)
      else if starts_with ''true'' s then Some (Bool True, drop 4 s)
      else if starts_with ''false'' s then Some (Bool False, drop 5 s)
      else None)"

lemma prepend_Some_iff: "prepend c p = Some (s, r) \<longleftrightarrow> (\<exists>s'. p = Some (s', r) \<and> s = c # s')"
  by (auto simp: prepend_def)

lemma parse_chars_shrinks: "parse_chars s = Some (k, r) \<Longrightarrow> length r < length s"
proof (induction s arbitrary: k r rule: parse_chars.induct)
  case (2 c cs)
  then show ?case
    by (fastforce simp: prepend_Some_iff split: if_splits list.splits option.splits)
qed simp

lemma skip_ws_length: "length (skip_ws s) \<le> length s"
  by (simp add: skip_ws_def length_dropWhile_le)

lemma skip_ws_shorter: "skip_ws s = c # r \<Longrightarrow> length r < length s"
  using skip_ws_length [of s] by simp

section \<open>Values\<close>

text \<open>
  The recursion checks that a part has consumed something before it goes on with the rest; it
  always has (\<open>parse_shrinks\<close>), so the checks only serve the termination proof.
\<close>

function (sequential) parse_value :: "string \<Rightarrow> (js \<times> string) option"
  and parse_elems :: "string \<Rightarrow> (js list \<times> string) option"
  and parse_members :: "(string \<times> js) list \<Rightarrow> string \<Rightarrow> ((string \<times> js) list \<times> string) option" where
  "parse_value s =
     (case skip_ws s of
        [] \<Rightarrow> None
      | c # r \<Rightarrow>
          if c = CHR 0x22 then
            (case parse_chars r of None \<Rightarrow> None | Some (k, r') \<Rightarrow> Some (Str k, r'))
          else if c = CHR ''['' then
            (case skip_ws r of
               [] \<Rightarrow> None
             | d # r' \<Rightarrow>
                 if d = CHR '']'' then Some (Arr [], r')
                 else (case parse_elems r of None \<Rightarrow> None | Some (vs, r'') \<Rightarrow> Some (Arr vs, r'')))
          else if c = CHR ''{'' then
            (case skip_ws r of
               [] \<Rightarrow> None
             | d # r' \<Rightarrow>
                 if d = CHR ''}'' then Some (Obj [], r')
                 else (case parse_members [] r of None \<Rightarrow> None | Some (ms, r'') \<Rightarrow> Some (Obj ms, r'')))
          else if c = CHR ''-'' \<or> is_digit c then parse_number (c # r)
          else parse_literal (c # r))"
| "parse_elems s =
     (case parse_value s of
        None \<Rightarrow> None
      | Some (v, r) \<Rightarrow>
          if length r < length s then
            (case skip_ws r of
               [] \<Rightarrow> None
             | c # r' \<Rightarrow>
                 if c = CHR '']'' then Some ([v], r')
                 else if c = CHR '','' then
                   (case parse_elems r' of None \<Rightarrow> None | Some (vs, r'') \<Rightarrow> Some (v # vs, r''))
                 else None)
          else None)"
| "parse_members acc s =
     (case skip_ws s of
        [] \<Rightarrow> None
      | q # s1 \<Rightarrow>
          if q = CHR 0x22 then
            (case parse_chars s1 of
               None \<Rightarrow> None
             | Some (k, s2) \<Rightarrow>
                 (case skip_ws s2 of
                    [] \<Rightarrow> None
                  | c # s3 \<Rightarrow>
                      if c = CHR '':'' then
                        (case parse_value s3 of
                           None \<Rightarrow> None
                         | Some (v, r) \<Rightarrow>
                             if length r < length s3 then
                               (case skip_ws r of
                                  [] \<Rightarrow> None
                                | d # r' \<Rightarrow>
                                    if d = CHR ''}'' then Some (put_member k v acc, r')
                                    else if d = CHR '','' then parse_members (put_member k v acc) r'
                                    else None)
                             else None)
                      else None))
          else None)"
  by pat_completeness auto

termination
  by (relation "measures [\<lambda>x. case x of Inl s \<Rightarrow> length s | Inr (Inl s) \<Rightarrow> length s | Inr (Inr (acc, s)) \<Rightarrow> length s,
                          \<lambda>x. case x of Inl s \<Rightarrow> 0 | Inr y \<Rightarrow> 1]")
    (auto dest!: skip_ws_shorter parse_chars_shrinks)

declare parse_value.simps [simp del] parse_elems.simps [simp del] parse_members.simps [simp del]

definition js_parse :: "string \<Rightarrow> js option" where
  "js_parse s =
     (case parse_value s of
        None \<Rightarrow> None
      | Some (v, r) \<Rightarrow> if skip_ws r = [] then Some v else None)"

section \<open>Every parser consumes\<close>

lemma json_fraction_length: "json_fraction s = Some (f, r) \<Longrightarrow> length r \<le> length s"
  using length_dropWhile_le [of is_digit "tl s"]
  by (auto simp: json_fraction_def Let_def split: if_splits)

lemma json_exponent_length: "json_exponent s = Some (e, r) \<Longrightarrow> length r \<le> length s"
  using length_dropWhile_le [of is_digit "tl s"] length_dropWhile_le [of is_digit "tl (tl s)"]
  by (auto simp: json_exponent_def Let_def split: if_splits)

lemma parse_number_shrinks: "parse_number s = Some (v, r) \<Longrightarrow> length r < length s"
proof -
  assume a: "parse_number s = Some (v, r)"
  define t where "t = (if s \<noteq> [] \<and> hd s = CHR ''-'' then tl s else s)"
  have t: "length t \<le> length s" by (simp add: t_def)
  obtain fp r1 e where ip: "takeWhile is_digit t \<noteq> []" and f: "json_fraction (dropWhile is_digit t) = Some (fp, r1)"
    and e: "json_exponent r1 = Some (e, r)"
    using a by (auto simp: parse_number_def Let_def t_def [symmetric] split: if_splits option.splits)
  have "length (takeWhile is_digit t) + length (dropWhile is_digit t) = length t"
    by (metis length_append takeWhile_dropWhile_id)
  then have "length (dropWhile is_digit t) < length t" using ip by (cases "takeWhile is_digit t") auto
  then show ?thesis using json_fraction_length [OF f] json_exponent_length [OF e] t by linarith
qed

lemma parse_literal_shrinks: "parse_literal s = Some (v, r) \<Longrightarrow> length r < length s"
  by (auto simp: parse_literal_def starts_with_iff split: if_splits)

lemma parse_shrinks:
  "parse_value s = Some (v, r) \<Longrightarrow> length r < length s"
  "parse_elems s = Some (vs, r) \<Longrightarrow> length r < length s"
  "parse_members acc s = Some (ms, r) \<Longrightarrow> length r < length s"
proof (induction s and s and acc s arbitrary: v r and vs r and ms r rule: parse_value_parse_elems_parse_members.induct)
  case (1 s)
  obtain c q where q: "skip_ws s = c # q"
    using 1(3) by (cases "skip_ws s") (simp_all add: parse_value.simps [of s])
  have "length r \<le> length q"
  proof -
    note got = 1(3) [unfolded parse_value.simps [of s] q list.case]
    consider (string) "c = CHR 0x22" | (array) "c = CHR ''[''" | (object) "c = CHR ''{''"
      | (other) "c \<noteq> CHR 0x22" "c \<noteq> CHR ''[''" "c \<noteq> CHR ''{''" by blast
    then show ?thesis
    proof cases
      case string
      then show ?thesis using got by (auto dest: parse_chars_shrinks split: option.splits)
    next
      case array
      obtain d q' where d: "skip_ws q = d # q'" using got array by (cases "skip_ws q") auto
      show ?thesis
      proof (cases "d = CHR '']''")
        case True
        then show ?thesis using got array d skip_ws_shorter [OF d] by simp
      next
        case False
        then obtain vs where "parse_elems q = Some (vs, r)" using got array d by (auto split: option.splits)
        then show ?thesis using 1(1) [OF q _ array d False] array by simp
      qed
    next
      case object
      obtain d q' where d: "skip_ws q = d # q'" using got object by (cases "skip_ws q") auto
      show ?thesis
      proof (cases "d = CHR ''}''")
        case True
        then show ?thesis using got object d skip_ws_shorter [OF d] by simp
      next
        case False
        then obtain ms where "parse_members [] q = Some (ms, r)" using got object d by (auto split: option.splits)
        then show ?thesis using 1(2) [OF q _ _ object d False] object by simp
      qed
    next
      case other
      then show ?thesis using got
        by (fastforce dest: parse_number_shrinks parse_literal_shrinks split: if_splits)
    qed
  qed
  then show ?case using skip_ws_shorter [OF q] by simp
next
  case (2 s)
  obtain v q where v: "parse_value s = Some (v, q)" "length q < length s"
    using 2(3) by (subst (asm) parse_elems.simps) (auto split: option.splits if_splits)
  obtain c q' where c: "skip_ws q = c # q'"
    using 2(3) v by (subst (asm) parse_elems.simps) (auto split: list.splits)
  have "length r \<le> length q'"
  proof (cases "c = CHR '']''")
    case True
    then show ?thesis using 2(3) v c by (subst (asm) parse_elems.simps) simp
  next
    case False
    then obtain vs' where "c = CHR '',''" "parse_elems q' = Some (vs', r)"
      using 2(3) v c by (subst (asm) parse_elems.simps) (auto split: if_splits option.splits)
    then show ?thesis using 2(2) [OF v(1) refl v(2) c False] by simp
  qed
  then show ?case using skip_ws_shorter [OF c] v(2) by simp
next
  case (3 acc s)
  obtain s1 k s2 s3 v q
    where s1: "skip_ws s = CHR 0x22 # s1" and s2: "parse_chars s1 = Some (k, s2)"
      and s3: "skip_ws s2 = CHR '':'' # s3" and v: "parse_value s3 = Some (v, q)" "length q < length s3"
    using 3(3) by (subst (asm) parse_members.simps) (auto split: list.splits option.splits if_splits)
  obtain d q' where d: "skip_ws q = d # q'"
    using 3(3) s1 s2 s3 v by (subst (asm) parse_members.simps) (auto split: list.splits)
  have "length r \<le> length q'"
  proof (cases "d = CHR ''}''")
    case True
    then show ?thesis using 3(3) s1 s2 s3 v d by (subst (asm) parse_members.simps) simp
  next
    case False
    then have c: "d = CHR '',''" "parse_members (put_member k v acc) q' = Some (ms, r)"
      using 3(3) s1 s2 s3 v d by (subst (asm) parse_members.simps, simp split: if_splits)+
    then show ?thesis using "3.IH"(2) [OF s1 refl s2 refl s3 refl v(1) refl v(2) d False c] by simp
  qed
  then show ?case
    using skip_ws_shorter [OF d] v(2) skip_ws_shorter [OF s3] parse_chars_shrinks [OF s2] skip_ws_shorter [OF s1]
    by simp
qed

lemma parse_elems_step:
  "parse_elems s =
     (case parse_value s of
        None \<Rightarrow> None
      | Some (v, r) \<Rightarrow>
          (case skip_ws r of
             [] \<Rightarrow> None
           | c # r' \<Rightarrow>
               if c = CHR '']'' then Some ([v], r')
               else if c = CHR '','' then
                 (case parse_elems r' of None \<Rightarrow> None | Some (vs, r'') \<Rightarrow> Some (v # vs, r''))
               else None))"
  by (subst parse_elems.simps) (auto split: option.split dest: parse_shrinks(1))

end
