(* ===== verification/Boundaries.thy ===== *)
theory Boundaries
  imports JsonParse NodePath
begin

text \<open>
  \<^verbatim>\<open>tools/workspace/check-boundaries.mjs\<close>: the check of the module boundaries between the
  projects of the workspace. What running \<^verbatim>\<open>nx\<close> and \<^verbatim>\<open>cargo\<close> yields is a parameter, as are the files
  and the temporary directory. A thrown error is \<open>Inl\<close> of its message.
\<close>

section \<open>parseArgs\<close>

record check_args =
  ca_graph :: "string option"
  ca_workspace :: string

fun parse_flags :: "string \<Rightarrow> check_args \<Rightarrow> string list \<Rightarrow> string + check_args" where
  "parse_flags cwd args [] = Inr args"
| "parse_flags cwd args [flag] =
     Inl (''usage: check-boundaries.mjs [--graph FILE] [--workspace DIR] (got '' @ flag @ '')'')"
| "parse_flags cwd args (flag # v # argv) =
     (if flag = ''--graph'' then parse_flags cwd (args\<lparr>ca_graph := Some (path_resolve cwd v)\<rparr>) argv
      else if flag = ''--workspace'' then parse_flags cwd (args\<lparr>ca_workspace := path_resolve cwd v\<rparr>) argv
      else Inl (''usage: check-boundaries.mjs [--graph FILE] [--workspace DIR] (got '' @ flag @ '')''))"

definition check_parseArgs :: "string \<Rightarrow> string \<Rightarrow> string list \<Rightarrow> string + check_args" where
  "check_parseArgs here cwd argv =
     parse_flags cwd \<lparr>ca_graph = None, ca_workspace = path_resolve here ''../..''\<rparr> argv"

section \<open>The shape of a graph\<close>

definition LEAF_TYPES :: "string list" where
  "LEAF_TYPES = [''type:e2e'', ''type:test'']"

definition CONTRACT :: string where
  "CONTRACT = ''type:contract''"

text \<open>\<open>Object.hasOwn\<close>.\<close>

definition has_own :: "js \<Rightarrow> string \<Rightarrow> bool" where
  "has_own v k \<longleftrightarrow>
     k \<in> fst ` set (entries v) \<or> (case v of Arr xs \<Rightarrow> k = ''length'' | _ \<Rightarrow> False)"

definition node_tags :: "js \<Rightarrow> js" where
  "node_tags node = member (member node ''data'') ''tags''"

definition bad_tags :: "js \<Rightarrow> bool" where
  "bad_tags node \<longleftrightarrow> (case node_tags node of Arr tags \<Rightarrow> \<not> list_all is_string tags | _ \<Rightarrow> True)"

definition bad_dependencies :: "js \<Rightarrow> bool" where
  "bad_dependencies deps \<longleftrightarrow>
     (case deps of Arr ds \<Rightarrow> \<not> list_all (\<lambda>dep. is_string (member dep ''target'')) ds | _ \<Rightarrow> True)"

definition target_of :: "js \<Rightarrow> string" where
  "target_of dep = string_or (member dep ''target'') []"

fun targets :: "js \<Rightarrow> string list" where
  "targets (Arr ds) = map target_of ds"
| "targets v = []"

definition is_known :: "js \<Rightarrow> string \<Rightarrow> bool" where
  "is_known nodes name \<longleftrightarrow> has_own nodes name \<or> starts_with ''npm:'' name"

fun first_dangling :: "js \<Rightarrow> (string \<times> js) list \<Rightarrow> string option" where
  "first_dangling nodes [] = None"
| "first_dangling nodes ((source, deps) # rest) =
     (case find (\<lambda>target. \<not> is_known nodes target) (targets deps) of
        Some target \<Rightarrow> Some (source @ '' depends on unknown project '' @ target)
      | None \<Rightarrow> first_dangling nodes rest)"

definition graphShapeError :: "js \<Rightarrow> string option" where
  "graphShapeError graph =
     (let nodes = member graph ''nodes''; deps = member graph ''dependencies''
      in if \<not> is_object graph then Some ''no `graph` object''
         else if \<not> is_object nodes then Some ''no `nodes` object''
         else if \<not> is_object deps then Some ''no `dependencies` object''
         else if entries nodes = [] then Some ''no projects''
         else
           (case find (\<lambda>(name, node). bad_tags node) (entries nodes) of
              Some (name, node) \<Rightarrow> Some (name @ '' has no tags array'')
            | None \<Rightarrow>
           (case find (\<lambda>(name, ds). bad_dependencies ds) (entries deps) of
              Some (name, ds) \<Rightarrow> Some (name @ '' dependencies are not a list of { target } records'')
            | None \<Rightarrow>
           (case find (\<lambda>name. \<not> has_own deps name) (map fst (entries nodes)) of
              Some name \<Rightarrow> Some (''no dependency list for '' @ name)
            | None \<Rightarrow>
           (case find (\<lambda>name. \<not> is_known nodes name) (map fst (entries deps)) of
              Some name \<Rightarrow> Some (''dependencies listed for unknown project '' @ name)
            | None \<Rightarrow> first_dangling nodes (entries deps))))))"

definition validateGraph :: "js \<Rightarrow> string \<Rightarrow> string + js" where
  "validateGraph graph source =
     (case graphShapeError graph of
        Some e \<Rightarrow> Inl (source @ '': not an nx project graph ('' @ e @ '')'')
      | None \<Rightarrow> Inr graph)"

section \<open>The edges of Cargo\<close>

definition crate_dependencies :: "string \<Rightarrow> js list \<Rightarrow> string list" where
  "crate_dependencies cratesDir deps =
     map (\<lambda>dep. basename (string_or (member dep ''path'') []))
       (filter (\<lambda>dep. is_string (member dep ''path'') \<and>
                      dirname (string_or (member dep ''path'') []) = cratesDir) deps)"

fun crate_edges ::
    "string \<Rightarrow> (string \<times> string list) list \<Rightarrow> js list \<Rightarrow> string + (string \<times> string list) list" where
  "crate_edges cratesDir crates [] = Inr crates"
| "crate_edges cratesDir crates (pkg # pkgs) =
     (case (member pkg ''manifest_path'', member pkg ''dependencies'') of
        (Str manifest_path, Arr deps) \<Rightarrow>
          (let crateDir = dirname manifest_path
           in if dirname crateDir \<noteq> cratesDir then crate_edges cratesDir crates pkgs
              else crate_edges cratesDir
                     (AList.update (basename crateDir) (crate_dependencies cratesDir deps) crates) pkgs)
      | _ \<Rightarrow>
          Inl (''cargo metadata: malformed package ''
               @ (case stringify (member pkg ''name'') of None \<Rightarrow> ''undefined'' | Some s \<Rightarrow> s)))"

definition cargoCrateEdges :: "js \<Rightarrow> string \<Rightarrow> string + (string \<times> string list) list" where
  "cargoCrateEdges metadata cratesDir =
     (case member metadata ''packages'' of
        Arr pkgs \<Rightarrow> crate_edges cratesDir [] pkgs
      | _ \<Rightarrow> Inl ''cargo metadata: no `packages` list'')"

section \<open>Violations\<close>

text \<open>The tags of a project of a graph whose shape has been checked.\<close>

definition tags_of :: "js \<Rightarrow> string \<Rightarrow> js list" where
  "tags_of graph name =
     (case node_tags (at_key (member graph ''nodes'') name) of Arr tags \<Rightarrow> tags | _ \<Rightarrow> [])"

definition has_tag :: "js \<Rightarrow> string \<Rightarrow> string \<Rightarrow> bool" where
  "has_tag graph name tag \<longleftrightarrow> Str tag \<in> set (tags_of graph name)"

definition tagViolations :: "js \<Rightarrow> string \<Rightarrow> string \<Rightarrow> string list" where
  "tagViolations graph source target =
     (case find (has_tag graph target) LEAF_TYPES of
        Some leaf \<Rightarrow> [source @ '' depends on '' @ target @ '', a '' @ leaf @ '' project (a leaf)'']
      | None \<Rightarrow> [])
     @ (if has_tag graph source CONTRACT \<and> \<not> has_tag graph target CONTRACT
        then [source @ '' is '' @ CONTRACT @ '' but depends on '' @ target @ '', which is not''] else [])"

text \<open>The edges between projects, in the order of the loops.\<close>

definition project_edges :: "js \<Rightarrow> (string \<times> string) list" where
  "project_edges graph =
     concat (map (\<lambda>(source, deps).
                map (Pair source) (filter (\<lambda>target. \<not> starts_with ''npm:'' target) (targets deps)))
              (entries (member graph ''dependencies'')))"

definition edge_name :: "string \<Rightarrow> string \<Rightarrow> string" where
  "edge_name source target = source @ ''->'' @ target"

definition boundaryViolations :: "js \<Rightarrow> (string \<times> string list) list \<Rightarrow> string list" where
  "boundaryViolations graph crates =
     (let edges = map (\<lambda>(source, target). edge_name source target) (project_edges graph)
      in concat (map (\<lambda>(source, target). tagViolations graph source target) (project_edges graph))
         @ concat (map (\<lambda>(crate, deps).
             map (\<lambda>dep. ''crates/'' @ crate @ ''/Cargo.toml depends on '' @ dep
                        @ '' but the Nx graph has no '' @ crate @ '' -> '' @ dep
                        @ '' edge (declare it in implicitDependencies)'')
               (filter (\<lambda>dep. edge_name crate dep \<notin> set edges) deps)) crates))"

section \<open>The script\<close>

text \<open>A command that has run: its exit status, if it has one, what it printed, and, for \<^verbatim>\<open>nx graph\<close>,
  the file it has written.\<close>

record command_run =
  cr_status :: "nat option"
  cr_stdout :: string
  cr_stderr :: string
  cr_file :: "string option"

record boundary_env =
  be_here :: string
  be_cwd :: string
  be_read :: "string \<Rightarrow> string option"
  be_mkdtemp :: "string option"
  be_nx :: "string \<Rightarrow> string \<Rightarrow> command_run"
  be_cargo :: "string \<Rightarrow> command_run"
  be_realpath :: "string \<Rightarrow> string option"

text \<open>\<open>validateGraph(JSON.parse(text).graph, source)\<close>.\<close>

definition parse_graph :: "string option \<Rightarrow> string \<Rightarrow> string + js" where
  "parse_graph content source =
     (case content of
        None \<Rightarrow> Inl ''ENOENT''
      | Some text \<Rightarrow>
          (case js_parse text of
             None \<Rightarrow> Inl ''SyntaxError''
           | Some v \<Rightarrow> if nullish v then Inl ''TypeError'' else validateGraph (member v ''graph'') source))"

text \<open>The temporary directories there are, and the result; \<open>finally\<close> removes the one it has made.\<close>

definition loadGraph :: "boundary_env \<Rightarrow> string option \<Rightarrow> string \<Rightarrow> string list \<Rightarrow> string list \<times> (string + js)" where
  "loadGraph env file workspace dirs =
     (case file of
        Some f \<Rightarrow> (dirs, parse_graph (be_read env f) f)
      | None \<Rightarrow>
          (case be_mkdtemp env of
             None \<Rightarrow> (dirs, Inl ''cannot make a temporary directory'')
           | Some dir \<Rightarrow>
               (let run = be_nx env workspace (path_join dir ''graph.json'')
                in (filter (\<lambda>d. d \<noteq> dir) (dir # dirs),
                    if cr_status run \<noteq> Some 0
                    then Inl (''nx graph failed:'' @ [newline] @ cr_stdout run @ cr_stderr run)
                    else parse_graph (cr_file run) ''nx graph''))))"

definition readCrates :: "boundary_env \<Rightarrow> string \<Rightarrow> string + (string \<times> string list) list" where
  "readCrates env workspace =
     (let run = be_cargo env workspace
      in if cr_status run \<noteq> Some 0 then Inl (''cargo metadata failed:'' @ [newline] @ cr_stderr run)
         else
           (case js_parse (cr_stdout run) of
              None \<Rightarrow> Inl ''SyntaxError''
            | Some metadata \<Rightarrow>
                (case be_realpath env (path_join workspace ''crates'') of
                   None \<Rightarrow> Inl ''ENOENT''
                 | Some cratesDir \<Rightarrow> cargoCrateEdges metadata cratesDir)))"

text \<open>What the script prints, and its exit status.\<close>

definition check_report :: "string list \<Rightarrow> string list \<times> nat" where
  "check_report violations =
     (if violations \<noteq> [] then (map (\<lambda>v. ''boundary: '' @ v) violations, 1) else ([''boundaries: ok''], 0))"

definition check_boundaries :: "boundary_env \<Rightarrow> string list \<Rightarrow> string list \<Rightarrow> string list \<times> (string + string list \<times> nat)" where
  "check_boundaries env argv dirs =
     (case check_parseArgs (be_here env) (be_cwd env) argv of
        Inl e \<Rightarrow> (dirs, Inl e)
      | Inr args \<Rightarrow>
          (case loadGraph env (ca_graph args) (ca_workspace args) dirs of
             (dirs', Inl e) \<Rightarrow> (dirs', Inl e)
           | (dirs', Inr graph) \<Rightarrow>
               (dirs',
                case readCrates env (ca_workspace args) of
                  Inl e \<Rightarrow> Inl e
                | Inr crates \<Rightarrow> Inr (check_report (boundaryViolations graph crates)))))"

section \<open>Lemmas\<close>

lemma find_None_all: "find P xs = None \<longleftrightarrow> (\<forall>x \<in> set xs. \<not> P x)"
  by (induction xs) auto

lemma tagViolations_empty:
  "tagViolations graph source target = [] \<longleftrightarrow>
     \<not> has_tag graph target ''type:e2e'' \<and> \<not> has_tag graph target ''type:test'' \<and>
     (has_tag graph source CONTRACT \<longrightarrow> has_tag graph target CONTRACT)"
  by (auto simp: tagViolations_def LEAF_TYPES_def split: option.splits if_splits)

lemma violations_empty:
  "boundaryViolations graph crates = [] \<longleftrightarrow>
     (\<forall>(source, target) \<in> set (project_edges graph). tagViolations graph source target = []) \<and>
     (\<forall>(crate, deps) \<in> set crates. \<forall>dep \<in> set deps.
        \<exists>(source, target) \<in> set (project_edges graph). edge_name source target = edge_name crate dep)"
proof -
  have 1: "concat (map (\<lambda>(s, t). f s t) es) = [] \<longleftrightarrow> (\<forall>(s, t) \<in> set es. f s t = [])"
    for f :: "string \<Rightarrow> string \<Rightarrow> string list" and es
    by auto
  have 2: "concat (map (\<lambda>(c, ds). map (g c) (filter (P c) ds)) cs) = [] \<longleftrightarrow>
           (\<forall>(c, ds) \<in> set cs. \<forall>d \<in> set ds. \<not> P c d)"
    for g :: "string \<Rightarrow> string \<Rightarrow> string" and P and cs :: "(string \<times> string list) list"
    by (auto simp: filter_empty_conv)
  have 3: "\<not> edge_name c d \<notin> set (map (\<lambda>(s, t). edge_name s t) es) \<longleftrightarrow>
           (\<exists>(s, t) \<in> set es. edge_name s t = edge_name c d)" for c d es
    by force
  show ?thesis
    unfolding boundaryViolations_def Let_def append_is_Nil_conv 1
    using 2 [of "\<lambda>crate dep. ''crates/'' @ crate @ ''/Cargo.toml depends on '' @ dep
                        @ '' but the Nx graph has no '' @ crate @ '' -> '' @ dep
                        @ '' edge (declare it in implicitDependencies)''"
        "\<lambda>crate dep. edge_name crate dep \<notin> set (map (\<lambda>(s, t). edge_name s t) (project_edges graph))" crates]
    unfolding 3 by argo
qed

text \<open>The edge of a graph is a pair of names, a name of an edge a text: they agree for names without
  an arrow.\<close>

definition plain_name :: "string \<Rightarrow> bool" where
  "plain_name s \<longleftrightarrow> \<not> js_includes s ''>''"

lemma edge_name_inject:
  assumes "plain_name a" and "plain_name b" and "plain_name c" and "plain_name d"
    and "edge_name a c = edge_name b d"
  shows "a = b \<and> c = d"
proof -
  have no: "CHR ''>'' \<notin> set s" if "plain_name s" for s
    using that by (metis append_Cons append_Nil js_includes_iff plain_name_def split_list)
  have w: "CHR ''>'' \<notin> set s \<Longrightarrow>
      takeWhile (\<lambda>x. x \<noteq> CHR ''>'') (edge_name s u) = s @ ''-'' \<and>
      dropWhile (\<lambda>x. x \<noteq> CHR ''>'') (edge_name s u) = CHR ''>'' # u" for s u
    by (induction s) (auto simp: edge_name_def)
  have "a @ ''-'' = b @ ''-'' \<and> CHR ''>'' # c = CHR ''>'' # d"
    using w [OF no [OF assms(1)], of c] w [OF no [OF assms(2)], of d] assms(5) by metis
  then show ?thesis by simp
qed

section \<open>Properties\<close>

text \<open>The temporary directory is gone whatever has happened.\<close>

lemma no_directory_left:
  assumes "\<forall>dir. be_mkdtemp env = Some dir \<longrightarrow> dir \<notin> set dirs" shows "fst (check_boundaries env argv dirs) = dirs"
proof -
  have "filter (\<lambda>d. d \<noteq> dir) dirs = dirs" if "be_mkdtemp env = Some dir" for dir
    using assms that by (intro filter_True) auto
  then have "fst (loadGraph env f workspace dirs) = dirs" for f workspace
    by (auto simp: loadGraph_def Let_def split: option.split)
  then show ?thesis
    by (auto simp: check_boundaries_def split: sum.split prod.split) (metis fst_conv)+
qed

lemma check_passes:
  assumes "snd (check_boundaries env argv dirs) = Inr (lines, 0)"
  obtains args graph crates where "check_parseArgs (be_here env) (be_cwd env) argv = Inr args"
    and "snd (loadGraph env (ca_graph args) (ca_workspace args) dirs) = Inr graph"
    and "readCrates env (ca_workspace args) = Inr crates" and "boundaryViolations graph crates = []"
proof -
  obtain args where args: "check_parseArgs (be_here env) (be_cwd env) argv = Inr args"
    using assms by (cases "check_parseArgs (be_here env) (be_cwd env) argv") (auto simp: check_boundaries_def)
  obtain dirs' r where l: "loadGraph env (ca_graph args) (ca_workspace args) dirs = (dirs', r)" by fastforce
  obtain graph where g: "r = Inr graph"
    using assms by (cases r) (auto simp: check_boundaries_def args l)
  obtain crates where c: "readCrates env (ca_workspace args) = Inr crates"
    using assms by (cases "readCrates env (ca_workspace args)") (auto simp: check_boundaries_def args l g)
  have "boundaryViolations graph crates = []"
    using assms by (auto simp: check_boundaries_def args l g c check_report_def split: if_splits)
  then show ?thesis using that args l g c by simp
qed

text \<open>
  C27. What a passing run of the check enforces: a graph was loaded and the metadata of Cargo read, and
  in that graph no project depends on a leaf, whatever a contract reaches through any number of
  dependencies is a contract, and each dependency between crates that Cargo knows has an edge that
  is named after it.
\<close>

theorem boundaries_enforced:
  assumes "snd (check_boundaries env argv dirs) = Inr (lines, 0)"
  shows "\<exists>args graph crates.
     check_parseArgs (be_here env) (be_cwd env) argv = Inr args \<and>
     snd (loadGraph env (ca_graph args) (ca_workspace args) dirs) = Inr graph \<and>
     readCrates env (ca_workspace args) = Inr crates \<and>
     (\<forall>(source, target) \<in> set (project_edges graph).
        \<not> has_tag graph target ''type:e2e'' \<and> \<not> has_tag graph target ''type:test'') \<and>
     (\<forall>source target. (source, target) \<in> (set (project_edges graph))\<^sup>* \<longrightarrow>
        has_tag graph source CONTRACT \<longrightarrow> has_tag graph target CONTRACT) \<and>
     (\<forall>(crate, deps) \<in> set crates. \<forall>dep \<in> set deps.
        \<exists>(source, target) \<in> set (project_edges graph). edge_name source target = edge_name crate dep)"
proof -
  obtain args graph crates where run: "check_parseArgs (be_here env) (be_cwd env) argv = Inr args"
    "snd (loadGraph env (ca_graph args) (ca_workspace args) dirs) = Inr graph"
    "readCrates env (ca_workspace args) = Inr crates" and none: "boundaryViolations graph crates = []"
    using check_passes [OF assms] .
  have e: "\<forall>(source, target) \<in> set (project_edges graph). tagViolations graph source target = []"
    and c: "\<forall>(crate, deps) \<in> set crates. \<forall>dep \<in> set deps.
        \<exists>(source, target) \<in> set (project_edges graph). edge_name source target = edge_name crate dep"
    using none unfolding violations_empty by blast+
  have "has_tag graph target CONTRACT"
    if "(source, target) \<in> (set (project_edges graph))\<^sup>*" "has_tag graph source CONTRACT" for source target
    using that e by (induction rule: rtrancl_induct) (auto simp: tagViolations_empty)
  then show ?thesis using run e c by (intro exI [of _ args] exI [of _ graph] exI [of _ crates])
    (simp add: tagViolations_empty case_prod_beta)
qed

text \<open>Three projects and an external package, as \<^verbatim>\<open>nx\<close> writes them; two crates, one inside the other's
  dependencies.\<close>

definition sample_graph :: js where
  "sample_graph =
     Obj [(''nodes'',
           Obj [(''web'', Obj [(''data'', Obj [(''tags'', Arr [Str ''type:app''])])]),
                (''wire'', Obj [(''data'', Obj [(''tags'', Arr [Str ''type:contract''])])]),
                (''web-e2e'', Obj [(''data'', Obj [(''tags'', Arr [Str ''type:e2e''])])])]),
          (''dependencies'',
           Obj [(''web'', Arr [Obj [(''target'', Str ''wire'')], Obj [(''target'', Str ''npm:react'')]]),
                (''wire'', Arr []), (''web-e2e'', Arr [Obj [(''target'', Str ''web'')]])])]"

definition sample_run :: boundary_env where
  "sample_run =
     \<lparr>be_here = ''/w/tools/workspace'', be_cwd = ''/w'', be_read = (\<lambda>_. None), be_mkdtemp = Some ''/tmp/nx-graph-1'',
      be_nx = (\<lambda>_ _. \<lparr>cr_status = Some 0, cr_stdout = [], cr_stderr = [],
                      cr_file = stringify (Obj [(''graph'', sample_graph)])\<rparr>),
      be_cargo = (\<lambda>_. \<lparr>cr_status = Some 0,
         cr_stdout = (case stringify (Obj [(''packages'', Arr
             [Obj [(''name'', Str ''web''), (''manifest_path'', Str ''/w/crates/web/Cargo.toml''),
                   (''dependencies'', Arr [Obj [(''path'', Str ''/w/crates/wire'')]])]])]) of None \<Rightarrow> [] | Some t \<Rightarrow> t),
         cr_stderr = [], cr_file = None\<rparr>),
      be_realpath = Some\<rparr>"

theorem boundaries_enforced_witness:
  "check_boundaries sample_run [] [] = ([], Inr ([''boundaries: ok''], 0)) \<and>
   (\<exists>graph. snd (loadGraph sample_run None ''/w'' []) = Inr graph \<and> project_edges graph = [(''web'', ''wire''), (''web-e2e'', ''web'')] \<and>
      \<not> has_tag graph ''wire'' ''type:e2e'')"
proof -
  have ok: "check_boundaries sample_run [] [] = ([], Inr ([''boundaries: ok''], 0))" by code_simp
  then have "snd (check_boundaries sample_run [] []) = Inr ([''boundaries: ok''], 0)" by simp
  from boundaries_enforced [OF this] obtain args graph where args: "check_parseArgs (be_here sample_run) (be_cwd sample_run) [] = Inr args"
    and graph: "snd (loadGraph sample_run (ca_graph args) (ca_workspace args) []) = Inr graph"
    and leaf: "\<forall>(source, target) \<in> set (project_edges graph). \<not> has_tag graph target ''type:e2e'' \<and> \<not> has_tag graph target ''type:test''"
    by blast
  have a: "check_parseArgs (be_here sample_run) (be_cwd sample_run) [] = Inr \<lparr>ca_graph = None, ca_workspace = ''/w''\<rparr>" by code_simp
  then have l: "snd (loadGraph sample_run None ''/w'' []) = Inr graph" using args graph by simp
  have "(case snd (loadGraph sample_run None ''/w'' []) of Inr g \<Rightarrow> project_edges g | _ \<Rightarrow> []) = [(''web'', ''wire''), (''web-e2e'', ''web'')]"
    by code_simp
  then have e: "project_edges graph = [(''web'', ''wire''), (''web-e2e'', ''web'')]" by (simp add: l)
  have "(''web'', ''wire'') \<in> set (project_edges graph)" by (simp add: e)
  then have "\<not> has_tag graph ''wire'' ''type:e2e''" using leaf by blast
  then show ?thesis using ok l e by blast
qed

end
