(* ===== verification/JsonRoundtrip.thy ===== *)
theory JsonRoundtrip
  imports JsonParse
begin

text \<open>
  Both printers, \<open>JSON.stringify\<close> with and without indentation, are read back by
  \<open>JSON.parse\<close>: what comes back is the value itself, except where JSON has no text for it
  (\<open>json_image\<close>: undefined members are dropped, undefined elements and the numbers that are not
  finite become null, a negative zero loses its sign). The last section reads a printed natural.
\<close>

section \<open>What a value becomes\<close>

fun number_image :: "number \<Rightarrow> js" where
  "number_image (Dec neg s n) = Num (canonical_dec (neg \<and> s \<noteq> 0) (digits s) n)"
| "number_image x = Null"

fun json_image :: "js \<Rightarrow> js"
  and image_members :: "(string \<times> js) list \<Rightarrow> (string \<times> js) list" where
  "json_image Undefined = Null"
| "json_image Null = Null"
| "json_image (Bool b) = Bool b"
| "json_image (Num x) = number_image x"
| "json_image (Str s) = Str s"
| "json_image (Arr xs) = Arr (map json_image xs)"
| "json_image (Obj ms) = Obj (make_object (image_members ms))"
| "image_members [] = []"
| "image_members ((k, v) # ms) =
     (if v = Undefined then image_members ms else (k, json_image v) # image_members ms)"

section \<open>Reading strings\<close>

lemma radix_hex_digit: "v < 16 \<Longrightarrow> radix_val 16 (hex_digit v) = Some v"
  by (auto simp: hex_digit_def radix_val_def Let_def)

lemma radix_val_zero: "radix_val 16 (CHR ''0'') = Some 0"
  by (simp add: radix_val_def)

lemma unicode_escape_hex:
  assumes "n < 256"
  shows "unicode_escape [CHR ''0'', CHR ''0'', hex_digit (n div 16), hex_digit (n mod 16)] = Some (char_of n)"
proof -
  have "n div 16 < 16" "n mod 16 < 16" using assms by auto
  then have "traverse (radix_val 16) [CHR ''0'', CHR ''0'', hex_digit (n div 16), hex_digit (n mod 16)]
      = Some [0, 0, n div 16, n mod 16]"
    by (simp add: radix_hex_digit radix_val_zero)
  then show ?thesis using assms by (simp add: unicode_escape_def Let_def)
qed

lemma parse_quote_char: "parse_chars (quote_char c @ r) = prepend c (parse_chars r)"
proof (cases "c = CHR 0x22 \<or> c = CHR 0x5C \<or> c = CHR 0x08 \<or> c = CHR 0x0C \<or> c = CHR 0x0A \<or>
    c = CHR 0x0D \<or> c = CHR 0x09")
  case True
  then show ?thesis by (auto simp: quote_char_def simple_escape_def)
next
  case plain: False
  let ?n = "of_char c :: nat"
  show ?thesis
  proof (cases "?n < 32")
    case True
    have "unicode_escape [CHR ''0'', CHR ''0'', hex_digit (?n div 16), hex_digit (?n mod 16)] = Some c"
      using unicode_escape_hex [of ?n] True by simp
    then show ?thesis using plain True by (simp add: quote_char_def)
  next
    case False
    then show ?thesis using plain by (simp add: quote_char_def)
  qed
qed

lemma parse_quoted [simp]: "parse_chars (concat (map quote_char s) @ CHR 0x22 # r) = Some (s, r)"
  by (induction s) (auto simp: parse_quote_char prepend_def)

section \<open>Reading numbers\<close>

definition number_end :: "string \<Rightarrow> bool" where
  "number_end r \<longleftrightarrow> r = [] \<or> \<not> is_digit (hd r) \<and> hd r \<noteq> CHR ''.'' \<and> hd r \<noteq> CHR ''e'' \<and> hd r \<noteq> CHR ''E''"

lemma is_digit_simps [simp]:
  "\<not> is_digit (CHR ''.'')" "\<not> is_digit (CHR ''e'')" "\<not> is_digit (CHR ''-'')" "\<not> is_digit (CHR ''+'')"
  "is_digit (CHR ''0'')"
  by (simp_all add: is_digit_def)

lemma digit_span:
  assumes "list_all is_digit ds" and "r = [] \<or> \<not> is_digit (hd r)"
  shows "takeWhile is_digit (ds @ r) = ds \<and> dropWhile is_digit (ds @ r) = r"
proof -
  have d: "\<forall>x \<in> set ds. is_digit x" using assms(1) by (simp add: list_all_iff)
  have "takeWhile is_digit r = []" "dropWhile is_digit r = r" using assms(2) by (cases r; simp)+
  then show ?thesis using d by (simp add: takeWhile_append dropWhile_append)
qed

definition fraction_text :: "string \<Rightarrow> string \<Rightarrow> bool" where
  "fraction_text fp t \<longleftrightarrow> (if fp = [] then t = [] else list_all is_digit fp \<and> t = CHR ''.'' # fp)"

definition exponent_text :: "int \<Rightarrow> string \<Rightarrow> bool" where
  "exponent_text e t \<longleftrightarrow>
     e = 0 \<and> t = [] \<or>
     t = ''e'' @ (if 0 \<le> e then ''+'' else ''-'') @ digits (nat \<bar>e\<bar>)"

lemma json_exponent_text:
  assumes "exponent_text e t" and "number_end r"
  shows "json_exponent (t @ r) = Some (e, r)"
proof (cases "t = []")
  case True
  then show ?thesis using assms by (auto simp: exponent_text_def json_exponent_def number_end_def)
next
  case False
  let ?ds = "digits (nat \<bar>e\<bar>)"
  have t: "t = ''e'' @ (if 0 \<le> e then ''+'' else ''-'') @ ?ds"
    using assms(1) False by (auto simp: exponent_text_def)
  have "takeWhile is_digit (?ds @ r) = ?ds \<and> dropWhile is_digit (?ds @ r) = r"
    using digits_are_digits [of "nat \<bar>e\<bar>"] assms(2) by (intro digit_span) (auto simp: number_end_def)
  then show ?thesis using digits_are_digits [of "nat \<bar>e\<bar>"]
    by (cases "0 \<le> e") (simp_all add: t json_exponent_def Let_def)
qed

lemma json_fraction_text:
  assumes "fraction_text fp t" and "r = [] \<or> \<not> is_digit (hd r) \<and> hd r \<noteq> CHR ''.''"
  shows "json_fraction (t @ r) = Some (fp, r)"
proof (cases "fp = []")
  case True
  then show ?thesis using assms by (auto simp: fraction_text_def json_fraction_def)
next
  case False
  then have t: "list_all is_digit fp" "t = CHR ''.'' # fp" using assms(1) by (auto simp: fraction_text_def)
  have "takeWhile is_digit (fp @ r) = fp \<and> dropWhile is_digit (fp @ r) = r"
    using assms(2) by (intro digit_span [OF t(1)]) blast
  then show ?thesis using False by (simp add: json_fraction_def Let_def t(2))
qed

lemma parse_number_text:
  assumes "list_all is_digit ip" and "ip \<noteq> []" and "hd ip = CHR ''0'' \<longrightarrow> length ip = 1"
    and "fraction_text fp f" and "exponent_text e x" and "number_end r"
  shows "parse_number ((if neg then ''-'' else []) @ ip @ f @ x @ r)
           = Some (Num (canonical_dec neg (ip @ fp) (int (length ip) + e)), r)"
proof -
  have xr: "x @ r = [] \<or> \<not> is_digit (hd (x @ r)) \<and> hd (x @ r) \<noteq> CHR ''.''"
    using assms(5,6) by (auto simp: exponent_text_def number_end_def)
  have fx: "f @ x @ r = [] \<or> \<not> is_digit (hd (f @ x @ r))"
    using assms(4) xr by (auto simp: fraction_text_def split: if_splits)
  have hd: "\<not> (ip @ z \<noteq> [] \<and> hd (ip @ z) = CHR ''-'')" for z
    using assms(1,2) by (cases ip) auto
  have ip: "takeWhile is_digit (ip @ f @ x @ r) = ip \<and> dropWhile is_digit (ip @ f @ x @ r) = f @ x @ r"
    by (rule digit_span [OF assms(1) fx])
  then show ?thesis using hd [of "f @ x @ r"] assms(2,3)
    by (cases neg; cases "hd ip = CHR ''0''")
      (simp_all add: parse_number_def json_fraction_text [OF assms(4) xr] json_exponent_text [OF assms(5,6)])
qed

lemma digits_leading: "0 < n \<Longrightarrow> hd (digits n) \<noteq> CHR ''0''"
proof (induction n rule: digits.induct)
  case (1 n)
  show ?case
  proof (cases "n < 10")
    case True
    then have "digit_val (hd (digits n)) = n" by (simp add: digits_small)
    moreover have "digit_val (CHR ''0'') = 0" by (simp add: digit_val_def)
    ultimately show ?thesis using 1(2) by auto
  next
    case False
    then show ?thesis using 1 digits_are_digits [of "n div 10"] by (simp add: digits_large)
  qed
qed

lemma canonical_core: "canonical_dec neg ds pt =
   (let core = rev (dropWhile (\<lambda>c. c = CHR ''0'') (rev (dropWhile (\<lambda>c. c = CHR ''0'') ds)))
    in if core = [] then Dec neg 0 1
       else Dec neg (parse_digits core) (pt - int (length (takeWhile (\<lambda>c. c = CHR ''0'') ds))))"
  unfolding canonical_dec_def Let_def dropWhile_eq_drop [symmetric] by (rule refl)
lemma canonical_front [simp]: "canonical_dec neg (CHR ''0'' # ds) pt = canonical_dec neg ds (pt - 1)"
proof -
  let ?P = "\<lambda>c. c = CHR ''0''"
  have "dropWhile ?P (CHR ''0'' # ds) = dropWhile ?P ds"
    "pt - int (length (takeWhile ?P (CHR ''0'' # ds))) = pt - 1 - int (length (takeWhile ?P ds))" by simp_all
  then show ?thesis unfolding canonical_core by (simp only:)
qed
lemma canonical_back [simp]: "canonical_dec neg (ds @ ''0'') pt = canonical_dec neg ds pt"
proof (cases "\<forall>c \<in> set ds. c = CHR ''0''")
  case True
  then have "dropWhile (\<lambda>c. c = CHR ''0'') ds = []" "dropWhile (\<lambda>c. c = CHR ''0'') (ds @ ''0'') = []"
    by (auto simp: dropWhile_eq_Nil_conv)
  then show ?thesis unfolding canonical_core by (simp only: Let_def rev.simps dropWhile.simps simp_thms if_True)
next
  case False
  then have "takeWhile (\<lambda>c. c = CHR ''0'') (ds @ ''0'') = takeWhile (\<lambda>c. c = CHR ''0'') ds"
    "dropWhile (\<lambda>c. c = CHR ''0'') (ds @ ''0'') = dropWhile (\<lambda>c. c = CHR ''0'') ds @ ''0''"
    by (auto intro: takeWhile_append1 dropWhile_append1)
  moreover have "dropWhile (\<lambda>c. c = CHR ''0'') (rev (w @ ''0'')) = dropWhile (\<lambda>c. c = CHR ''0'') (rev w)" for w
    by simp
  ultimately show ?thesis unfolding canonical_core by (simp only:)
qed

lemma canonical_zeros [simp]:
  "canonical_dec neg (replicate a (CHR ''0'') @ ds) pt = canonical_dec neg ds (pt - int a)"
  "canonical_dec neg (ds @ replicate b (CHR ''0'')) pt = canonical_dec neg ds pt"
proof -
  show "canonical_dec neg (replicate a (CHR ''0'') @ ds) pt = canonical_dec neg ds (pt - int a)"
    by (induction a arbitrary: pt) (simp_all add: algebra_simps)
  show "canonical_dec neg (ds @ replicate b (CHR ''0'')) pt = canonical_dec neg ds pt"
  proof (induction b)
    case 0
    then show ?case by simp
  next
    case (Suc b)
    have "replicate (Suc b) (CHR ''0'') = replicate b (CHR ''0'') @ ''0''" by (simp add: replicate_append_same)
    then show ?case using Suc by (simp del: replicate.simps add: append_assoc [symmetric] del: append_assoc)
  qed
qed

lemma canonical_zero: "canonical_dec neg ''0'' pt = Dec neg 0 1"
  by (simp add: canonical_dec_def)

text \<open>The parts of a printed number, and the number they mean.\<close>

definition number_parts :: "bool \<Rightarrow> string \<Rightarrow> number \<Rightarrow> bool" where
  "number_parts neg t v \<longleftrightarrow>
     (\<exists>ip fp f e x. t = ip @ f @ x \<and> list_all is_digit ip \<and> ip \<noteq> [] \<and>
        (hd ip = CHR ''0'' \<longrightarrow> length ip = 1) \<and> fraction_text fp f \<and> exponent_text e x \<and>
        canonical_dec neg (ip @ fp) (int (length ip) + e) = v)"

lemma number_partsI:
  "list_all is_digit ip \<Longrightarrow> ip \<noteq> [] \<Longrightarrow> hd ip = CHR ''0'' \<longrightarrow> length ip = 1 \<Longrightarrow> list_all is_digit fp \<Longrightarrow>
   exponent_text e x \<Longrightarrow> canonical_dec neg (ip @ fp) (int (length ip) + e) = v \<Longrightarrow>
   t = ip @ (if fp = [] then [] else CHR ''.'' # fp) @ x \<Longrightarrow> number_parts neg t v"
  unfolding number_parts_def
  by (intro exI [of _ ip] exI [of _ fp] exI [of _ "if fp = [] then [] else CHR ''.'' # fp"] exI [of _ e] exI [of _ x])
    (simp add: fraction_text_def)

lemma dec_to_string_parts:
  assumes "0 < s"
  shows "number_parts neg (dec_to_string s n) (canonical_dec neg (digits s) n)"
proof -
  let ?ds = "digits s"
  let ?k = "int (length ?ds)"
  have ds: "list_all is_digit ?ds" "?ds \<noteq> []" "hd ?ds \<noteq> CHR ''0''"
    using digits_are_digits [of s] digits_leading [OF assms] by auto
  have none: "exponent_text 0 []" by (simp add: exponent_text_def)
  consider (whole) "?k \<le> n \<and> n \<le> 21" | (mid) "n < ?k" "0 < n" "n \<le> 21" | (small) "-6 < n" "n \<le> 0"
    | (exp) "\<not> (?k \<le> n \<and> n \<le> 21)" "\<not> (0 < n \<and> n \<le> 21)" "\<not> (-6 < n \<and> n \<le> 0)" by linarith
  then show ?thesis
  proof cases
    case whole
    let ?ip = "?ds @ replicate (nat (n - ?k)) (CHR ''0'')"
    have "int (length ?ip) = n" using whole by simp
    moreover have "dec_to_string s n = ?ip" using whole by (simp add: dec_to_string_def Let_def)
    ultimately show ?thesis using ds none
      by (intro number_partsI [where ip = ?ip and fp = "[]" and e = 0 and x = "[]"])
        (simp_all add: list_all_replicate)
  next
    case mid
    let ?ip = "take (nat n) ?ds" and ?fp = "drop (nat n) ?ds"
    have "dec_to_string s n = ?ip @ ''.'' @ ?fp" using mid by (simp add: dec_to_string_def Let_def)
    moreover have "?fp \<noteq> []" "?ip \<noteq> []" "hd ?ip = hd ?ds" "int (length ?ip) = n" using mid ds by auto
    ultimately show ?thesis using ds none
      by (intro number_partsI [where ip = ?ip and fp = ?fp and e = 0 and x = "[]"])
        (simp_all add: list_all_take list_all_drop)
  next
    case small
    let ?fp = "replicate (nat (- n)) (CHR ''0'') @ ?ds"
    have "dec_to_string s n = ''0.'' @ ?fp"
    proof -
      have "0 < ?k" using ds(2) by simp
      then have "\<not> (?k \<le> n \<and> n \<le> 21)" "\<not> (0 < n \<and> n \<le> 21)" using small by linarith+
      then show ?thesis using small by (simp add: dec_to_string_def Let_def)
    qed
    then show ?thesis using ds none small
      by (intro number_partsI [where ip = "''0''" and fp = ?fp and e = 0 and x = "[]"])
        (simp_all add: list_all_replicate)
  next
    case exp
    let ?x = "''e'' @ (if 0 \<le> n - 1 then ''+'' else ''-'') @ digits (nat \<bar>n - 1\<bar>)"
    let ?ip = "take 1 ?ds" and ?fp = "drop 1 ?ds"
    have ip: "length ?ip = 1" "?ip \<noteq> []" using ds(2) by (cases ?ds; simp)+
    have "exponent_text (n - 1) ?x" by (simp add: exponent_text_def)
    moreover have "dec_to_string s n = ?ip @ (if ?fp = [] then [] else CHR ''.'' # ?fp) @ ?x"
    proof -
      have "(if ?k = 1 then ?ds else ?ip @ ''.'' @ ?fp) = ?ip @ (if ?fp = [] then [] else CHR ''.'' # ?fp)"
        using ds(2) by (cases ?ds) auto
      then show ?thesis using exp unfolding dec_to_string_def Let_def by (simp only: append_assoc if_False)
    qed
    ultimately show ?thesis using ds(1) ip
      by (intro number_partsI [where ip = ?ip and fp = ?fp and e = "n - 1" and x = ?x])
        (simp_all only: list_all_take list_all_drop append_take_drop_id, simp_all)
  qed
qed

lemma parse_number_parts:
  assumes "number_parts neg t v" and "number_end r"
  shows "parse_number ((if neg then ''-'' else []) @ t @ r) = Some (Num v, r)"
proof -
  obtain ip fp f e x where p: "t = ip @ f @ x" "list_all is_digit ip" "ip \<noteq> []"
      "hd ip = CHR ''0'' \<longrightarrow> length ip = 1" "fraction_text fp f" "exponent_text e x"
    and v: "canonical_dec neg (ip @ fp) (int (length ip) + e) = v"
    using assms(1) unfolding number_parts_def by blast
  show ?thesis using parse_number_text [OF p(2-6) assms(2), of neg] unfolding p(1) v by simp
qed

lemma parse_json_number:
  assumes "number_end r"
  shows "parse_number (number_to_string (Dec neg s n) @ r) = Some (number_image (Dec neg s n), r)"
proof (cases "s = 0")
  case True
  have "digits 0 = ''0''" by code_simp
  moreover have "number_parts False ''0'' (Dec False 0 1)"
    by (rule number_partsI [where ip = "''0''" and fp = "[]" and e = 0 and x = "[]"])
      (simp_all add: exponent_text_def canonical_zero del: canonical_front)
  ultimately show ?thesis using parse_number_parts [OF _ assms, of False "''0''" "Dec False 0 1"] True
    by (simp add: canonical_zero del: canonical_front digit_char.simps)
next
  case False
  then show ?thesis using parse_number_parts [OF dec_to_string_parts assms, of s neg n] by simp
qed

section \<open>Reading what the printers print\<close>

abbreviation all_ws :: "string \<Rightarrow> bool" where
  "all_ws w \<equiv> list_all json_ws w"

lemma skip_ws_append [simp]: "all_ws w \<Longrightarrow> skip_ws (w @ s) = skip_ws s"
  by (induction w) (simp_all add: skip_ws_def)

lemma skip_ws_Cons [simp]: "\<not> json_ws c \<Longrightarrow> skip_ws (c # s) = c # s"
  by (simp add: skip_ws_def)

lemma json_ws_simps [simp]:
  "\<not> json_ws (CHR 0x22)" "\<not> json_ws (CHR ''['')" "\<not> json_ws (CHR '']'')" "\<not> json_ws (CHR ''{'')"
  "\<not> json_ws (CHR ''}'')" "\<not> json_ws (CHR '':'')" "\<not> json_ws (CHR '','')" "\<not> json_ws (CHR ''-'')"
  "\<not> json_ws (CHR ''n'')" "\<not> json_ws (CHR ''t'')" "\<not> json_ws (CHR ''f'')" "json_ws (CHR '' '')" "json_ws newline"
  by (simp_all add: json_ws_def newline_def)

lemma digit_not_ws: "is_digit c \<Longrightarrow> \<not> json_ws c"
  by (auto simp: is_digit_def json_ws_def)

text \<open>A text that reads as a value, whatever follows that does not continue a number.\<close>

definition reads :: "string \<Rightarrow> js \<Rightarrow> bool" where
  "reads t v \<longleftrightarrow> (\<forall>w r. all_ws w \<longrightarrow> number_end r \<longrightarrow> parse_value (w @ t @ r) = Some (v, r))"

lemma readsD: "reads t v \<Longrightarrow> all_ws w \<Longrightarrow> number_end r \<Longrightarrow> parse_value (w @ t @ r) = Some (v, r)"
  by (simp add: reads_def)

definition member_reads :: "string \<Rightarrow> string \<Rightarrow> string \<times> js \<Rightarrow> bool" where
  "member_reads w p m \<longleftrightarrow> (\<exists>t. p = json_quote (fst m) @ '':'' @ w @ t \<and> reads t (snd m))"

lemma number_end_close:
  assumes "all_ws w" and "c = CHR '','' \<or> c = CHR '']'' \<or> c = CHR ''}''"
  shows "number_end (w @ c # r)"
proof (cases w)
  case Nil
  then show ?thesis using assms(2) by (auto simp: number_end_def is_digit_def)
next
  case (Cons a v)
  then have "json_ws a" using assms(1) by simp
  then show ?thesis using Cons by (auto simp: number_end_def json_ws_def is_digit_def)
qed

lemma reads_elems:
  assumes "list_all2 reads ts vs" and "ts \<noteq> []" and "all_ws w" and "all_ws w'"
  shows "parse_elems (w @ join (CHR '','' # w) ts @ w' @ CHR '']'' # r) = Some (vs, r)"
  using assms(1,2)
proof (induction ts vs rule: list_all2_induct)
  case Nil
  then show ?case by simp
next
  case (Cons t ts v vs)
  show ?case
  proof (cases "ts = []")
    case True
    then have "vs = []" using Cons.hyps(2) by simp
    moreover have "parse_value (w @ t @ w' @ CHR '']'' # r) = Some (v, w' @ CHR '']'' # r)"
      using Cons.hyps(1) assms(3,4) by (intro readsD number_end_close) simp_all
    ultimately show ?thesis using True assms(4) by (subst parse_elems_step) simp
  next
    case False
    let ?r = "join (CHR '','' # w) ts @ w' @ CHR '']'' # r"
    have "number_end ([] @ CHR '','' # w @ ?r)" by (rule number_end_close) simp_all
    then have "parse_value (w @ t @ CHR '','' # w @ ?r) = Some (v, CHR '','' # w @ ?r)"
      using readsD [OF Cons.hyps(1) assms(3)] by simp
    then show ?thesis using Cons.IH False by (subst parse_elems_step) (simp add: join_Cons)
  qed
qed

lemma parse_members_step:
  assumes "all_ws w" and "all_ws u" and "parse_value (u @ t @ q) = Some (v, q)"
  shows "parse_members acc (w @ json_quote k @ '':'' @ u @ t @ q) =
           (case skip_ws q of
              [] \<Rightarrow> None
            | d # r' \<Rightarrow>
                if d = CHR ''}'' then Some (put_member k v acc, r')
                else if d = CHR '','' then parse_members (put_member k v acc) r'
                else None)"
proof -
  have "length q < length (u @ t @ q)" by (rule parse_shrinks(1) [OF assms(3)])
  then show ?thesis using assms by (subst parse_members.simps) (simp add: json_quote_def)
qed

lemma reads_members:
  assumes "list_all2 (member_reads u) ps ms" and "ps \<noteq> []" and "all_ws w" and "all_ws w'" and "all_ws u"
  shows "parse_members acc (w @ join (CHR '','' # w) ps @ w' @ CHR ''}'' # r) =
           Some (foldl (\<lambda>acc (k, v). put_member k v acc) acc ms, r)"
  using assms(1,2)
proof (induction ps ms arbitrary: acc rule: list_all2_induct)
  case Nil
  then show ?case by simp
next
  case (Cons p ps m ms)
  obtain k v t where m: "m = (k, v)" and p: "p = json_quote k @ '':'' @ u @ t" and t: "reads t v"
    using Cons.hyps(1) by (cases m) (auto simp: member_reads_def)
  show ?case
  proof (cases "ps = []")
    case True
    then have "ms = []" using Cons.hyps(2) by simp
    moreover have "parse_value (u @ t @ w' @ CHR ''}'' # r) = Some (v, w' @ CHR ''}'' # r)"
      using assms(4,5) by (intro readsD [OF t] number_end_close) simp_all
    ultimately show ?thesis
      using True assms(4) parse_members_step [OF assms(3,5), of t "w' @ CHR ''}'' # r" v acc k] by (simp add: m p)
  next
    case False
    let ?r = "join (CHR '','' # w) ps @ w' @ CHR ''}'' # r"
    have "number_end ([] @ CHR '','' # w @ ?r)" by (rule number_end_close) simp_all
    then have "parse_value (u @ t @ CHR '','' # w @ ?r) = Some (v, CHR '','' # w @ ?r)"
      using readsD [OF t assms(5)] by simp
    then show ?thesis
      using Cons.IH [OF False] False parse_members_step [OF assms(3,5), of t "CHR '','' # w @ ?r" v acc k]
      by (simp add: m p join_Cons)
  qed
qed

lemma elems_start: "parse_elems q = Some x \<Longrightarrow> \<exists>d q'. skip_ws q = d # q' \<and> d \<noteq> CHR '']''"
  by (cases "skip_ws q")
    (auto simp: parse_elems_step [of q] parse_value.simps [of q] parse_literal_def is_digit_def split: option.splits)

lemma members_start: "parse_members acc q = Some x \<Longrightarrow> \<exists>d q'. skip_ws q = d # q' \<and> d \<noteq> CHR ''}''"
  by (cases "skip_ws q") (auto simp: parse_members.simps [of acc q])

definition bracketed :: "char \<Rightarrow> char \<Rightarrow> string \<Rightarrow> string \<Rightarrow> string list \<Rightarrow> string" where
  "bracketed a b w w' ts = (if ts = [] then [a, b] else a # w @ join (CHR '','' # w) ts @ w' @ [b])"

lemma reads_array:
  assumes "list_all2 reads ts vs" and "all_ws w" and "all_ws w'"
  shows "reads (bracketed (CHR ''['') (CHR '']'') w w' ts) (Arr vs)"
proof (cases "ts = []")
  case True
  then show ?thesis using assms(1) by (simp add: reads_def parse_value.simps bracketed_def)
next
  case False
  show ?thesis unfolding reads_def
  proof (intro allI impI)
    fix u r assume u: "all_ws u" and "number_end r"
    let ?q = "w @ join (CHR '','' # w) ts @ w' @ CHR '']'' # r"
    have e: "parse_elems ?q = Some (vs, r)" by (rule reads_elems [OF assms(1) False assms(2,3)])
    then obtain d q' where "skip_ws ?q = d # q'" "d \<noteq> CHR '']''" using elems_start by blast
    then have "parse_value (u @ CHR ''['' # ?q) = Some (Arr vs, r)" using e u by (subst parse_value.simps) simp
    then show "parse_value (u @ bracketed (CHR ''['') (CHR '']'') w w' ts @ r) = Some (Arr vs, r)"
      using False by (simp add: bracketed_def)
  qed
qed

lemma reads_object:
  assumes "list_all2 (member_reads v) ps ms" and "all_ws w" and "all_ws w'" and "all_ws v"
  shows "reads (bracketed (CHR ''{'') (CHR ''}'') w w' ps) (Obj (make_object ms))"
proof (cases "ps = []")
  case True
  then show ?thesis using assms(1) by (simp add: reads_def parse_value.simps make_object_def bracketed_def)
next
  case False
  show ?thesis unfolding reads_def
  proof (intro allI impI)
    fix u r assume u: "all_ws u" and "number_end r"
    let ?q = "w @ join (CHR '','' # w) ps @ w' @ CHR ''}'' # r"
    have e: "parse_members [] ?q = Some (make_object ms, r)"
      unfolding make_object_def by (rule reads_members [OF assms(1) False assms(2-4)])
    then obtain d q' where "skip_ws ?q = d # q'" "d \<noteq> CHR ''}''" using members_start by blast
    then have "parse_value (u @ CHR ''{'' # ?q) = Some (Obj (make_object ms), r)"
      using e u by (subst parse_value.simps) simp
    then show "parse_value (u @ bracketed (CHR ''{'') (CHR ''}'') w w' ps @ r) = Some (Obj (make_object ms), r)"
      using False by (simp add: bracketed_def)
  qed
qed

lemma reads_quote: "reads (json_quote s) (Str s)"
  by (simp add: reads_def parse_value.simps json_quote_def)

lemma reads_literals: "reads ''null'' Null" "reads ''true'' (Bool True)" "reads ''false'' (Bool False)"
  by (simp_all add: reads_def parse_value.simps parse_literal_def is_digit_def)

lemma reads_number: "reads (number_to_string (Dec neg s n)) (number_image (Dec neg s n))"
  unfolding reads_def
proof (intro allI impI)
  fix w r assume w: "all_ws w" and r: "number_end r"
  have p: "parse_number (number_to_string (Dec neg s n) @ r) = Some (number_image (Dec neg s n), r)"
    by (rule parse_json_number [OF r])
  obtain c q where c: "number_to_string (Dec neg s n) @ r = c # q" "c = CHR ''-'' \<or> is_digit c"
    using p by (cases "number_to_string (Dec neg s n) @ r")
      (auto simp: parse_number_def Let_def split: if_splits option.splits)
  moreover have "\<not> json_ws c" "c \<noteq> CHR 0x22" "c \<noteq> CHR ''[''" "c \<noteq> CHR ''{''"
    using c(2) by (auto simp: is_digit_def json_ws_def)
  ultimately show "parse_value (w @ number_to_string (Dec neg s n) @ r) = Some (number_image (Dec neg s n), r)"
    using p w by (subst parse_value.simps) simp
qed

lemma reads_json_number: "reads (json_number x) (number_image x)"
  using reads_number reads_literals(1) by (cases x) simp_all

lemma join_compact: "join '','' ts = join (CHR '','' # []) ts"
  by simp

lemma stringify_reads:
  "stringify v = Some t \<Longrightarrow> reads t (json_image v)"
  "list_all2 reads (stringify_elems vs) (map json_image vs)"
  "list_all2 (member_reads []) (stringify_members ms) (image_members ms)"
proof (induction v and vs and ms arbitrary: t rule: stringify_stringify_elems_stringify_members.induct)
  case (6 xs)
  then show ?case using reads_array [of "stringify_elems xs" "map json_image xs" "[]" "[]"]
    by (cases xs) (auto simp: bracketed_def)
next
  case (7 ms)
  then show ?case using reads_object [of "[]" "stringify_members ms" "image_members ms" "[]" "[]"]
    by (auto simp: bracketed_def split: if_splits)
next
  case (9 x xs)
  then show ?case by (auto simp: stringify_None_iff reads_literals split: option.splits)
next
  case (11 k v ms)
  then show ?case by (auto simp: stringify_None_iff member_reads_def split: option.splits)
qed (auto simp: reads_literals reads_json_number reads_quote simp del: number_image.simps)

lemma all_ws_spaces [simp]: "all_ws (spaces n)"
  by (simp add: spaces_def list_all_replicate)

lemma block_bracketed: "block a b ind ts = bracketed a b (newline # spaces (ind + 2)) (newline # spaces ind) ts"
  by (simp add: block_def bracketed_def)

lemma pretty_reads:
  "pretty ind v = Some t \<Longrightarrow> reads t (json_image v)"
  "list_all2 reads (pretty_elems ind vs) (map json_image vs)"
  "list_all2 (member_reads '' '') (pretty_members ind ms) (image_members ms)"
proof (induction ind v and ind vs and ind ms arbitrary: t rule: pretty_pretty_elems_pretty_members.induct)
  case (6 ind xs)
  then show ?case by (auto simp: block_bracketed intro!: reads_array)
next
  case (7 ind ms)
  then show ?case by (auto simp: block_bracketed intro!: reads_object [of "'' ''"])
next
  case (9 ind x xs)
  then show ?case by (auto simp: pretty_None_iff reads_literals split: option.splits)
next
  case (11 ind k v ms)
  then show ?case by (auto simp: pretty_None_iff member_reads_def split: option.splits)
qed (auto simp: reads_literals reads_json_number reads_quote simp del: number_image.simps)

section \<open>The round trip\<close>

lemma js_parse_reads:
  assumes "reads t v" and "all_ws w"
  shows "js_parse (t @ w) = Some v"
proof (cases w)
  case Nil
  then show ?thesis using readsD [OF assms(1), of "[]" "[]"] by (simp add: js_parse_def number_end_def skip_ws_def)
next
  case (Cons a u)
  then have "number_end w" using assms(2) by (auto simp: number_end_def json_ws_def is_digit_def)
  moreover have "skip_ws w = []" using assms(2) skip_ws_append [of w "[]"] by (simp add: skip_ws_def)
  ultimately show ?thesis using readsD [OF assms(1), of "[]" w] by (simp add: js_parse_def)
qed

lemma js_parse_stringify: "stringify v = Some t \<Longrightarrow> js_parse t = Some (json_image v)"
  using js_parse_reads [OF stringify_reads(1), of v t "[]"] by simp

lemma js_parse_pretty: "pretty 0 v = Some t \<Longrightarrow> all_ws w \<Longrightarrow> js_parse (t @ w) = Some (json_image v)"
  by (rule js_parse_reads [OF pretty_reads(1)])

text \<open>\<open>JSON.stringify(v)\<close> in a template literal.\<close>

definition json_text :: "js \<Rightarrow> string" where
  "json_text v = (case stringify v of None \<Rightarrow> ''undefined'' | Some t \<Rightarrow> t)"

lemma json_text_Some: "v \<noteq> Undefined \<Longrightarrow> stringify v = Some (json_text v)"
  by (simp add: json_text_def stringify_None_iff split: option.split)

lemma js_parse_json_text: "v \<noteq> Undefined \<Longrightarrow> js_parse (json_text v) = Some (json_image v)"
  by (rule js_parse_stringify [OF json_text_Some])

lemma json_text_inject: "v \<noteq> Undefined \<Longrightarrow> w \<noteq> Undefined \<Longrightarrow> json_text v = json_text w \<Longrightarrow> json_image v = json_image w"
  by (metis js_parse_json_text option.inject)

text \<open>\<open>`${JSON.stringify(v, null, 2)}\n`\<close>.\<close>

definition pretty_line :: "js \<Rightarrow> string" where
  "pretty_line v = (case pretty 0 v of None \<Rightarrow> ''undefined'' | Some text \<Rightarrow> text) @ [newline]"

lemma pretty_line_parses: "v \<noteq> Undefined \<Longrightarrow> js_parse (pretty_line v) = Some (json_image v)"
proof -
  assume "v \<noteq> Undefined"
  then obtain printed where "pretty 0 v = Some printed" by (cases "pretty 0 v") (auto simp: pretty_None_iff)
  moreover have "all_ws [newline]" by (simp add: json_ws_def newline_def)
  ultimately show ?thesis using js_parse_pretty by (simp add: pretty_line_def)
qed

text \<open>Values that JSON represents exactly.\<close>

fun exact_number :: "number \<Rightarrow> bool" where
  "exact_number (Dec neg s n) \<longleftrightarrow> canonical_dec (neg \<and> s \<noteq> 0) (digits s) n = Dec neg s n"
| "exact_number x \<longleftrightarrow> False"

fun json_exact :: "js \<Rightarrow> bool" where
  "json_exact Undefined \<longleftrightarrow> False"
| "json_exact (Num x) \<longleftrightarrow> exact_number x"
| "json_exact (Arr xs) \<longleftrightarrow> (\<forall>x \<in> set xs. json_exact x)"
| "json_exact (Obj ms) \<longleftrightarrow> make_object ms = ms \<and> (\<forall>m \<in> set ms. json_exact (snd m))"
| "json_exact _ \<longleftrightarrow> True"

lemma json_image_exact:
  "json_exact v \<Longrightarrow> json_image v = v"
  "\<forall>m \<in> set ms. json_exact (snd m) \<Longrightarrow> image_members ms = ms"
proof (induction v and ms rule: json_image_image_members.induct)
  case (4 x)
  then show ?case by (cases x) auto
next
  case (6 xs)
  then show ?case by (auto intro: map_idI)
next
  case (9 k v ms)
  then show ?case by (cases "v = Undefined") auto
qed auto

section \<open>Members of what is read back\<close>

lemma make_object_snoc: "make_object (xs @ [(k, v)]) = put_member k v (make_object xs)"
  by (simp add: make_object_def)

lemma map_of_make_object: "map_of (make_object xs) = map_of (rev xs)"
proof (induction xs rule: rev_induct)
  case Nil
  then show ?case by (simp add: make_object_def)
next
  case (snoc x xs)
  then show ?case by (cases x) (simp add: make_object_snoc)
qed

lemma make_object_distinct: "distinct (map fst (make_object xs))"
proof (induction xs rule: rev_induct)
  case Nil
  then show ?case by (simp add: make_object_def)
next
  case (snoc x xs)
  then show ?case by (cases x) (simp add: make_object_snoc put_member_distinct)
qed

lemma map_of_rev: "distinct (map fst xs) \<Longrightarrow> map_of (rev xs) = map_of xs"
  by (rule map_of_inject_set [THEN iffD2]) (simp_all add: rev_map [symmetric])

lemma image_member_key: "(k, v) \<in> set (image_members ms) \<Longrightarrow> k \<in> fst ` set ms"
  by (induction ms) (auto split: if_splits)

lemma image_member_keys: "fst ` set (image_members ms) \<subseteq> fst ` set ms"
  by (auto dest: image_member_key)

lemma image_members_distinct: "distinct (map fst ms) \<Longrightarrow> distinct (map fst (image_members ms))"
proof (induction ms)
  case (Cons m ms)
  then show ?case using image_member_keys [of ms] by (cases m) auto
qed simp

lemma image_members_none: "k \<notin> fst ` set ms \<Longrightarrow> map_of (image_members ms) k = None"
  using image_member_keys [of ms] by (auto simp: map_of_eq_None_iff)

lemma map_of_image_members:
  "distinct (map fst ms) \<Longrightarrow> map_of ms k = Some v \<Longrightarrow> v \<noteq> Undefined \<Longrightarrow> map_of (image_members ms) k = Some (json_image v)"
  by (induction ms) (auto split: if_splits)

lemma member_image:
  assumes "distinct (map fst ms)" "member (Obj ms) k \<noteq> Undefined"
  shows "member (json_image (Obj ms)) k = json_image (member (Obj ms) k)"
proof -
  obtain v where v: "map_of ms k = Some v" "v \<noteq> Undefined"
    using assms(2) by (cases "map_of ms k") simp_all
  have "map_of (make_object (image_members ms)) k = map_of (image_members ms) k"
    by (simp only: map_of_make_object map_of_rev [OF image_members_distinct [OF assms(1)]])
  then show ?thesis using map_of_image_members [OF assms(1) v] v(1) by simp
qed

text \<open>Replacing a member leaves an object as JSON orders it.\<close>

lemma insert_then_update: "k \<notin> fst ` set ms \<Longrightarrow> AList.update k v (insert_member k w ms) = insert_member k v ms"
  by (induction ms) auto

lemma update_update: "AList.update k v (AList.update k w ms) = AList.update k v ms"
  by (induction ms) auto

lemma put_update: "AList.update k v (put_member k w ms) = put_member k v ms"
  by (simp add: put_member_def update_update insert_then_update)

lemma update_keys: "k \<in> fst ` set ms \<Longrightarrow> map fst (AList.update k v ms) = map fst ms"
  by (induction ms) auto

lemma put_update_other:
  assumes "k' \<noteq> k" "k \<in> fst ` set ms"
  shows "put_member k' w (AList.update k v ms) = AList.update k v (put_member k' w ms)"
proof -
  have ins: "insert_member k' w (AList.update k v ms) = AList.update k v (insert_member k' w ms)"
    using assms by (induction ms) auto
  have upd: "AList.update k' w (AList.update k v ms) = AList.update k v (AList.update k' w ms)"
    using assms by (induction ms) auto
  have "k' \<in> fst ` set (AList.update k v ms) \<longleftrightarrow> k' \<in> fst ` set ms"
    using update_keys [OF assms(2), of v] by (metis list.set_map)
  then show ?thesis by (simp add: put_member_def ins upd)
qed

lemma fold_put_update:
  assumes "distinct (map fst ms)"
  shows "k \<in> fst ` set acc \<Longrightarrow> k \<notin> fst ` set ms \<Longrightarrow>
      foldl (\<lambda>acc (k, v). put_member k v acc) (AList.update k v acc) ms =
      AList.update k v (foldl (\<lambda>acc (k, v). put_member k v acc) acc ms)"
    and "k \<in> fst ` set ms \<Longrightarrow> foldl (\<lambda>acc (k, v). put_member k v acc) acc (AList.update k v ms) =
      AList.update k v (foldl (\<lambda>acc (k, v). put_member k v acc) acc ms)"
proof -
  have later: "foldl (\<lambda>acc (k, v). put_member k v acc) (AList.update k v acc) ms =
      AList.update k v (foldl (\<lambda>acc (k, v). put_member k v acc) acc ms)"
    if "k \<in> fst ` set acc" "k \<notin> fst ` set ms" for ms acc
    using that
  proof (induction ms arbitrary: acc)
    case (Cons m ms)
    obtain k' w where m: "m = (k', w)" by (cases m)
    have "k' \<noteq> k" using Cons.prems(2) m by auto
    then show ?case using Cons m by (simp add: put_update_other)
  qed simp
  then show "k \<in> fst ` set acc \<Longrightarrow> k \<notin> fst ` set ms \<Longrightarrow>
      foldl (\<lambda>acc (k, v). put_member k v acc) (AList.update k v acc) ms =
      AList.update k v (foldl (\<lambda>acc (k, v). put_member k v acc) acc ms)" .
  show "foldl (\<lambda>acc (k, v). put_member k v acc) acc (AList.update k v ms) =
      AList.update k v (foldl (\<lambda>acc (k, v). put_member k v acc) acc ms)" if "k \<in> fst ` set ms"
    using that assms
  proof (induction ms arbitrary: acc)
    case (Cons m ms)
    obtain k' w where m: "m = (k', w)" by (cases m)
    show ?case
    proof (cases "k' = k")
      case True
      then have "k \<notin> fst ` set ms" using Cons.prems(2) m by auto
      then show ?thesis using later [of "put_member k w acc" ms] True m by (simp add: put_update)
    next
      case False
      then show ?thesis using Cons m by auto
    qed
  qed simp
qed

lemma update_members: "m \<in> set (AList.update k v ms) \<Longrightarrow> m = (k, v) \<or> m \<in> set ms"
  by (induction ms) (auto split: if_splits)

lemma exact_update:
  assumes "json_exact (Obj ms)" "k \<in> fst ` set ms" "json_exact v"
  shows "json_exact (Obj (AList.update k v ms))"
proof -
  have ms: "make_object ms = ms" using assms(1) by simp
  then have "distinct (map fst ms)" using make_object_distinct [of ms] by simp
  then have "make_object (AList.update k v ms) = AList.update k v ms"
    using fold_put_update(2) [where acc = "[]" and v = v, OF _ assms(2)] ms by (simp add: make_object_def)
  moreover have "\<forall>m \<in> set (AList.update k v ms). json_exact (snd m)"
    using assms update_members [of _ k v ms] by fastforce
  ultimately show ?thesis by simp
qed

section \<open>Printed naturals\<close>

lemma trim_space:
  assumes "t \<noteq> []" and "\<not> js_space (hd t)" and "\<not> js_space (last t)"
  shows "js_trim ('' '' @ t) = t"
proof -
  have "js_space (CHR '' '')" by (simp add: js_space_def)
  then have "dropWhile js_space ('' '' @ t) = t" using assms(1,2) by (cases t) auto
  moreover have "dropWhile js_space (rev t) = rev t"
    using assms(1,3) by (cases "rev t") (auto simp: last_rev hd_rev [symmetric] rev_swap)
  ultimately show ?thesis by (simp add: js_trim_def)
qed

lemma digit_not_space: "is_digit c \<Longrightarrow> \<not> js_space c"
  by (auto simp: js_space_def is_digit_def)

lemma digits_edges: "digits n \<noteq> []" "\<not> js_space (hd (digits n))" "\<not> js_space (last (digits n))"
proof -
  show ne: "digits n \<noteq> []" using digits_are_digits [of n] by simp
  have "is_digit (hd (digits n))" "is_digit (last (digits n))"
    using digits_are_digits [of n] hd_in_set [OF ne] last_in_set [OF ne] by (simp_all add: list_all_iff)
  then show "\<not> js_space (hd (digits n))" "\<not> js_space (last (digits n))" by (simp_all add: digit_not_space)
qed

lemma digit_char_val: "is_digit c \<Longrightarrow> digit_char (digit_val c) = c"
  by (simp add: is_digit_def digit_val_def)

lemma parse_digits_pos: "list_all is_digit ds \<Longrightarrow> ds \<noteq> [] \<Longrightarrow> hd ds \<noteq> CHR ''0'' \<Longrightarrow> 0 < parse_digits ds"
proof (induction ds rule: rev_induct)
  case (snoc c ds)
  show ?case
  proof (cases "ds = []")
    case True
    then have "is_digit c" "c \<noteq> CHR ''0''" using snoc.prems by simp_all
    moreover have "digit_char 0 = CHR ''0''" by code_simp
    ultimately have "digit_val c \<noteq> 0" using digit_char_val [of c] by metis
    then show ?thesis using True by (simp add: parse_digits_def)
  next
    case False
    then show ?thesis using snoc by simp
  qed
qed simp

lemma digits_parse_digits:
  "list_all is_digit ds \<Longrightarrow> ds \<noteq> [] \<Longrightarrow> hd ds \<noteq> CHR ''0'' \<Longrightarrow> digits (parse_digits ds) = ds"
proof (induction ds rule: rev_induct)
  case (snoc c ds)
  have c: "digit_val c < 10" "digit_char (digit_val c) = c"
    using snoc.prems(1) digit_char_val [of c] by (auto simp: is_digit_def digit_val_def)
  show ?case
  proof (cases "ds = []")
    case True
    have "parse_digits [c] = digit_val c" using parse_digits_snoc [of "[]" c] by (simp add: parse_digits_def)
    then show ?thesis using True c by (simp add: digits_small del: digit_char.simps)
  next
    case False
    have d: "list_all is_digit ds" "hd ds \<noteq> CHR ''0''" using snoc.prems False by simp_all
    then have "0 < parse_digits ds" using False by (intro parse_digits_pos)
    then have "\<not> 10 * parse_digits ds + digit_val c < 10" by simp
    moreover have "(10 * parse_digits ds + digit_val c) div 10 = parse_digits ds"
      "(10 * parse_digits ds + digit_val c) mod 10 = digit_val c" using c(1) by simp_all
    ultimately show ?thesis using snoc.IH [OF d(1) False d(2)] c(2)
      by (simp add: digits_large del: digit_char.simps)
  qed
qed simp

lemma parse_digits_zeros: "parse_digits (ds @ replicate b (CHR ''0'')) = parse_digits ds * 10 ^ b"
proof (induction b)
  case (Suc b)
  have "ds @ replicate (Suc b) (CHR ''0'') = (ds @ replicate b (CHR ''0'')) @ ''0''"
    by (simp add: replicate_append_same)
  then show ?case using Suc by (simp only: parse_digits_snoc) (simp add: digit_val_def)
qed simp

lemma trailing_zeros:
  obtains core b where "ds = core @ replicate b (CHR ''0'')" "core = [] \<or> last core \<noteq> CHR ''0''"
    "rev (dropWhile (\<lambda>c. c = CHR ''0'') (rev ds)) = core"
proof
  let ?P = "\<lambda>c. c = CHR ''0''"
  let ?core = "rev (dropWhile ?P (rev ds))" and ?b = "length (takeWhile ?P (rev ds))"
  have "rev ds = takeWhile ?P (rev ds) @ dropWhile ?P (rev ds)" by simp
  then have "ds = ?core @ rev (takeWhile ?P (rev ds))" by (metis rev_append rev_rev_ident)
  then show "ds = ?core @ replicate ?b (CHR ''0'')" by (metis rev_replicate takeWhile_replicate)
  show "?core = [] \<or> last ?core \<noteq> CHR ''0''"
    by (metis (mono_tags, lifting) hd_dropWhile hd_rev rev_is_Nil_conv rev_rev_ident)
  show "rev (dropWhile ?P (rev ds)) = ?core" by (rule refl)
qed

lemma trim_id: "t \<noteq> [] \<Longrightarrow> \<not> js_space (hd t) \<Longrightarrow> \<not> js_space (last t) \<Longrightarrow> js_trim t = t"
proof -
  assume t: "t \<noteq> []" "\<not> js_space (hd t)" "\<not> js_space (last t)"
  then have "dropWhile js_space t = t" by (cases t) auto
  moreover have "dropWhile js_space (rev t) = rev t"
    using t(1,3) by (cases "rev t") (auto simp: last_rev hd_rev [symmetric] rev_swap)
  ultimately show ?thesis by (simp add: js_trim_def)
qed

lemma string_to_number_digits:
  assumes "0 < n"
  shows "string_to_number (digits n) = canonical_dec False (digits n) (int (length (digits n)))"
proof -
  obtain c r where c: "digits n = c # r" using digits_are_digits [of n] by (cases "digits n") auto
  have t: "js_trim (c # r) = c # r" using digits_edges [of n] unfolding c by (intro trim_id)
  have d: "list_all is_digit (c # r)" "c \<noteq> CHR ''0''"
    using digits_are_digits [of n] digits_leading [OF assms] c by simp_all
  then have c': "c \<noteq> CHR ''-''" "c \<noteq> CHR ''+''" "c # r \<noteq> ''Infinity''" by (auto simp: is_digit_def)
  have "takeWhile is_digit (c # r) = c # r" "dropWhile is_digit (c # r) = []"
    using digit_span [OF d(1), of "[]"] by simp_all
  then have "parse_unsigned False (c # r) = canonical_dec False (c # r) (int (length (c # r)))"
    using c'(3) unfolding parse_unsigned_def Let_def by (simp only:) simp
  then show ?thesis using d(2) c'(1,2) unfolding string_to_number_def c t by simp
qed

text \<open>The Number of a whole number: its digits less the trailing zeros, at its place.\<close>

lemma whole_number:
  assumes n: "0 < n"
  obtains core b where "string_to_number (digits n) = Dec False core (int (length (digits n)))"
    "length (digits n) = length (digits core) + b" "core * 10 ^ b = n" "0 < core"
proof -
  let ?ds = "digits n"
  have ds: "list_all is_digit ?ds" "?ds \<noteq> []" "hd ?ds \<noteq> CHR ''0''"
    using digits_are_digits [of n] digits_leading [OF n] by auto
  obtain core b where s: "?ds = core @ replicate b (CHR ''0'')"
    and r: "rev (dropWhile (\<lambda>c. c = CHR ''0'') (rev ?ds)) = core"
    by (rule trailing_zeros)
  have core: "core \<noteq> []"
  proof
    assume "core = []"
    then have "?ds = replicate b (CHR ''0'')" using s by simp
    then show False using ds(2,3) by (cases b) auto
  qed
  have front: "dropWhile (\<lambda>c. c = CHR ''0'') ?ds = ?ds" "takeWhile (\<lambda>c. c = CHR ''0'') ?ds = []"
    using ds(2,3) by (cases ?ds; simp)+
  have num: "string_to_number ?ds = Dec False (parse_digits core) (int (length ?ds))"
    unfolding string_to_number_digits [OF n] canonical_core front r using core by simp
  have "list_all is_digit core" "hd core \<noteq> CHR ''0''" using ds(1,3) core s by auto
  then have pc: "digits (parse_digits core) = core" "0 < parse_digits core"
    using core by (simp_all add: digits_parse_digits parse_digits_pos)
  have l: "length ?ds = length (digits (parse_digits core)) + b" using s pc(1) by (metis length_append length_replicate)
  have "parse_digits core * 10 ^ b = n" using parse_digits_zeros [of core b] s by (metis parse_digits_digits)
  then show ?thesis using that num l pc(2) by blast
qed

end
