(* ===== verification/EventStream.thy ===== *)
theory EventStream
  imports JsonRoundtrip
begin

text \<open>
  The event stream of \<^verbatim>\<open>docs/design/prototypes/broker-proto.mjs\<close>: how the server writes an event
  (\<open>writeEvent\<close>) and a heartbeat, and how the client (\<open>openSse\<close>) takes the stream apart again as
  its bytes arrive, in chunks cut anywhere.

  The lemmas say that the client's events depend on the bytes only and not on the chunks
  (\<open>feed_chunks\<close>), and that it reads back every event the server writes, heartbeats ignored.
\<close>

section \<open>The server's side\<close>

record store_event =
  ev_seq :: nat
  ev_type :: string
  ev_data :: js

definition writeEvent :: "store_event \<Rightarrow> string" where
  "writeEvent event =
     ''id: '' @ digits (ev_seq event) @ [newline] @ ''event: '' @ ev_type event @ [newline] @
     ''data: '' @ json_text (ev_data event) @ [newline, newline]"

definition PING :: string where
  "PING = '':ping'' @ [newline, newline]"

section \<open>The client\<close>

record client_event =
  ce_seq :: js
  ce_type :: js
  ce_data :: js

definition empty_event :: client_event where
  "empty_event = \<lparr>ce_seq = Undefined, ce_type = Undefined, ce_data = Undefined\<rparr>"

text \<open>One line of a frame: its key up to the first colon, and the rest trimmed. A \<open>data\<close> line
  that is not JSON throws.\<close>

definition sse_line :: "string \<Rightarrow> client_event \<Rightarrow> client_event option" where
  "sse_line line event =
     (case split_on (CHR '':'') line of
        [] \<Rightarrow> Some event
      | key # rest \<Rightarrow>
          (let v = js_trim (join '':'' rest)
           in if key = ''id'' then Some (event\<lparr>ce_seq := Num (string_to_number v)\<rparr>)
              else if key = ''event'' then Some (event\<lparr>ce_type := Str v\<rparr>)
              else if key = ''data'' then
                (case js_parse v of None \<Rightarrow> None | Some d \<Rightarrow> Some (event\<lparr>ce_data := d\<rparr>))
              else Some event))"

fun sse_lines :: "string list \<Rightarrow> client_event \<Rightarrow> client_event option" where
  "sse_lines [] event = Some event"
| "sse_lines (l # ls) event =
     (case sse_line l event of None \<Rightarrow> None | Some event' \<Rightarrow> sse_lines ls event')"

definition sse_frame :: "string \<Rightarrow> client_event list \<Rightarrow> client_event list option" where
  "sse_frame frame events =
     (if starts_with '':'' frame then Some events
      else
        (case sse_lines (split_on newline frame) empty_event of
           None \<Rightarrow> None
         | Some event \<Rightarrow> Some (if truthy (ce_type event) then events @ [event] else events)))"

text \<open>\<open>raw.indexOf("\n\n")\<close> with the two slices: the first frame and what follows it.\<close>

fun cut_frame :: "string \<Rightarrow> (string \<times> string) option" where
  "cut_frame [] = None"
| "cut_frame [c] = None"
| "cut_frame (c # d # r) =
     (if c = newline \<and> d = newline then Some ([], r)
      else map_option (\<lambda>(f, q). (c # f, q)) (cut_frame (d # r)))"

lemma cut_frame_eq: "cut_frame raw = Some (f, q) \<Longrightarrow> raw = f @ [newline, newline] @ q"
  by (induction raw arbitrary: f rule: cut_frame.induct) (auto split: if_splits)

function sse_drain :: "string \<Rightarrow> client_event list \<Rightarrow> (string \<times> client_event list) option" where
  "sse_drain raw events =
     (case cut_frame raw of
        None \<Rightarrow> Some (raw, events)
      | Some (frame, rest) \<Rightarrow>
          (case sse_frame frame events of None \<Rightarrow> None | Some events' \<Rightarrow> sse_drain rest events'))"
  by pat_completeness auto
termination
  by (relation "measure (\<lambda>(raw, events). length raw)") (auto dest: cut_frame_eq)

declare sse_drain.simps [simp del]

record sse_client =
  sc_raw :: string
  sc_events :: "client_event list"
  sc_sawHeartbeat :: bool

definition openSse :: sse_client where
  "openSse = \<lparr>sc_raw = [], sc_events = [], sc_sawHeartbeat = False\<rparr>"

text \<open>The handler of a chunk; \<open>None\<close> is the exception of \<open>JSON.parse\<close>.\<close>

definition on_data :: "string \<Rightarrow> sse_client \<Rightarrow> sse_client option" where
  "on_data chunk cl =
     (let raw = sc_raw cl @ chunk
      in case sse_drain raw (sc_events cl) of
           None \<Rightarrow> None
         | Some (raw', events) \<Rightarrow>
             Some \<lparr>sc_raw = raw', sc_events = events,
                   sc_sawHeartbeat = (sc_sawHeartbeat cl \<or> js_includes raw '':ping'')\<rparr>)"

fun feed :: "string list \<Rightarrow> sse_client \<Rightarrow> sse_client option" where
  "feed [] cl = Some cl"
| "feed (chunk # chunks) cl =
     (case on_data chunk cl of None \<Rightarrow> None | Some cl' \<Rightarrow> feed chunks cl')"

section \<open>Chunks do not matter\<close>

lemma cut_frame_append: "cut_frame raw = Some (f, q) \<Longrightarrow> cut_frame (raw @ ext) = Some (f, q @ ext)"
  by (induction raw arbitrary: f rule: cut_frame.induct) (auto split: if_splits)

lemma sse_drain_append:
  "sse_drain raw events = Some (raw', events') \<Longrightarrow>
     sse_drain (raw @ ext) events = sse_drain (raw' @ ext) events'"
proof (induction raw events rule: sse_drain.induct)
  case (1 raw events)
  show ?case
  proof (cases "cut_frame raw")
    case None
    then show ?thesis using 1(2) by (simp add: sse_drain.simps [of raw])
  next
    case (Some p)
    obtain f q where p: "cut_frame raw = Some (f, q)" using Some by (cases p) auto
    then obtain es where es: "sse_frame f events = Some es" and d: "sse_drain q es = Some (raw', events')"
      using 1(2) by (auto simp: sse_drain.simps [of raw] split: option.splits)
    have "sse_drain (raw @ ext) events = sse_drain (q @ ext) es"
      using cut_frame_append [OF p, of ext] es by (simp add: sse_drain.simps [of "raw @ ext"])
    then show ?thesis using 1(1) [OF p refl es d] by simp
  qed
qed

lemma sse_drain_rest: "sse_drain raw events = Some (raw', events') \<Longrightarrow> cut_frame raw' = None"
proof (induction raw events rule: sse_drain.induct)
  case (1 raw events)
  then show ?case by (auto simp: sse_drain.simps [of raw] split: option.splits prod.splits)
qed

lemma sse_drain_fails: "sse_drain raw events = None \<Longrightarrow> sse_drain (raw @ ext) events = None"
proof (induction raw events rule: sse_drain.induct)
  case (1 raw events)
  obtain f q where p: "cut_frame raw = Some (f, q)"
    using 1(2) by (auto simp: sse_drain.simps [of raw] split: option.splits)
  show ?case
  proof (cases "sse_frame f events")
    case None
    then show ?thesis using cut_frame_append [OF p] by (simp add: sse_drain.simps [of "raw @ ext"])
  next
    case (Some es)
    then have "sse_drain q es = None" using 1(2) p by (simp add: sse_drain.simps [of raw])
    then show ?thesis using 1(1) [OF p refl Some] cut_frame_append [OF p] Some
      by (simp add: sse_drain.simps [of "raw @ ext"])
  qed
qed

lemma feed_chunks:
  assumes "sse_drain (sc_raw cl @ concat chunks) (sc_events cl) = Some (raw, events)"
    and "cut_frame (sc_raw cl) = None"
  shows "\<exists>cl'. feed chunks cl = Some cl' \<and> sc_raw cl' = raw \<and> sc_events cl' = events"
  using assms
proof (induction chunks arbitrary: cl)
  case Nil
  then show ?case by (simp add: sse_drain.simps [of "sc_raw cl"])
next
  case (Cons chunk chunks)
  let ?raw = "sc_raw cl @ chunk"
  have "sse_drain ?raw (sc_events cl) \<noteq> None"
  proof
    assume "sse_drain ?raw (sc_events cl) = None"
    then have "sse_drain (?raw @ concat chunks) (sc_events cl) = None" by (rule sse_drain_fails)
    then show False using Cons.prems(1) by simp
  qed
  then obtain r es where d: "sse_drain ?raw (sc_events cl) = Some (r, es)" by auto
  define cl' where "cl' = \<lparr>sc_raw = r, sc_events = es,
      sc_sawHeartbeat = (sc_sawHeartbeat cl \<or> js_includes ?raw '':ping'')\<rparr>"
  have on: "on_data chunk cl = Some cl'" using d by (simp add: on_data_def cl'_def)
  have "sse_drain (r @ concat chunks) es = Some (raw, events)"
    using Cons.prems(1) sse_drain_append [OF d, of "concat chunks"] by simp
  then have "\<exists>cl''. feed chunks cl' = Some cl'' \<and> sc_raw cl'' = raw \<and> sc_events cl'' = events"
    using sse_drain_rest [OF d] by (intro Cons.IH) (simp_all add: cl'_def)
  then show ?case by (simp add: on)
qed

section \<open>What is written is read back\<close>

definition client_view :: "store_event \<Rightarrow> client_event" where
  "client_view e =
     \<lparr>ce_seq = Num (string_to_number (digits (ev_seq e))), ce_type = Str (ev_type e),
      ce_data = json_image (ev_data e)\<rparr>"

definition writable :: "store_event \<Rightarrow> bool" where
  "writable e \<longleftrightarrow> ev_type e \<in> {''added'', ''decided''} \<and> (\<exists>ms. ev_data e = Obj ms)"

lemma hex_digit_code: "v < 16 \<Longrightarrow> 48 \<le> (of_char (hex_digit v) :: nat)"
  by (simp add: hex_digit_def)

lemma quote_char_plain: "newline \<notin> set (quote_char c)"
proof -
  have hex: "v < 16 \<Longrightarrow> hex_digit v \<noteq> newline" for v
    using hex_digit_code [of v] by (auto simp: newline_def)
  have "(of_char c :: nat) < 256" by simp
  then have "(of_char c :: nat) div 16 < 16" by linarith
  then show ?thesis using hex [of "of_char c mod 16"] hex [of "of_char c div 16"]
    by (auto simp: quote_char_def newline_def)
qed

lemma json_quote_plain: "newline \<notin> set (json_quote s)"
  using quote_char_plain by (auto simp: json_quote_def newline_def)

lemma digits_plain: "newline \<notin> set (digits n)"
  using digits_are_digits [of n] by (auto simp: list_all_iff newline_def is_digit_def)

lemma number_plain: "newline \<notin> set (json_number x)"
proof (cases x)
  case (Dec neg s n)
  have "newline \<notin> set (take m (digits s))" "newline \<notin> set (drop m (digits s))" for m
    using digits_plain [of s] by (auto dest: in_set_takeD in_set_dropD)
  then show ?thesis using Dec digits_plain
    by (auto simp: dec_to_string_def Let_def newline_def split: if_splits)
qed (auto simp: newline_def)

lemma join_plain: "c \<notin> set sep \<Longrightarrow> \<forall>t \<in> set ts. c \<notin> set t \<Longrightarrow> c \<notin> set (join sep ts)"
  by (induction sep ts rule: join.induct) auto

lemma stringify_plain:
  "stringify v = Some t \<Longrightarrow> newline \<notin> set t"
  "\<forall>t \<in> set (stringify_elems vs). newline \<notin> set t"
  "\<forall>t \<in> set (stringify_members ms). newline \<notin> set t"
proof (induction v and vs and ms arbitrary: t rule: stringify_stringify_elems_stringify_members.induct)
  case (6 xs)
  then have "newline \<notin> set (join '','' (stringify_elems xs))"
    by (intro join_plain) (auto simp: newline_def)
  then show ?case using 6 by (auto simp: newline_def)
next
  case (7 ms)
  then have "newline \<notin> set (join '','' (stringify_members ms))"
    by (intro join_plain) (auto simp: newline_def)
  then show ?case using 7 by (auto simp: newline_def)
next
  case (4 x)
  then show ?case using number_plain by auto
next
  case (5 s)
  then show ?case using json_quote_plain by auto
next
  case (9 x xs)
  then show ?case by (auto simp: newline_def split: option.splits)
next
  case (11 k v ms)
  then show ?case using json_quote_plain by (auto simp: newline_def split: option.splits)
qed (auto simp: newline_def split: if_splits)

lemma split_key: "CHR '':'' \<notin> set key \<Longrightarrow> split_on (CHR '':'') (key @ '':'' @ v) = key # split_on (CHR '':'') v"
  by (induction key) auto

lemma sse_line_field:
  assumes "CHR '':'' \<notin> set key" and "v \<noteq> []" and "\<not> js_space (hd v)" and "\<not> js_space (last v)"
  shows "sse_line (key @ '': '' @ v) event =
           (if key = ''id'' then Some (event\<lparr>ce_seq := Num (string_to_number v)\<rparr>)
            else if key = ''event'' then Some (event\<lparr>ce_type := Str v\<rparr>)
            else if key = ''data'' then
              (case js_parse v of None \<Rightarrow> None | Some d \<Rightarrow> Some (event\<lparr>ce_data := d\<rparr>))
            else Some event)"
proof -
  have s: "split_on (CHR '':'') (key @ '': '' @ v) = key # split_on (CHR '':'') ('' '' @ v)"
    using split_key [OF assms(1), of "'' '' @ v"] by simp
  have j: "js_trim (join '':'' (split_on (CHR '':'') ('' '' @ v))) = v"
    unfolding join_split_on by (rule trim_space [OF assms(2-4)])
  show ?thesis unfolding sse_line_def s by (simp only: list.case Let_def j)
qed

lemma object_text: "json_text (Obj ms) = ''{'' @ join '','' (stringify_members ms) @ ''}''"
  by (simp add: json_text_def)

lemma cut_plain: "newline \<notin> set l \<Longrightarrow> cut_frame (l @ r) = map_option (\<lambda>(f, q). (l @ f, q)) (cut_frame r)"
proof (induction l)
  case Nil
  then show ?case by (cases "cut_frame r") auto
next
  case (Cons c l)
  then have "cut_frame (c # l @ r) = map_option (\<lambda>(f, q). (c # f, q)) (cut_frame (l @ r))"
    by (cases "l @ r") auto
  then show ?case using Cons by (cases "cut_frame r") auto
qed

lemma cut_newline: "l \<noteq> [] \<Longrightarrow> newline \<notin> set l \<Longrightarrow>
    cut_frame (newline # l @ r) = map_option (\<lambda>(f, q). (newline # f, q)) (cut_frame (l @ r))"
  by (cases l) auto

lemma cut_lines:
  assumes "\<forall>l \<in> set ls. l \<noteq> [] \<and> newline \<notin> set l" and "ls \<noteq> []"
  shows "cut_frame (join [newline] ls @ [newline, newline] @ q) = Some (join [newline] ls, q)"
  using assms
proof (induction ls)
  case Nil
  then show ?case by simp
next
  case (Cons l ls)
  show ?case
  proof (cases ls)
    case Nil
    then show ?thesis using Cons.prems by (simp add: cut_plain)
  next
    case (Cons m ms)
    let ?t = "join [newline] ls @ [newline, newline] @ q"
    obtain u where u: "?t = m @ u" using Cons by (cases ms) auto
    have IH: "cut_frame ?t = Some (join [newline] ls, q)" using Cons.IH Cons.prems Cons by simp
    have "cut_frame (newline # ?t) = Some (newline # join [newline] ls, q)"
      using IH Cons.prems(1) Cons unfolding u by (subst cut_newline) auto
    then show ?thesis using Cons.prems Cons by (simp add: cut_plain join_Cons)
  qed
qed

lemma split_lines:
  "\<forall>l \<in> set ls. newline \<notin> set l \<Longrightarrow> ls \<noteq> [] \<Longrightarrow> split_on newline (join [newline] ls) = ls"
proof (induction ls)
  case (Cons l ls)
  have single: "newline \<notin> set m \<Longrightarrow> split_on newline m = [m]" for m by (induction m) auto
  have sep: "newline \<notin> set m \<Longrightarrow> split_on newline (m @ newline # r) = m # split_on newline r" for m r
    by (induction m) auto
  show ?case using Cons by (cases "ls = []") (auto simp: single sep join_Cons)
qed simp

definition event_lines :: "store_event \<Rightarrow> string list" where
  "event_lines e =
     [''id'' @ '': '' @ digits (ev_seq e), ''event'' @ '': '' @ ev_type e, ''data'' @ '': '' @ json_text (ev_data e)]"

lemma writeEvent_lines: "writeEvent e @ q = join [newline] (event_lines e) @ [newline, newline] @ q"
  by (simp add: writeEvent_def event_lines_def)

lemma event_lines_plain:
  assumes "writable e"
  shows "\<forall>l \<in> set (event_lines e). l \<noteq> [] \<and> newline \<notin> set l"
proof -
  obtain ms where d: "ev_data e = Obj ms" using assms by (auto simp: writable_def)
  have "stringify (Obj ms) = Some (json_text (Obj ms))" by (simp add: object_text)
  then have "newline \<notin> set (json_text (ev_data e))" unfolding d by (rule stringify_plain(1))
  then show ?thesis using assms digits_plain [of "ev_seq e"]
    by (auto simp: event_lines_def writable_def newline_def)
qed

lemma sse_lines_event:
  assumes "writable e"
  shows "sse_lines (event_lines e) empty_event = Some (client_view e)"
proof -
  obtain ms where d: "ev_data e = Obj ms" using assms by (auto simp: writable_def)
  let ?j = "json_text (ev_data e)"
  have s: "stringify (ev_data e) = Some ?j" by (simp add: d object_text)
  have j: "?j \<noteq> []" "\<not> js_space (hd ?j)" "\<not> js_space (last ?j)"
    by (simp_all add: d object_text js_space_def)
  have ty: "ev_type e \<noteq> []" "\<not> js_space (hd (ev_type e))" "\<not> js_space (last (ev_type e))"
    using assms by (auto simp: writable_def js_space_def)
  have key: "CHR '':'' \<notin> set ''id''" "CHR '':'' \<notin> set ''event''" "CHR '':'' \<notin> set ''data''" by simp_all
  show ?thesis unfolding event_lines_def
    by (simp only: sse_lines.simps sse_line_field [OF key(1) digits_edges] sse_line_field [OF key(2) ty]
        sse_line_field [OF key(3) j] js_parse_stringify [OF s] option.case list.inject char.inject simp_thms if_True if_False)
      (simp add: client_view_def empty_event_def)
qed

lemma sse_frame_event:
  assumes "writable e"
  shows "sse_frame (join [newline] (event_lines e)) es = Some (es @ [client_view e])"
proof -
  have p: "\<forall>l \<in> set (event_lines e). newline \<notin> set l" "event_lines e \<noteq> []"
    using event_lines_plain [OF assms] by (auto simp: event_lines_def)
  have h: "\<not> starts_with '':'' (join [newline] (event_lines e))" by (simp add: event_lines_def)
  have "ev_type e \<noteq> []" using assms by (auto simp: writable_def)
  then have "truthy (ce_type (client_view e))" by (simp add: client_view_def)
  then show ?thesis
    unfolding sse_frame_def split_lines [OF p] sse_lines_event [OF assms] using h by simp
qed

text \<open>What the server writes on a stream: events, and heartbeats in between.\<close>

datatype written = Event store_event | Ping

fun wire :: "written \<Rightarrow> string" where
  "wire (Event e) = writeEvent e"
| "wire Ping = PING"

fun events_in :: "written list \<Rightarrow> store_event list" where
  "events_in [] = []"
| "events_in (Event e # ws) = e # events_in ws"
| "events_in (Ping # ws) = events_in ws"

lemma events_in_append [simp]: "events_in (ws @ vs) = events_in ws @ events_in vs"
  by (induction ws rule: events_in.induct) auto

lemma events_in_map [simp]: "events_in (map Event es) = es"
  by (induction es) auto

lemma drain_written:
  assumes "\<forall>e \<in> set (events_in ws). writable e"
  shows "sse_drain (concat (map wire ws)) es = Some ([], es @ map client_view (events_in ws))"
  using assms
proof (induction ws arbitrary: es rule: events_in.induct)
  case 1
  then show ?case by (simp add: sse_drain.simps)
next
  case (2 e ws)
  let ?q = "concat (map wire ws)"
  have w: "writable e" using 2 by simp
  have "cut_frame (writeEvent e @ ?q) = Some (join [newline] (event_lines e), ?q)"
    unfolding writeEvent_lines using cut_lines [OF event_lines_plain [OF w]] by (simp add: event_lines_def)
  then show ?case using 2 sse_frame_event [OF w, of es]
    by (subst sse_drain.simps) simp
next
  case (3 ws)
  have "cut_frame (PING @ concat (map wire ws)) = Some ('':ping'', concat (map wire ws))"
    by (simp add: PING_def newline_def)
  then show ?case using 3 by (subst sse_drain.simps) (simp add: sse_frame_def)
qed

text \<open>The client reads exactly the events written, however the bytes were cut into chunks.\<close>

lemma client_reads:
  assumes "\<forall>e \<in> set (events_in ws). writable e" and "concat chunks = concat (map wire ws)"
  shows "\<exists>cl. feed chunks openSse = Some cl \<and> sc_raw cl = [] \<and> sc_events cl = map client_view (events_in ws)"
  using feed_chunks [of openSse chunks "[]" "map client_view (events_in ws)"] drain_written [OF assms(1), of "[]"]
  by (simp add: openSse_def assms(2))

end
