(* ===== verification/BrokerProto.thy ===== *)
theory BrokerProto
  imports EventStream
begin

text \<open>
  The server of \<^verbatim>\<open>docs/design/prototypes/broker-proto.mjs\<close>: the store with its log and its bus
  (\<open>createStore\<close>) and the request handler (\<open>createServer\<close>), as one state machine whose
  events are a completed request, the deadline of a long poll, a heartbeat and the end of a
  connection.

  A request gets the next connection number; what the server sends is a log of pairs of a
  connection and what is sent on it. The listeners of the bus are kept in the order in which they
  were registered; a timer and an interval live exactly as long as the listener they belong to.
  The URL parser is a parameter. An exception no handler catches ends the process: a URL that does
  not parse, a body that is not JSON, a body that is null.
\<close>

section \<open>The store\<close>

datatype listener = Stream nat | Waiting nat string

datatype sent =
    Head nat
  | Chunk written
  | Reply nat string

record broker =
  br_requests :: "(js \<times> js) list"
  br_decisions :: "string \<rightharpoonup> js"
  br_log :: "store_event list"
  br_seq :: nat
  br_listeners :: "listener list"
  br_conns :: nat
  br_sent :: "(nat \<times> sent) list"
  br_down :: bool

definition createStore :: broker where
  "createStore = \<lparr>br_requests = [], br_decisions = Map.empty, br_log = [], br_seq = 0, br_listeners = [],
     br_conns = 0, br_sent = [], br_down = False\<rparr>"

definition send :: "nat \<Rightarrow> sent \<Rightarrow> broker \<Rightarrow> broker" where
  "send c x s = s\<lparr>br_sent := br_sent s @ [(c, x)]\<rparr>"

text \<open>\<open>json(res, status, body)\<close>.\<close>

definition json_reply :: "nat \<Rightarrow> nat \<Rightarrow> js \<Rightarrow> broker \<Rightarrow> broker" where
  "json_reply c status body = send c (Reply status (json_text body))"

definition stop_listening :: "listener \<Rightarrow> broker \<Rightarrow> broker" where
  "stop_listening l s = s\<lparr>br_listeners := filter (\<lambda>l'. l' \<noteq> l) (br_listeners s)\<rparr>"

text \<open>A listener hears an event: a stream writes it, a waiting poll for its request is released.\<close>

fun notify :: "store_event \<Rightarrow> broker \<Rightarrow> listener \<Rightarrow> broker" where
  "notify event s (Stream c) = send c (Chunk (Event event)) s"
| "notify event s (Waiting c ident) =
     (if ev_type event = ''decided'' \<and> member (ev_data event) ''requestId'' = Str ident
      then json_reply c 200 (ev_data event) (stop_listening (Waiting c ident) s)
      else s)"

text \<open>The bus calls the listeners it had when the event was emitted.\<close>

definition emit_event :: "string \<Rightarrow> js \<Rightarrow> broker \<Rightarrow> broker" where
  "emit_event ty data s =
     (let event = \<lparr>ev_seq = Suc (br_seq s), ev_type = ty, ev_data = data\<rparr>;
          s' = s\<lparr>br_seq := Suc (br_seq s), br_log := br_log s @ [event]\<rparr>
      in foldl (notify event) s' (br_listeners s))"

text \<open>Keys of a Map: primitive values are compared, objects are distinct.\<close>

definition same_key :: "js \<Rightarrow> js \<Rightarrow> bool" where
  "same_key a b \<longleftrightarrow> a = b \<and> \<not> is_object a"

fun map_set :: "js \<Rightarrow> js \<Rightarrow> (js \<times> js) list \<Rightarrow> (js \<times> js) list" where
  "map_set k v [] = [(k, v)]"
| "map_set k v ((k', v') # m) = (if same_key k k' then (k', v) # m else (k', v') # map_set k v m)"

text \<open>\<open>{ ...req, id }\<close>.\<close>

definition with_id :: "js \<Rightarrow> js \<Rightarrow> js" where
  "with_id req ident = Obj (put_member ''id'' ident (make_object (entries req)))"

definition request_ident :: "js \<Rightarrow> broker \<Rightarrow> js" where
  "request_ident req s = nullish_or (member req ''id'') (Str (''req-'' @ digits (br_seq s + 1)))"

definition enqueue :: "js \<Rightarrow> broker \<Rightarrow> js \<times> broker" where
  "enqueue req s =
     (let ident = request_ident req s; record = with_id req ident
      in (record, emit_event ''added'' record (s\<lparr>br_requests := map_set ident record (br_requests s)\<rparr>)))"

definition decision_record :: "string \<Rightarrow> js \<Rightarrow> js \<Rightarrow> js" where
  "decision_record ident verdict reason =
     Obj [(''requestId'', Str ident), (''verdict'', verdict), (''reason'', reason)]"

definition store_decide :: "string \<Rightarrow> js \<Rightarrow> js \<Rightarrow> broker \<Rightarrow> broker" where
  "store_decide ident verdict reason s =
     (case br_decisions s ident of
        Some d \<Rightarrow> s
      | None \<Rightarrow>
          (let d = decision_record ident verdict reason
           in emit_event ''decided'' d (s\<lparr>br_decisions := (br_decisions s)(ident \<mapsto> d)\<rparr>)))"

definition waitForDecision :: "nat \<Rightarrow> string \<Rightarrow> broker \<Rightarrow> broker" where
  "waitForDecision c ident s =
     (case br_decisions s ident of
        Some d \<Rightarrow> json_reply c 200 d s
      | None \<Rightarrow> s\<lparr>br_listeners := br_listeners s @ [Waiting c ident]\<rparr>)"

text \<open>\<open>event.seq > lastSeq\<close> for any Number.\<close>

fun seq_after :: "nat \<Rightarrow> number \<Rightarrow> bool" where
  "seq_after m NaN = False"
| "seq_after m (Infinity neg) = neg"
| "seq_after m (Dec neg s n) =
     (if s = 0 then 0 < m
      else if neg then True
      else (let k = int (length (digits s))
            in if k \<le> n then s * 10 ^ nat (n - k) < m else s < m * 10 ^ nat (k - n)))"

definition eventsSince :: "number \<Rightarrow> broker \<Rightarrow> store_event list" where
  "eventsSince lastSeq s = filter (\<lambda>event. seq_after (ev_seq event) lastSeq) (br_log s)"

section \<open>The server\<close>

record broker_request =
  hr_method :: string
  hr_url :: string
  hr_lastEventId :: "string option"
  hr_body :: string

text \<open>The URL parser: the pathname and the query parameter \<open>lastEventId\<close>.\<close>

type_synonym url_parser = "string \<Rightarrow> (string \<times> string option) option"

text \<open>The patterns of the two decision paths: one non-empty segment between two texts.\<close>

definition path_ident :: "string \<Rightarrow> string \<Rightarrow> string option" where
  "path_ident before_ident path =
     (if starts_with before_ident path then
        (let r = drop (length before_ident) path;
             ident = takeWhile (\<lambda>c. c \<noteq> CHR ''/'') r
         in if ident \<noteq> [] \<and> drop (length ident) r = ''/decision'' then Some ident else None)
      else None)"

definition readJson :: "string \<Rightarrow> js option" where
  "readJson raw = (if raw = [] then Some (Obj []) else js_parse raw)"

definition last_event_id :: "broker_request \<Rightarrow> string option \<Rightarrow> number" where
  "last_event_id req param =
     string_to_number (case hr_lastEventId req of
                         Some h \<Rightarrow> h
                       | None \<Rightarrow> (case param of Some p \<Rightarrow> p | None \<Rightarrow> ''0''))"

definition bring_down :: "broker \<Rightarrow> broker" where
  "bring_down s = s\<lparr>br_down := True\<rparr>"

definition serve_request :: "nat \<Rightarrow> string \<Rightarrow> broker \<Rightarrow> broker" where
  "serve_request c raw s =
     (case readJson raw of
        None \<Rightarrow> bring_down s
      | Some body \<Rightarrow>
          if nullish body then bring_down s
          else (let (record, s') = enqueue body s
                in json_reply c 200 (Obj [(''id'', member record ''id'')]) s'))"

definition serve_decision :: "nat \<Rightarrow> string \<Rightarrow> string \<Rightarrow> broker \<Rightarrow> broker" where
  "serve_decision c ident raw s =
     (case readJson raw of
        None \<Rightarrow> bring_down s
      | Some body \<Rightarrow>
          if nullish body then bring_down s
          else if member body ''verdict'' \<noteq> Str ''allow'' \<and> member body ''verdict'' \<noteq> Str ''deny''
          then json_reply c 400 (Obj [(''error'', Str ''verdict must be allow or deny'')]) s
          else json_reply c 200 (Obj [(''ok'', Bool True)])
                 (store_decide ident (member body ''verdict'') (nullish_or (member body ''reason'') (Str [])) s))"

definition serve_events :: "nat \<Rightarrow> number \<Rightarrow> broker \<Rightarrow> broker" where
  "serve_events c lastId s =
     (let s' = foldl (\<lambda>s event. send c (Chunk (Event event)) s) (send c (Head 200) s) (eventsSince lastId s)
      in s'\<lparr>br_listeners := br_listeners s' @ [Stream c]\<rparr>)"

definition serve_broker :: "url_parser \<Rightarrow> broker_request \<Rightarrow> broker \<Rightarrow> broker" where
  "serve_broker parse req s0 =
     (let c = br_conns s0; s = s0\<lparr>br_conns := Suc c\<rparr>
      in case parse (hr_url req) of
           None \<Rightarrow> bring_down s
         | Some (path, param) \<Rightarrow>
             if hr_method req = ''POST'' \<and> path = ''/api/plugin/requests''
             then serve_request c (hr_body req) s
             else
               (case (if hr_method req = ''GET'' then path_ident ''/api/plugin/requests/'' path else None) of
                  Some ident \<Rightarrow> waitForDecision c ident s
                | None \<Rightarrow>
                    (case (if hr_method req = ''POST'' then path_ident ''/api/approval-requests/'' path else None) of
                       Some ident \<Rightarrow> serve_decision c ident (hr_body req) s
                     | None \<Rightarrow>
                         if hr_method req = ''GET'' \<and> path = ''/api/events''
                         then serve_events c (last_event_id req param) s
                         else json_reply c 404 (Obj [(''error'', Str ''not found'')]) s)))"

datatype happening =
    Request broker_request
  | Deadline nat string
  | Beat nat
  | Gone nat

definition deadline :: "nat \<Rightarrow> string \<Rightarrow> broker \<Rightarrow> broker" where
  "deadline c ident s =
     (if Waiting c ident \<in> set (br_listeners s)
      then json_reply c 202 (Obj [(''status'', Str ''pending'')]) (stop_listening (Waiting c ident) s)
      else s)"

definition heartbeat :: "nat \<Rightarrow> broker \<Rightarrow> broker" where
  "heartbeat c s = (if Stream c \<in> set (br_listeners s) then send c (Chunk Ping) s else s)"

definition broker_step :: "url_parser \<Rightarrow> broker \<Rightarrow> happening \<Rightarrow> broker" where
  "broker_step parse s h =
     (if br_down s then s
      else
        (case h of
           Request req \<Rightarrow> serve_broker parse req s
         | Deadline c ident \<Rightarrow> deadline c ident s
         | Beat c \<Rightarrow> heartbeat c s
         | Gone c \<Rightarrow> stop_listening (Stream c) s))"

section \<open>What the operations change\<close>

fun conn_of :: "listener \<Rightarrow> nat" where
  "conn_of (Stream c) = c"
| "conn_of (Waiting c ident) = c"

definition decides :: "string \<Rightarrow> store_event \<Rightarrow> bool" where
  "decides ident e \<longleftrightarrow> ev_type e = ''decided'' \<and> member (ev_data e) ''requestId'' = Str ident"

fun released :: "store_event \<Rightarrow> listener \<Rightarrow> bool" where
  "released e (Stream c) = False"
| "released e (Waiting c ident) = decides ident e"

text \<open>What the listeners of an event send, in order.\<close>

fun hear :: "store_event \<Rightarrow> listener \<Rightarrow> (nat \<times> sent) list" where
  "hear e (Stream c) = [(c, Chunk (Event e))]"
| "hear e (Waiting c ident) = (if decides ident e then [(c, Reply 200 (json_text (ev_data e)))] else [])"

lemma send_fields [simp]:
  "br_requests (send c x s) = br_requests s" "br_decisions (send c x s) = br_decisions s"
  "br_log (send c x s) = br_log s" "br_seq (send c x s) = br_seq s"
  "br_listeners (send c x s) = br_listeners s" "br_conns (send c x s) = br_conns s"
  "br_sent (send c x s) = br_sent s @ [(c, x)]" "br_down (send c x s) = br_down s"
  by (simp_all add: send_def)

lemma json_reply_fields [simp]:
  "br_requests (json_reply c n b s) = br_requests s" "br_decisions (json_reply c n b s) = br_decisions s"
  "br_log (json_reply c n b s) = br_log s" "br_seq (json_reply c n b s) = br_seq s"
  "br_listeners (json_reply c n b s) = br_listeners s" "br_conns (json_reply c n b s) = br_conns s"
  "br_sent (json_reply c n b s) = br_sent s @ [(c, Reply n (json_text b))]" "br_down (json_reply c n b s) = br_down s"
  by (simp_all add: json_reply_def)

lemma stop_listening_fields [simp]:
  "br_requests (stop_listening l s) = br_requests s" "br_decisions (stop_listening l s) = br_decisions s"
  "br_log (stop_listening l s) = br_log s" "br_seq (stop_listening l s) = br_seq s"
  "br_listeners (stop_listening l s) = filter (\<lambda>l'. l' \<noteq> l) (br_listeners s)"
  "br_conns (stop_listening l s) = br_conns s" "br_sent (stop_listening l s) = br_sent s"
  "br_down (stop_listening l s) = br_down s"
  by (simp_all add: stop_listening_def)

lemma bring_down_fields [simp]:
  "br_requests (bring_down s) = br_requests s" "br_decisions (bring_down s) = br_decisions s"
  "br_log (bring_down s) = br_log s" "br_seq (bring_down s) = br_seq s"
  "br_listeners (bring_down s) = br_listeners s" "br_conns (bring_down s) = br_conns s"
  "br_sent (bring_down s) = br_sent s" "br_down (bring_down s) = True"
  by (simp_all add: bring_down_def)

lemma notify_all:
  "br_requests (foldl (notify e) s ls) = br_requests s"
  "br_decisions (foldl (notify e) s ls) = br_decisions s"
  "br_log (foldl (notify e) s ls) = br_log s"
  "br_seq (foldl (notify e) s ls) = br_seq s"
  "br_conns (foldl (notify e) s ls) = br_conns s"
  "br_down (foldl (notify e) s ls) = br_down s"
  "br_sent (foldl (notify e) s ls) = br_sent s @ concat (map (hear e) ls)"
  "br_listeners (foldl (notify e) s ls) = filter (\<lambda>l. \<not> (l \<in> set ls \<and> released e l)) (br_listeners s)"
proof (induction ls arbitrary: s)
  case Nil
  case 1 show ?case by simp
  case 2 show ?case by simp
  case 3 show ?case by simp
  case 4 show ?case by simp
  case 5 show ?case by simp
  case 6 show ?case by simp
  case 7 show ?case by simp
  case 8 show ?case by simp
next
  case (Cons l ls)
  have one: "br_requests (notify e s l) = br_requests s \<and> br_decisions (notify e s l) = br_decisions s \<and>
      br_log (notify e s l) = br_log s \<and> br_seq (notify e s l) = br_seq s \<and>
      br_conns (notify e s l) = br_conns s \<and> br_down (notify e s l) = br_down s \<and>
      br_sent (notify e s l) = br_sent s @ hear e l \<and>
      br_listeners (notify e s l) = filter (\<lambda>l'. \<not> (l' = l \<and> released e l)) (br_listeners s)"
    for s :: broker
    by (cases l) (auto simp: json_reply_def stop_listening_def decides_def)
  case 1 show ?case by (simp add: Cons(1) one)
  case 2 show ?case by (simp add: Cons(2) one)
  case 3 show ?case by (simp add: Cons(3) one)
  case 4 show ?case by (simp add: Cons(4) one)
  case 5 show ?case by (simp add: Cons(5) one)
  case 6 show ?case by (simp add: Cons(6) one)
  case 7 show ?case by (simp add: Cons(7) one)
  case 8 show ?case by (simp add: Cons(8) one) (metis (mono_tags, lifting))
qed

definition next_event :: "string \<Rightarrow> js \<Rightarrow> broker \<Rightarrow> store_event" where
  "next_event ty data s = \<lparr>ev_seq = Suc (br_seq s), ev_type = ty, ev_data = data\<rparr>"

lemma next_event_fields [simp]:
  "ev_seq (next_event ty data s) = Suc (br_seq s)" "ev_type (next_event ty data s) = ty"
  "ev_data (next_event ty data s) = data"
  by (simp_all add: next_event_def)

lemma next_event_update [simp]:
  "next_event ty data (s\<lparr>br_decisions := ds\<rparr>) = next_event ty data s"
  "next_event ty data (s\<lparr>br_requests := rs\<rparr>) = next_event ty data s"
  by (simp_all add: next_event_def)

lemma emit_fields [simp]:
  "br_requests (emit_event ty data s) = br_requests s"
  "br_decisions (emit_event ty data s) = br_decisions s"
  "br_log (emit_event ty data s) = br_log s @ [next_event ty data s]"
  "br_seq (emit_event ty data s) = Suc (br_seq s)"
  "br_conns (emit_event ty data s) = br_conns s"
  "br_down (emit_event ty data s) = br_down s"
  "br_sent (emit_event ty data s) = br_sent s @ concat (map (hear (next_event ty data s)) (br_listeners s))"
  "br_listeners (emit_event ty data s) = filter (\<lambda>l. \<not> released (next_event ty data s) l) (br_listeners s)"
  by (auto simp: emit_event_def Let_def notify_all next_event_def [symmetric] intro: filter_cong)

lemma replay_fields [simp]:
  "br_requests (foldl (\<lambda>s e. send c (Chunk (Event e)) s) s es) = br_requests s"
  "br_decisions (foldl (\<lambda>s e. send c (Chunk (Event e)) s) s es) = br_decisions s"
  "br_log (foldl (\<lambda>s e. send c (Chunk (Event e)) s) s es) = br_log s"
  "br_seq (foldl (\<lambda>s e. send c (Chunk (Event e)) s) s es) = br_seq s"
  "br_conns (foldl (\<lambda>s e. send c (Chunk (Event e)) s) s es) = br_conns s"
  "br_down (foldl (\<lambda>s e. send c (Chunk (Event e)) s) s es) = br_down s"
  "br_listeners (foldl (\<lambda>s e. send c (Chunk (Event e)) s) s es) = br_listeners s"
  "br_sent (foldl (\<lambda>s e. send c (Chunk (Event e)) s) s es) = br_sent s @ map (\<lambda>e. (c, Chunk (Event e))) es"
  by (induction es arbitrary: s) simp_all

section \<open>The invariant\<close>

definition log_ok :: "broker \<Rightarrow> bool" where
  "log_ok s \<longleftrightarrow> map ev_seq (br_log s) = [1..<Suc (br_seq s)] \<and> (\<forall>e \<in> set (br_log s). writable e)"

text \<open>The log records the decision of a request, once.\<close>

definition decisions_ok :: "broker \<Rightarrow> bool" where
  "decisions_ok s \<longleftrightarrow>
     (\<forall>ident. map ev_data (filter (decides ident) (br_log s)) =
        (case br_decisions s ident of None \<Rightarrow> [] | Some d \<Rightarrow> [d]))"

definition conns_ok :: "broker \<Rightarrow> bool" where
  "conns_ok s \<longleftrightarrow>
     distinct (map conn_of (br_listeners s)) \<and> (\<forall>l \<in> set (br_listeners s). conn_of l < br_conns s) \<and>
     (\<forall>p \<in> set (br_sent s). fst p < br_conns s)"

definition waiting_ok :: "broker \<Rightarrow> bool" where
  "waiting_ok s \<longleftrightarrow> (\<forall>c ident. Waiting c ident \<in> set (br_listeners s) \<longrightarrow> br_decisions s ident = None)"

definition broker_inv :: "broker \<Rightarrow> bool" where
  "broker_inv s \<longleftrightarrow> log_ok s \<and> decisions_ok s \<and> conns_ok s \<and> waiting_ok s"

lemmas broker_inv_defs = broker_inv_def log_ok_def decisions_ok_def conns_ok_def waiting_ok_def

lemma createStore_inv: "broker_inv createStore"
  by (simp add: broker_inv_defs createStore_def)

lemma hear_conn: "p \<in> set (hear e l) \<Longrightarrow> fst p = conn_of l"
  by (cases l) (auto split: if_splits)

lemma hear_conns: "p \<in> set (concat (map (hear e) ls)) \<Longrightarrow> fst p \<in> conn_of ` set ls"
  by (auto dest: hear_conn)

lemma emit_log_ok:
  assumes "log_ok s" and "ty \<in> {''added'', ''decided''}"
  shows "log_ok (emit_event ty (Obj ms) s)"
  using assms by (auto simp: log_ok_def writable_def)

lemma emit_conns_ok:
  assumes "conns_ok s"
  shows "conns_ok (emit_event ty data s)"
proof -
  have "fst p < br_conns s" if "p \<in> set (br_sent (emit_event ty data s))" for p
  proof (cases "p \<in> set (br_sent s)")
    case True
    then show ?thesis using assms by (simp add: conns_ok_def)
  next
    case False
    then have "fst p \<in> conn_of ` set (br_listeners s)" using that by (auto dest: hear_conn)
    then show ?thesis using assms by (auto simp: conns_ok_def)
  qed
  then show ?thesis using assms by (simp add: conns_ok_def)
qed

lemma added_inv [wf_intros]:
  assumes "broker_inv s"
  shows "broker_inv (emit_event ''added'' (Obj ms) s)"
proof -
  have "\<not> decides ident (next_event ''added'' (Obj ms) s)" for ident
    by (simp add: decides_def next_event_def)
  then have "decisions_ok (emit_event ''added'' (Obj ms) s)"
    using assms by (simp add: broker_inv_def decisions_ok_def)
  moreover have "waiting_ok (emit_event ''added'' (Obj ms) s)"
    using assms by (auto simp: broker_inv_def waiting_ok_def)
  ultimately show ?thesis using assms emit_log_ok emit_conns_ok by (simp add: broker_inv_def)
qed

lemma requests_inv [wf_intros]: "broker_inv s \<Longrightarrow> broker_inv (s\<lparr>br_requests := rs\<rparr>)"
  by (simp add: broker_inv_defs)

lemma enqueue_inv [wf_intros]: "broker_inv s \<Longrightarrow> broker_inv (snd (enqueue req s))"
  by (auto simp: enqueue_def Let_def with_id_def intro!: wf_intros)

lemma decides_record [simp]:
  "decides ident (next_event ''decided'' (decision_record ident' v r) s) \<longleftrightarrow> ident = ident'"
  by (auto simp: decides_def decision_record_def)

lemma store_decide_inv [wf_intros]:
  assumes "broker_inv s"
  shows "broker_inv (store_decide ident v r s)"
proof (cases "br_decisions s ident")
  case (Some d)
  then show ?thesis using assms by (simp add: store_decide_def)
next
  case None
  let ?d = "decision_record ident v r"
  let ?s = "s\<lparr>br_decisions := (br_decisions s)(ident \<mapsto> ?d)\<rparr>"
  let ?e = "emit_event ''decided'' ?d ?s"
  have o: "?d = Obj [(''requestId'', Str ident), (''verdict'', v), (''reason'', r)]" by (simp add: decision_record_def)
  have "log_ok ?s" "conns_ok ?s" using assms by (simp_all add: broker_inv_defs)
  then have "log_ok ?e" "conns_ok ?e" unfolding o by (simp_all add: emit_log_ok emit_conns_ok)
  moreover have "decisions_ok ?e"
    using assms None by (auto simp: broker_inv_def decisions_ok_def split: option.splits)
  moreover have "waiting_ok ?e"
    using assms by (auto simp: broker_inv_def waiting_ok_def)
  ultimately show ?thesis by (simp add: store_decide_def None Let_def broker_inv_def)
qed

lemma json_reply_inv [wf_intros]: "broker_inv s \<Longrightarrow> c < br_conns s \<Longrightarrow> broker_inv (json_reply c n b s)"
  by (auto simp: broker_inv_defs json_reply_def)

lemma send_inv [wf_intros]: "broker_inv s \<Longrightarrow> c < br_conns s \<Longrightarrow> broker_inv (send c x s)"
  by (auto simp: broker_inv_defs)

lemma stop_inv [wf_intros]: "broker_inv s \<Longrightarrow> broker_inv (stop_listening l s)"
  by (auto simp: broker_inv_defs stop_listening_def intro: distinct_map_filter)

lemma down_inv [wf_intros]: "broker_inv s \<Longrightarrow> broker_inv (bring_down s)"
  by (simp add: broker_inv_defs bring_down_def)

text \<open>A connection that has just been opened: nothing is sent on it and nobody listens for it.\<close>

definition new_conn :: "broker \<Rightarrow> broker" where
  "new_conn s = s\<lparr>br_conns := Suc (br_conns s)\<rparr>"

lemma new_conn_inv [wf_intros]: "broker_inv s \<Longrightarrow> broker_inv (new_conn s)"
  by (auto simp: broker_inv_defs new_conn_def)

lemma new_conn_fields [simp]:
  "br_requests (new_conn s) = br_requests s" "br_decisions (new_conn s) = br_decisions s"
  "br_log (new_conn s) = br_log s" "br_seq (new_conn s) = br_seq s"
  "br_listeners (new_conn s) = br_listeners s" "br_conns (new_conn s) = Suc (br_conns s)"
  "br_sent (new_conn s) = br_sent s" "br_down (new_conn s) = br_down s"
  by (simp_all add: new_conn_def)

lemma new_conn_free: "broker_inv s \<Longrightarrow> br_conns s \<notin> conn_of ` set (br_listeners s)"
  by (auto simp: broker_inv_def conns_ok_def)

lemma wait_inv [wf_intros]:
  "broker_inv s \<Longrightarrow> c < br_conns s \<Longrightarrow> c \<notin> conn_of ` set (br_listeners s) \<Longrightarrow> broker_inv (waitForDecision c ident s)"
  by (cases "br_decisions s ident") (auto simp: waitForDecision_def json_reply_def broker_inv_defs)

lemma serve_events_inv [wf_intros]:
  assumes "broker_inv s" and "c < br_conns s" and "c \<notin> conn_of ` set (br_listeners s)"
  shows "broker_inv (serve_events c lastId s)"
  using assms by (auto simp: serve_events_def Let_def broker_inv_defs)

lemma serve_new_conn:
  "serve_broker parse req s =
     (case parse (hr_url req) of
        None \<Rightarrow> bring_down (new_conn s)
      | Some (path, param) \<Rightarrow>
          if hr_method req = ''POST'' \<and> path = ''/api/plugin/requests''
          then serve_request (br_conns s) (hr_body req) (new_conn s)
          else
            (case (if hr_method req = ''GET'' then path_ident ''/api/plugin/requests/'' path else None) of
               Some ident \<Rightarrow> waitForDecision (br_conns s) ident (new_conn s)
             | None \<Rightarrow>
                 (case (if hr_method req = ''POST'' then path_ident ''/api/approval-requests/'' path else None) of
                    Some ident \<Rightarrow> serve_decision (br_conns s) ident (hr_body req) (new_conn s)
                  | None \<Rightarrow>
                      if hr_method req = ''GET'' \<and> path = ''/api/events''
                      then serve_events (br_conns s) (last_event_id req param) (new_conn s)
                      else json_reply (br_conns s) 404 (Obj [(''error'', Str ''not found'')]) (new_conn s))))"
  unfolding serve_broker_def new_conn_def Let_def by (rule refl)

lemma serve_request_inv [wf_intros]: "broker_inv s \<Longrightarrow> c < br_conns s \<Longrightarrow> broker_inv (serve_request c raw s)"
  by (auto simp: serve_request_def enqueue_def Let_def with_id_def split: option.split intro!: wf_intros)

lemma store_decide_conns [simp]: "br_conns (store_decide ident v r s) = br_conns s"
  by (simp add: store_decide_def Let_def split: option.split)

lemma serve_decision_inv [wf_intros]: "broker_inv s \<Longrightarrow> c < br_conns s \<Longrightarrow> broker_inv (serve_decision c ident raw s)"
  by (auto simp: serve_decision_def split: option.split intro!: wf_intros)

lemma serve_inv [wf_intros]: "broker_inv s \<Longrightarrow> broker_inv (serve_broker parse req s)"
  using new_conn_free [of s] unfolding serve_new_conn
  by (auto split: option.split intro!: wf_intros)

lemma listener_conn: "broker_inv s \<Longrightarrow> l \<in> set (br_listeners s) \<Longrightarrow> conn_of l < br_conns s"
  by (simp add: broker_inv_def conns_ok_def)

lemma deadline_inv [wf_intros]: "broker_inv s \<Longrightarrow> broker_inv (deadline c ident s)"
  using listener_conn [of s "Waiting c ident"] by (auto simp: deadline_def intro!: wf_intros)

lemma heartbeat_inv [wf_intros]: "broker_inv s \<Longrightarrow> broker_inv (heartbeat c s)"
  using listener_conn [of s "Stream c"] by (auto simp: heartbeat_def intro!: wf_intros)

lemma broker_step_inv [wf_intros]: "broker_inv s \<Longrightarrow> broker_inv (broker_step parse s h)"
  by (cases h) (simp_all add: broker_step_def wf_intros)

interpretation broker: event_machine "broker_step parse" broker_inv
  by unfold_locales (rule broker_step_inv)

end
