(* ===== verification/BrokerStreams.thy ===== *)
theory BrokerStreams
  imports BrokerProto
begin

text \<open>
  What a client of the prototype broker sees, over any run of the server: an open event stream is
  followed event by event (\<open>stream_follows\<close>), a long poll until its one answer
  (\<open>poll_follows\<close>); both are invariants of the server's step. The properties put them together
  with the reading side of \<open>EventStream\<close>.
\<close>

section \<open>Following one connection\<close>

fun written_in :: "nat \<Rightarrow> (nat \<times> sent) list \<Rightarrow> written list" where
  "written_in c [] = []"
| "written_in c ((c', Chunk w) # xs) = (if c' = c then w # written_in c xs else written_in c xs)"
| "written_in c ((c', x) # xs) = written_in c xs"

fun replies_in :: "nat \<Rightarrow> (nat \<times> sent) list \<Rightarrow> (nat \<times> string) list" where
  "replies_in c [] = []"
| "replies_in c ((c', Reply n b) # xs) = (if c' = c then (n, b) # replies_in c xs else replies_in c xs)"
| "replies_in c ((c', x) # xs) = replies_in c xs"

lemma written_in_append [simp]: "written_in c (xs @ ys) = written_in c xs @ written_in c ys"
  by (induction c xs rule: written_in.induct) auto

lemma replies_in_append [simp]: "replies_in c (xs @ ys) = replies_in c xs @ replies_in c ys"
  by (induction c xs rule: replies_in.induct) auto

lemma written_in_none: "\<forall>p \<in> set xs. fst p \<noteq> c \<Longrightarrow> written_in c xs = []"
  by (induction c xs rule: written_in.induct) auto

lemma replies_in_none: "\<forall>p \<in> set xs. fst p \<noteq> c \<Longrightarrow> replies_in c xs = []"
  by (induction c xs rule: replies_in.induct) auto

lemma written_in_replay [simp]:
  "written_in c (map (\<lambda>e. (c', Chunk (Event e))) es) = (if c' = c then map Event es else [])"
  by (induction es) auto

lemma replies_in_replay [simp]: "replies_in c (map (\<lambda>e. (c', Chunk (Event e))) es) = []"
  by (induction es) auto

lemma hear_written:
  assumes "distinct (map conn_of ls)"
  shows "written_in c (concat (map (hear e) ls)) = (if Stream c \<in> set ls then [Event e] else [])"
  using assms
proof (induction ls)
  case Nil
  then show ?case by simp
next
  case (Cons l ls)
  have "conn_of l \<notin> conn_of ` set ls" using Cons.prems by simp
  then have "Stream c \<notin> set ls" if "conn_of l = c" using that by (metis conn_of.simps(1) image_eqI)
  then show ?case using Cons by (cases l) auto
qed

lemma hear_no_reply:
  "\<forall>ident. Waiting c ident \<in> set ls \<longrightarrow> \<not> decides ident e \<Longrightarrow> replies_in c (concat (map (hear e) ls)) = []"
proof (induction ls)
  case (Cons l ls)
  then show ?case by (cases l) auto
qed simp

lemma hear_reply:
  assumes "distinct (map conn_of ls)" and "Waiting c ident \<in> set ls" and "decides ident e"
  shows "replies_in c (concat (map (hear e) ls)) = [(200, json_text (ev_data e))]"
  using assms(1,2)
proof (induction ls)
  case (Cons l ls)
  show ?case
  proof (cases "l = Waiting c ident")
    case True
    then have "\<forall>i. Waiting c i \<notin> set ls" using Cons.prems(1) by (force simp: image_iff)
    then show ?thesis using True assms(3) by (simp add: hear_no_reply)
  next
    case False
    then have w: "Waiting c ident \<in> set ls" using Cons.prems by simp
    have "conn_of l \<notin> conn_of ` set ls" using Cons.prems by simp
    then have "conn_of l \<noteq> c" using w by (metis conn_of.simps(2) image_eqI)
    then show ?thesis using Cons w by (cases l) auto
  qed
qed simp

text \<open>An open stream has been sent \<open>base\<close> and then every event logged since the log was \<open>old\<close>.\<close>

definition stream_follows :: "nat \<Rightarrow> store_event list \<Rightarrow> store_event list \<Rightarrow> broker \<Rightarrow> bool" where
  "stream_follows c base old s \<longleftrightarrow>
     c < br_conns s \<and>
     (\<exists>new. br_log s = old @ new \<and>
        (Stream c \<in> set (br_listeners s) \<longrightarrow> events_in (written_in c (br_sent s)) = base @ new))"

text \<open>A long poll is either waiting without an answer, or has been answered once.\<close>

definition pending_text :: string where
  "pending_text = json_text (Obj [(''status'', Str ''pending'')])"

definition only_waits :: "nat \<Rightarrow> string \<Rightarrow> listener list \<Rightarrow> bool" where
  "only_waits c ident ls \<longleftrightarrow> (\<forall>l \<in> set ls. conn_of l = c \<longrightarrow> l = Waiting c ident)"

lemma only_waits_intros [intro]:
  "only_waits c ident ls \<Longrightarrow> only_waits c ident (filter P ls)"
  "only_waits c ident ls \<Longrightarrow> conn_of l \<noteq> c \<Longrightarrow> only_waits c ident (ls @ [l])"
  by (auto simp: only_waits_def)

lemma only_waitsD: "only_waits c ident ls \<Longrightarrow> Waiting c i \<in> set ls \<Longrightarrow> i = ident"
  by (fastforce simp: only_waits_def)

definition poll_follows :: "nat \<Rightarrow> string \<Rightarrow> broker \<Rightarrow> bool" where
  "poll_follows c ident s \<longleftrightarrow>
     c < br_conns s \<and> only_waits c ident (br_listeners s) \<and>
     (if Waiting c ident \<in> set (br_listeners s) then replies_in c (br_sent s) = []
      else replies_in c (br_sent s) = [(202, pending_text)] \<or>
           (\<exists>d. br_decisions s ident = Some d \<and> replies_in c (br_sent s) = [(200, json_text d)]))"

lemma emit_stream_follows:
  assumes "conns_ok s" and "stream_follows c base old s"
  shows "stream_follows c base old (emit_event ty data s)"
proof -
  let ?e = "next_event ty data s"
  have d: "distinct (map conn_of (br_listeners s))" using assms(1) by (simp add: conns_ok_def)
  obtain new where "br_log s = old @ new"
    "Stream c \<in> set (br_listeners s) \<longrightarrow> events_in (written_in c (br_sent s)) = base @ new"
    using assms(2) by (auto simp: stream_follows_def)
  then have "br_log (emit_event ty data s) = old @ new @ [?e] \<and>
      (Stream c \<in> set (br_listeners (emit_event ty data s)) \<longrightarrow>
         events_in (written_in c (br_sent (emit_event ty data s))) = base @ new @ [?e])"
    by (simp add: hear_written [OF d])
  then show ?thesis using assms(2) unfolding stream_follows_def by (auto intro: exI [of _ "new @ [?e]"])
qed

lemma added_poll_follows:
  assumes "poll_follows c ident s"
  shows "poll_follows c ident (emit_event ''added'' data s)"
proof -
  have n: "\<not> decides i (next_event ''added'' data s)" for i by (simp add: decides_def)
  have "released (next_event ''added'' data s) l = False" for l by (cases l) (simp_all add: n)
  then have l: "br_listeners (emit_event ''added'' data s) = br_listeners s" by simp
  have "replies_in c (concat (map (hear (next_event ''added'' data s)) (br_listeners s))) = []"
    by (rule hear_no_reply) (simp add: n)
  then have "replies_in c (br_sent (emit_event ''added'' data s)) = replies_in c (br_sent s)" by simp
  then show ?thesis using assms unfolding poll_follows_def l by simp
qed

lemma store_decide_stream:
  assumes "broker_inv s" and "stream_follows c base old s"
  shows "stream_follows c base old (store_decide ident v r s)"
proof (cases "br_decisions s ident")
  case None
  let ?s = "s\<lparr>br_decisions := (br_decisions s)(ident \<mapsto> decision_record ident v r)\<rparr>"
  have "conns_ok ?s" "stream_follows c base old ?s"
    using assms by (simp_all add: broker_inv_def conns_ok_def stream_follows_def)
  then show ?thesis using None by (simp add: store_decide_def Let_def emit_stream_follows)
next
  case (Some d)
  then show ?thesis using assms(2) by (simp add: store_decide_def)
qed

lemma store_decide_poll:
  assumes "broker_inv s" and "poll_follows c ident s"
  shows "poll_follows c ident (store_decide ident' v r s)"
proof (cases "br_decisions s ident'")
  case (Some d)
  then show ?thesis using assms(2) by (simp add: store_decide_def)
next
  case None
  let ?d = "decision_record ident' v r"
  let ?e = "next_event ''decided'' ?d s"
  let ?heard = "replies_in c (concat (map (hear ?e) (br_listeners s)))"
  let ?s' = "store_decide ident' v r s"
  have fields: "br_decisions ?s' = (br_decisions s)(ident' \<mapsto> ?d)"
    "br_listeners ?s' = filter (\<lambda>l. \<not> released ?e l) (br_listeners s)"
    "replies_in c (br_sent ?s') = replies_in c (br_sent s) @ ?heard" "br_conns ?s' = br_conns s"
    using None by (simp_all add: store_decide_def Let_def)
  have d: "distinct (map conn_of (br_listeners s))" using assms(1) by (simp add: broker_inv_def conns_ok_def)
  have only: "only_waits c ident (br_listeners s)" using assms(2) by (simp add: poll_follows_def)
  show ?thesis
  proof (cases "Waiting c ident \<in> set (br_listeners s) \<and> ident = ident'")
    case True
    then have "Waiting c ident \<in> set (br_listeners s)" "decides ident ?e" by auto
    then have "?heard = [(200, json_text (ev_data ?e))]" by (rule hear_reply [OF d])
    then show ?thesis using assms(2) True unfolding poll_follows_def fields by auto
  next
    case False
    then have "?heard = []" by (intro hear_no_reply) (auto dest: only_waitsD [OF only])
    then show ?thesis using assms(2) False None unfolding poll_follows_def fields by auto
  qed
qed

named_theorems follow_intros \<open>what keeps following a connection\<close>

lemma stream_follows_ops [follow_intros]:
  "stream_follows c base old s \<Longrightarrow> stream_follows c base old (new_conn s)"
  "stream_follows c base old s \<Longrightarrow> stream_follows c base old (bring_down s)"
  "stream_follows c base old s \<Longrightarrow> stream_follows c base old (json_reply c' n b s)"
  "stream_follows c base old s \<Longrightarrow> stream_follows c base old (stop_listening l s)"
  "stream_follows c base old s \<Longrightarrow> stream_follows c base old (waitForDecision c' ident s)"
  "stream_follows c base old s \<Longrightarrow> stream_follows c base old (heartbeat c' s)"
  "stream_follows c base old s \<Longrightarrow> stream_follows c base old (deadline c' ident s)"
  "stream_follows c base old s \<Longrightarrow> c' \<noteq> c \<Longrightarrow> stream_follows c base old (serve_events c' x s)"
  by (auto simp: stream_follows_def waitForDecision_def heartbeat_def deadline_def serve_events_def Let_def
      split: option.split)

lemma poll_follows_ops [follow_intros]:
  "poll_follows c ident s \<Longrightarrow> poll_follows c ident (new_conn s)"
  "poll_follows c ident s \<Longrightarrow> poll_follows c ident (bring_down s)"
  "poll_follows c ident s \<Longrightarrow> c' \<noteq> c \<Longrightarrow> poll_follows c ident (json_reply c' n b s)"
  "poll_follows c ident s \<Longrightarrow> poll_follows c ident (stop_listening (Stream c') s)"
  "poll_follows c ident s \<Longrightarrow> c' \<noteq> c \<Longrightarrow> poll_follows c ident (waitForDecision c' i s)"
  "poll_follows c ident s \<Longrightarrow> poll_follows c ident (heartbeat c' s)"
  "poll_follows c ident s \<Longrightarrow> c' \<noteq> c \<Longrightarrow> poll_follows c ident (serve_events c' x s)"
  by (auto simp: poll_follows_def waitForDecision_def heartbeat_def serve_events_def Let_def
      split: option.split)

lemma poll_follows_deadline [follow_intros]:
  assumes "poll_follows c ident s"
  shows "poll_follows c ident (deadline c' i s)"
proof (cases "Waiting c' i \<in> set (br_listeners s) \<and> c' = c")
  case True
  then have "i = ident" using assms by (auto simp: poll_follows_def dest: only_waitsD)
  then show ?thesis using assms True by (auto simp: poll_follows_def deadline_def pending_text_def)
next
  case False
  then show ?thesis using assms by (auto simp: poll_follows_def deadline_def)
qed

lemma stream_follows_update [simp]:
  "stream_follows c base old (s\<lparr>br_requests := rs\<rparr>) = stream_follows c base old s"
  by (simp add: stream_follows_def)

lemma poll_follows_update [simp]: "poll_follows c ident (s\<lparr>br_requests := rs\<rparr>) = poll_follows c ident s"
  by (simp add: poll_follows_def)

lemma enqueue_follows:
  assumes "broker_inv s"
  shows "stream_follows c base old s \<Longrightarrow> stream_follows c base old (snd (enqueue req s))"
    and "poll_follows c ident s \<Longrightarrow> poll_follows c ident (snd (enqueue req s))"
proof -
  have "conns_ok (s\<lparr>br_requests := rs\<rparr>)" for rs using requests_inv [OF assms, of rs] by (simp add: broker_inv_def)
  then show "stream_follows c base old s \<Longrightarrow> stream_follows c base old (snd (enqueue req s))"
    by (simp add: enqueue_def Let_def emit_stream_follows)
  show "poll_follows c ident s \<Longrightarrow> poll_follows c ident (snd (enqueue req s))"
    by (simp add: enqueue_def Let_def added_poll_follows)
qed

lemma serve_request_follows [follow_intros]:
  assumes "broker_inv s" and "c' \<noteq> c"
  shows "stream_follows c base old s \<Longrightarrow> stream_follows c base old (serve_request c' raw s)"
    and "poll_follows c ident s \<Longrightarrow> poll_follows c ident (serve_request c' raw s)"
  using enqueue_follows [OF assms(1)] assms(2)
  by (auto simp: serve_request_def split_beta split: option.split intro: follow_intros)

lemma serve_decision_follows [follow_intros]:
  assumes "broker_inv s" and "c' \<noteq> c"
  shows "stream_follows c base old s \<Longrightarrow> stream_follows c base old (serve_decision c' i raw s)"
    and "poll_follows c ident s \<Longrightarrow> poll_follows c ident (serve_decision c' i raw s)"
  using store_decide_stream [OF assms(1)] store_decide_poll [OF assms(1)] assms(2)
  by (auto simp: serve_decision_def split: option.split intro: follow_intros)

lemma serve_follows [follow_intros]:
  assumes "broker_inv s"
  shows "stream_follows c base old s \<Longrightarrow> stream_follows c base old (serve_broker parse req s)"
    and "poll_follows c ident s \<Longrightarrow> poll_follows c ident (serve_broker parse req s)"
proof -
  have n: "broker_inv (new_conn s)" by (rule new_conn_inv [OF assms])
  show "stream_follows c base old s \<Longrightarrow> stream_follows c base old (serve_broker parse req s)"
  proof -
    assume f: "stream_follows c base old s"
    then have c: "br_conns s \<noteq> c" by (simp add: stream_follows_def)
    show ?thesis unfolding serve_new_conn using f c n by (auto split: option.split intro!: follow_intros)
  qed
  show "poll_follows c ident s \<Longrightarrow> poll_follows c ident (serve_broker parse req s)"
  proof -
    assume f: "poll_follows c ident s"
    then have c: "br_conns s \<noteq> c" by (simp add: poll_follows_def)
    show ?thesis unfolding serve_new_conn using f c n by (auto split: option.split intro!: follow_intros)
  qed
qed

lemma step_stream_follows: "broker_inv s \<Longrightarrow> stream_follows c base old s \<Longrightarrow> stream_follows c base old (broker_step parse s h)"
  by (cases h) (simp_all add: broker_step_def follow_intros)

lemma step_poll_follows: "broker_inv s \<Longrightarrow> poll_follows c ident s \<Longrightarrow> poll_follows c ident (broker_step parse s h)"
  by (cases h) (simp_all add: broker_step_def follow_intros)

interpretation stream: event_machine "broker_step parse" "\<lambda>s. broker_inv s \<and> stream_follows c base old s"
  by unfold_locales (simp add: broker_step_inv step_stream_follows)

interpretation poll: event_machine "broker_step parse" "\<lambda>s. broker_inv s \<and> poll_follows c ident s"
  by unfold_locales (simp add: broker_step_inv step_poll_follows)

section \<open>Resuming after an event\<close>

lemma seq_after_digits: "seq_after m (string_to_number (digits n)) \<longleftrightarrow> n < m"
proof (cases "n = 0")
  case True
  have "string_to_number (digits 0) = Dec False 0 1" by code_simp
  then show ?thesis using True by simp
next
  case False
  then obtain core b where c: "string_to_number (digits n) = Dec False core (int (length (digits n)))"
    "length (digits n) = length (digits core) + b" "core * 10 ^ b = n" "0 < core"
    using whole_number [of n] by (metis gr0I)
  then show ?thesis by simp
qed

section \<open>Opening a connection\<close>

abbreviation run_broker :: "url_parser \<Rightarrow> broker \<Rightarrow> happening list \<Rightarrow> broker" where
  "run_broker parse \<equiv> foldl (broker_step parse)"

lemma run_broker_inv: "broker_inv (run_broker parse createStore hs)"
  by (rule broker.run_inv [OF createStore_inv])

lemma events_step:
  assumes "\<not> br_down s" and "hr_method req = ''GET''" and "parse (hr_url req) = Some (''/api/events'', param)"
  shows "broker_step parse s (Request req) = serve_events (br_conns s) (last_event_id req param) (new_conn s)"
  using assms by (simp add: broker_step_def serve_new_conn path_ident_def)

lemma no_sent_new: "broker_inv s \<Longrightarrow> \<forall>p \<in> set (br_sent s). fst p \<noteq> br_conns s"
  by (auto simp: broker_inv_def conns_ok_def)

lemma opened_stream_follows:
  assumes "broker_inv s"
  shows "stream_follows (br_conns s) (eventsSince x s) (br_log s) (serve_events (br_conns s) x (new_conn s))"
proof -
  have "written_in (br_conns s) (br_sent s) = []" by (rule written_in_none [OF no_sent_new [OF assms]])
  then show ?thesis
    by (simp add: stream_follows_def serve_events_def Let_def eventsSince_def)
qed

lemma opened_poll_follows:
  assumes "broker_inv s"
  shows "poll_follows (br_conns s) ident (waitForDecision (br_conns s) ident (new_conn s))"
proof -
  have r: "replies_in (br_conns s) (br_sent s) = []" by (rule replies_in_none [OF no_sent_new [OF assms]])
  have "conn_of l \<noteq> br_conns s" if "l \<in> set (br_listeners s)" for l
    using new_conn_free [OF assms] that by force
  then have "only_waits (br_conns s) ident (br_listeners s)" "Waiting (br_conns s) ident \<notin> set (br_listeners s)"
    by (auto simp: only_waits_def) (metis conn_of.simps(2))
  then show ?thesis using r
    by (cases "br_decisions s ident") (auto simp: poll_follows_def waitForDecision_def only_waits_def)
qed

lemma log_after:
  assumes "log_ok s" and "n \<le> br_seq s'" and "log_ok s'" and "br_log s = br_log s' @ new"
  shows "filter (\<lambda>e. n < ev_seq e) (br_log s) = filter (\<lambda>e. n < ev_seq e) (br_log s') @ new"
proof -
  have "length (br_log s') = br_seq s'"
    using assms(3) by (metis diff_Suc_1 length_map length_upt log_ok_def)
  then have "map ev_seq new = drop (br_seq s') [1..<Suc (br_seq s)]"
    using assms(1,4) unfolding log_ok_def by (metis append_eq_conv_conj drop_map length_map map_append)
  then have u: "map ev_seq new = [1 + br_seq s'..<Suc (br_seq s)]" by (simp add: drop_upt)
  have "n < ev_seq e" if "e \<in> set new" for e
  proof -
    have "ev_seq e \<in> set (map ev_seq new)" using that by simp
    then show ?thesis unfolding u using assms(2) by auto
  qed
  then show ?thesis by (simp add: assms(4))
qed

lemma filter_above: "filter ((<) n) [1..<Suc m] = [Suc n..<Suc m]"
  by (induction m) auto

lemma decisions_persist:
  "br_decisions s ident = Some d \<Longrightarrow> br_decisions (run_broker parse s hs) ident = Some d"
proof (induction hs arbitrary: s)
  case (Cons h hs)
  have "br_decisions (store_decide i v r u) ident = Some d" if "br_decisions u ident = Some d" for i v r u
    using that by (auto simp: store_decide_def Let_def split: option.split)
  then have "br_decisions (broker_step parse s h) ident = Some d" using Cons.prems
    by (auto simp: broker_step_def serve_new_conn serve_request_def enqueue_def serve_decision_def waitForDecision_def
        serve_events_def deadline_def heartbeat_def Let_def split: happening.split option.split)
  then show ?case using Cons.IH by simp
qed simp

section \<open>Properties\<close>

text \<open>
  C29. Nothing is missed and nothing repeated: a client that connects to the event stream with the
  number of the last event it has seen, at any point of any run of the server, has read after any
  further run (while its connection is open) exactly the later events of the log, in order and
  without a gap, however the bytes of the stream were cut into chunks and whatever else happened.
\<close>

theorem broker_stream_exact:
  assumes "s = run_broker parse createStore hs" and "\<not> br_down s"
    and "hr_method req = ''GET''" and "parse (hr_url req) = Some (''/api/events'', param)"
    and "hr_lastEventId req = Some (digits n)" and "n \<le> br_seq s"
    and "s' = run_broker parse s (Request req # hs')" and "Stream (br_conns s) \<in> set (br_listeners s')"
    and "concat chunks = concat (map wire (written_in (br_conns s) (br_sent s')))"
  shows "\<exists>cl. feed chunks openSse = Some cl \<and>
           sc_events cl = map client_view (filter (\<lambda>e. n < ev_seq e) (br_log s')) \<and>
           map ev_seq (filter (\<lambda>e. n < ev_seq e) (br_log s')) = [Suc n..<Suc (br_seq s')]"
proof -
  let ?c = "br_conns s" and ?x = "last_event_id req param"
  have i: "broker_inv s" unfolding assms(1) by (rule run_broker_inv)
  have x: "eventsSince ?x s = filter (\<lambda>e. n < ev_seq e) (br_log s)"
    by (simp add: eventsSince_def last_event_id_def assms(5) seq_after_digits)
  have s': "s' = run_broker parse (serve_events ?c ?x (new_conn s)) hs'"
    using events_step [where parse = parse, OF assms(2-4)] by (simp add: assms(7))
  have "broker_inv (serve_events ?c ?x (new_conn s))"
    using new_conn_free [OF i] by (intro serve_events_inv new_conn_inv [OF i]) simp_all
  then have f: "broker_inv s'" "stream_follows ?c (eventsSince ?x s) (br_log s) s'"
    unfolding s' using stream.run_inv opened_stream_follows [OF i] by blast+
  then obtain new where l: "br_log s' = br_log s @ new"
    and w: "events_in (written_in ?c (br_sent s')) = eventsSince ?x s @ new"
    using assms(8) by (auto simp: stream_follows_def)
  have ok: "log_ok s'" "log_ok s" using f(1) i by (simp_all add: broker_inv_def)
  have e: "events_in (written_in ?c (br_sent s')) = filter (\<lambda>e. n < ev_seq e) (br_log s')"
    using log_after [OF ok(1) assms(6) ok(2) l] w x by simp
  then have "\<forall>e \<in> set (events_in (written_in ?c (br_sent s'))). writable e" using ok(1) by (simp add: log_ok_def)
  then obtain cl where cl: "feed chunks openSse = Some cl"
    "sc_events cl = map client_view (filter (\<lambda>e. n < ev_seq e) (br_log s'))"
    using client_reads [OF _ assms(9)] e by auto
  have "map ev_seq (filter (\<lambda>e. n < ev_seq e) (br_log s')) = filter ((<) n) (map ev_seq (br_log s'))"
    by (simp add: filter_map comp_def)
  also have "\<dots> = filter ((<) n) [1..<Suc (br_seq s')]" using ok(1) by (simp only: log_ok_def)
  also have "\<dots> = [Suc n..<Suc (br_seq s')]" by (rule filter_above)
  finally show ?thesis using cl by blast
qed

definition plain_urls :: url_parser where
  "plain_urls u = Some (u, None)"

definition http :: "string \<Rightarrow> string \<Rightarrow> string \<Rightarrow> happening" where
  "http verb url body = Request \<lparr>hr_method = verb, hr_url = url, hr_lastEventId = None, hr_body = body\<rparr>"

definition allow_body :: string where
  "allow_body = json_text (Obj [(''verdict'', Str ''allow'')])"

definition resume_request :: broker_request where
  "resume_request = \<lparr>hr_method = ''GET'', hr_url = ''/api/events'', hr_lastEventId = Some (digits 1), hr_body = []\<rparr>"

definition resumed_run :: broker where
  "resumed_run = run_broker plain_urls createStore
     [http ''POST'' ''/api/plugin/requests'' [], Request resume_request,
      http ''POST'' ''/api/approval-requests/req-1/decision'' allow_body]"

theorem broker_stream_exact_witness:
  "\<exists>cl. feed (map wire (written_in 1 (br_sent resumed_run))) openSse = Some cl \<and>
        map ce_type (sc_events cl) = [Str ''decided'']"
proof -
  let ?s = "run_broker plain_urls createStore [http ''POST'' ''/api/plugin/requests'' []]"
  let ?hs = "[http ''POST'' ''/api/approval-requests/req-1/decision'' allow_body]"
  let ?s' = "run_broker plain_urls ?s (Request resume_request # ?hs)"
  have d: "\<not> br_down ?s" by code_simp
  have v: "hr_method resume_request = ''GET''" "hr_lastEventId resume_request = Some (digits 1)"
    by (simp_all add: resume_request_def)
  have u: "plain_urls (hr_url resume_request) = Some (''/api/events'', None)"
    by (simp add: plain_urls_def resume_request_def)
  have conn: "br_conns ?s = 1" by code_simp
  have n: "1 \<le> br_seq ?s" by code_simp
  have o: "Stream (br_conns ?s) \<in> set (br_listeners ?s')" by code_simp
  have l: "map ev_type (filter (\<lambda>e. 1 < ev_seq e) (br_log ?s')) = [''decided'']" by code_simp
  let ?W = "written_in (br_conns ?s) (br_sent ?s')"
  have c: "concat (map wire ?W) = concat (map wire ?W)" by (rule refl)
  define E where "E = filter (\<lambda>e. 1 < ev_seq e) (br_log ?s')"
  have "\<exists>cl. feed (map wire ?W) openSse = Some cl \<and> sc_events cl = map client_view E \<and>
      map ev_seq E = [Suc 1..<Suc (br_seq ?s')]"
    unfolding E_def by (rule broker_stream_exact [OF refl d v(1) u v(2) n refl o c])
  then obtain cl :: sse_client where f: "feed (map wire ?W) openSse = Some cl" and "sc_events cl = map client_view E"
    by blast
  then have "map ce_type (sc_events cl) = map Str (map ev_type E)" by (simp add: client_view_def)
  then have "map ce_type (sc_events cl) = [Str ''decided'']" unfolding E_def l by simp
  moreover have "?W = written_in 1 (br_sent resumed_run)" unfolding conn by (simp add: resumed_run_def)
  ultimately show ?thesis using f by auto
qed

text \<open>
  C30. First write wins, everywhere: from the moment a request is decided its decision never
  changes, the log holds exactly one decided event for it, and a long poll for it that is opened
  at any point of any run is answered at most once: with that decision, or with pending at its
  deadline; as long as it has no answer the request is undecided.
\<close>

theorem first_decision_wins:
  assumes "s = run_broker parse createStore hs" and "\<not> br_down s"
    and "hr_method req = ''GET''" and "parse (hr_url req) = Some (path, param)"
    and "path_ident ''/api/plugin/requests/'' path = Some ident"
    and "s' = run_broker parse s (Request req # hs')"
  shows "(\<forall>d. br_decisions s ident = Some d \<longrightarrow> br_decisions s' ident = Some d) \<and>
         map ev_data (filter (decides ident) (br_log s')) =
           (case br_decisions s' ident of None \<Rightarrow> [] | Some d \<Rightarrow> [d]) \<and>
         (replies_in (br_conns s) (br_sent s') = [] \<and> br_decisions s' ident = None \<or>
          replies_in (br_conns s) (br_sent s') = [(202, pending_text)] \<or>
          (\<exists>d. br_decisions s' ident = Some d \<and>
               replies_in (br_conns s) (br_sent s') = [(200, json_text d)]))"
proof -
  let ?c = "br_conns s"
  have i: "broker_inv s" unfolding assms(1) by (rule run_broker_inv)
  have "broker_step parse s (Request req) = waitForDecision ?c ident (new_conn s)"
    using assms(2-5) by (simp add: broker_step_def serve_new_conn)
  then have s': "s' = run_broker parse (waitForDecision ?c ident (new_conn s)) hs'" by (simp add: assms(6))
  have "broker_inv (waitForDecision ?c ident (new_conn s))"
    using new_conn_free [OF i] by (intro wait_inv new_conn_inv [OF i]) simp_all
  then have f: "broker_inv s'" "poll_follows ?c ident s'"
    unfolding s' using poll.run_inv opened_poll_follows [OF i] by blast+
  have "\<forall>d. br_decisions s ident = Some d \<longrightarrow> br_decisions s' ident = Some d"
    unfolding assms(6) by (blast intro: decisions_persist)
  moreover have "map ev_data (filter (decides ident) (br_log s')) =
      (case br_decisions s' ident of None \<Rightarrow> [] | Some d \<Rightarrow> [d])"
    using f(1) by (simp add: broker_inv_def decisions_ok_def)
  moreover have "replies_in ?c (br_sent s') = [] \<and> br_decisions s' ident = None \<or>
      replies_in ?c (br_sent s') = [(202, pending_text)] \<or>
      (\<exists>d. br_decisions s' ident = Some d \<and> replies_in ?c (br_sent s') = [(200, json_text d)])"
    using f by (auto simp: poll_follows_def broker_inv_def waiting_ok_def split: if_splits)
  ultimately show ?thesis by blast
qed

theorem first_decision_wins_witness:
  "\<exists>d. replies_in 1 (br_sent (run_broker plain_urls createStore
           [http ''POST'' ''/api/plugin/requests'' [], http ''GET'' ''/api/plugin/requests/req-1/decision'' [],
            http ''POST'' ''/api/approval-requests/req-1/decision'' allow_body])) = [(200, json_text d)]"
proof -
  let ?s = "run_broker plain_urls createStore [http ''POST'' ''/api/plugin/requests'' []]"
  let ?req = "\<lparr>hr_method = ''GET'', hr_url = ''/api/plugin/requests/req-1/decision'', hr_lastEventId = None, hr_body = []\<rparr>"
  let ?hs = "[http ''POST'' ''/api/approval-requests/req-1/decision'' allow_body]"
  let ?s' = "run_broker plain_urls ?s (Request ?req # ?hs)"
  have d: "\<not> br_down ?s" by code_simp
  have g: "hr_method ?req = ''GET''" by simp
  have u: "plain_urls (hr_url ?req) = Some (''/api/plugin/requests/req-1/decision'', None)" by (simp add: plain_urls_def)
  have i: "path_ident ''/api/plugin/requests/'' ''/api/plugin/requests/req-1/decision'' = Some ''req-1''" by code_simp
  have c: "br_conns ?s = 1" by code_simp
  have n: "\<not> (br_decisions ?s' ''req-1'' = None)" "map fst (replies_in 1 (br_sent ?s')) = [200]" by code_simp+
  then have "replies_in 1 (br_sent ?s') \<noteq> [(202, pending_text)]" by auto
  then show ?thesis using first_decision_wins [OF refl d g u i refl, of ?hs] n(1) unfolding c
    by (auto simp: http_def)
qed

text \<open>
  A decision can be planted before its request exists: the server accepts a decision for a
  request it has never seen, and the numbers it gives out are predictable. Whoever posts an allow
  for \<open>req-(k+2)\<close> while the log has k events makes the next request without a name of its own
  come into being decided: the plugin's poll for it is answered allow at once, and the operator's
  own decision later changes nothing.
\<close>

lemma planted_decision:
  assumes "s = run_broker parse createStore hs" and "\<not> br_down s"
    and "planted = ''req-'' @ digits (br_seq s + 2)" and "br_decisions s planted = None"
    and "parse u1 = Some (''/api/approval-requests/'' @ planted @ ''/decision'', q1)"
    and "parse u2 = Some (''/api/plugin/requests'', q2)"
    and "parse u3 = Some (''/api/plugin/requests/'' @ planted @ ''/decision'', q3)"
    and "s' = run_broker parse s [http ''POST'' u1 allow_body, http ''POST'' u2 [], http ''GET'' u3 []]"
  shows "replies_in (br_conns s + 1) (br_sent s') = [(200, json_text (Obj [(''id'', Str planted)]))] \<and>
         replies_in (br_conns s + 2) (br_sent s') =
           [(200, json_text (decision_record planted (Str ''allow'') (Str [])))] \<and>
         br_decisions (run_broker parse s' hs') planted =
           Some (decision_record planted (Str ''allow'') (Str []))"
proof -
  have slash: "CHR ''/'' \<notin> set planted"
    using digits_are_digits [of "br_seq s + 2"] by (auto simp: assms(3) list_all_iff is_digit_def)
  have pi: "path_ident pre (pre @ planted @ ''/decision'') = Some planted" for pre
  proof -
    have "starts_with pre (pre @ planted @ ''/decision'')" by (simp add: starts_with_iff)
    moreover have "takeWhile (\<lambda>c. c \<noteq> CHR ''/'') (planted @ ''/decision'') = planted"
      using slash by (simp add: takeWhile_append2 takeWhile_append)
    moreover have "planted \<noteq> []" by (simp add: assms(3))
    ultimately show ?thesis by (simp add: path_ident_def Let_def)
  qed
  define p1 where "p1 = ''/api/approval-requests/'' @ planted @ ''/decision''"
  define p3 where "p3 = ''/api/plugin/requests/'' @ planted @ ''/decision''"
  have p1: "p1 \<noteq> ''/api/plugin/requests''" "path_ident ''/api/approval-requests/'' p1 = Some planted" "parse u1 = Some (p1, q1)"
    using pi assms(5) by (simp add: p1_def, simp only: p1_def, simp add: p1_def)
  have p3: "path_ident ''/api/plugin/requests/'' p3 = Some planted" "parse u3 = Some (p3, q3)"
    using pi assms(7) by (simp only: p3_def, simp add: p3_def)
  have body: "readJson allow_body = Some (Obj [(''verdict'', Str ''allow'')])" by code_simp
  let ?c = "br_conns s" and ?d = "decision_record planted (Str ''allow'') (Str [])"
  let ?s0 = "new_conn s"
  define s1 where "s1 = json_reply ?c 200 (Obj [(''ok'', Bool True)]) (store_decide planted (Str ''allow'') (Str []) ?s0)"
  have up: "\<not> br_down s1" "br_conns s1 = ?c + 1" "br_seq s1 = br_seq s + 1" "br_decisions s1 planted = Some ?d"
    using assms(2,4) by (simp_all add: s1_def store_decide_def Let_def)
  have i: "broker_inv s" unfolding assms(1) by (rule run_broker_inv)
  have i1: "broker_inv s1" unfolding s1_def by (intro wf_intros i) simp
  have step1: "broker_step parse s (http ''POST'' u1 allow_body) = s1"
    using assms(2) by (simp add: broker_step_def serve_new_conn http_def p1 serve_decision_def body s1_def nullish_def)
  define s2 where "s2 = serve_request (?c + 1) [] (new_conn s1)"
  have step2: "broker_step parse s1 (http ''POST'' u2 []) = s2"
    using up by (simp add: broker_step_def serve_new_conn http_def assms(6) s2_def)
  have ident: "request_ident (Obj []) (new_conn s1) = Str planted"
    using up(3) by (simp add: request_ident_def assms(3))
  let ?rec = "with_id (Obj []) (Str planted)"
  have rec: "member ?rec ''id'' = Str planted" by (simp add: with_id_def)
  have s2: "s2 = json_reply (?c + 1) 200 (Obj [(''id'', Str planted)])
      (emit_event ''added'' ?rec ((new_conn s1)\<lparr>br_requests := map_set (Str planted) ?rec (br_requests s1)\<rparr>))"
    by (simp only: s2_def serve_request_def readJson_def if_True option.case enqueue_def ident Let_def prod.case rec
        nullish_def js.distinct simp_thms if_False new_conn_fields)
  have i2: "broker_inv s2" unfolding s2_def using up(2) by (intro wf_intros i1) simp
  have up2: "\<not> br_down s2" "br_conns s2 = ?c + 2" "br_decisions s2 planted = Some ?d" using up by (simp_all add: s2)
  have "broker_step parse s2 (http ''GET'' u3 []) = json_reply (?c + 2) 200 ?d (new_conn s2)"
    using up2 by (simp add: broker_step_def serve_new_conn http_def p3 waitForDecision_def)
  then have s3: "s' = json_reply (?c + 2) 200 ?d (new_conn s2)"
    by (simp add: assms(8) step1 step2)
  have none: "replies_in (?c + 1) (br_sent s1) = []" "replies_in (?c + 2) (br_sent s2) = []"
    using replies_in_none [OF no_sent_new [OF i1]] replies_in_none [OF no_sent_new [OF i2]] up(2) up2(2) by simp_all
  have "replies_in (?c + 1) (concat (map (hear (next_event ''added'' ?rec (new_conn s1))) (br_listeners s1))) = []"
    by (rule hear_no_reply) (simp add: decides_def)
  then have "replies_in (?c + 1) (br_sent s') = [(200, json_text (Obj [(''id'', Str planted)]))]"
    using none(1) by (simp add: s3 s2)
  moreover have "replies_in (?c + 2) (br_sent s') = [(200, json_text ?d)]" using none(2) by (simp add: s3)
  moreover have "br_decisions s' planted = Some ?d" using up2(3) by (simp add: s3)
  ultimately show ?thesis using decisions_persist by blast
qed

lemma planted_decision_instance:
  "replies_in 2 (br_sent (run_broker plain_urls createStore
       [http ''POST'' ''/api/approval-requests/req-2/decision'' allow_body, http ''POST'' ''/api/plugin/requests'' [],
        http ''GET'' ''/api/plugin/requests/req-2/decision'' []])) =
     [(200, json_text (decision_record ''req-2'' (Str ''allow'') (Str [])))]"
proof -
  have s: "createStore = run_broker plain_urls createStore []" by simp
  have n: "\<not> br_down createStore" "''req-2'' = ''req-'' @ digits (br_seq createStore + 2)"
    "br_decisions createStore ''req-2'' = None" by code_simp+
  have u: "plain_urls ''/api/approval-requests/req-2/decision'' = Some (''/api/approval-requests/'' @ ''req-2'' @ ''/decision'', None)"
    "plain_urls ''/api/plugin/requests'' = Some (''/api/plugin/requests'', None)"
    "plain_urls ''/api/plugin/requests/req-2/decision'' = Some (''/api/plugin/requests/'' @ ''req-2'' @ ''/decision'', None)"
    by (simp_all add: plain_urls_def)
  have c: "br_conns createStore + 2 = 2" by (simp add: createStore_def)
  show ?thesis using planted_decision [OF s n u refl] unfolding c by blast
qed

definition reads_body :: "broker_request \<Rightarrow> string \<Rightarrow> bool" where
  "reads_body req path \<longleftrightarrow>
     hr_method req = ''POST'' \<and>
     (path = ''/api/plugin/requests'' \<or> path_ident ''/api/approval-requests/'' path \<noteq> None)"

definition bad_body :: "string \<Rightarrow> bool" where
  "bad_body raw \<longleftrightarrow> (case readJson raw of None \<Rightarrow> True | Some body \<Rightarrow> nullish body)"

lemma store_decide_down [simp]: "br_down (store_decide ident v r s) = br_down s"
  by (simp add: store_decide_def Let_def split: option.split)

lemma enqueue_down [simp]: "br_down (snd (enqueue req s)) = br_down s"
  by (simp add: enqueue_def Let_def)

lemma body_handlers_down:
  "br_down (serve_request c raw s) \<longleftrightarrow> br_down s \<or> bad_body raw"
  "br_down (serve_decision c ident raw s) \<longleftrightarrow> br_down s \<or> bad_body raw"
  by (auto simp: serve_request_def serve_decision_def bad_body_def split_beta split: option.split)

lemma plain_handlers_down [simp]:
  "br_down (waitForDecision c ident s) = br_down s" "br_down (serve_events c x s) = br_down s"
  "br_down (deadline c ident s) = br_down s" "br_down (heartbeat c s) = br_down s"
  by (simp_all add: waitForDecision_def serve_events_def deadline_def heartbeat_def Let_def split: option.split)

text \<open>
  C36. What brings the server down: a request whose URL does not parse, or a body, on one of the two
  paths that read one, that is not JSON or is \<open>null\<close>; nothing else does.
\<close>

theorem broker_down_iff:
  assumes "\<not> br_down s"
  shows "br_down (broker_step parse s h) \<longleftrightarrow>
     (\<exists>req. h = Request req \<and>
        (case parse (hr_url req) of
           None \<Rightarrow> True
         | Some (path, param) \<Rightarrow> reads_body req path \<and> bad_body (hr_body req)))"
proof (cases h)
  case (Request req)
  have serves: "broker_step parse s h = serve_broker parse req s" using assms Request by (simp add: broker_step_def)
  show ?thesis
  proof (cases "parse (hr_url req)")
    case None
    then show ?thesis using Request unfolding serves by (simp add: serve_new_conn)
  next
    case (Some p)
    obtain path param where p: "parse (hr_url req) = Some (path, param)" using Some by (cases p) auto
    have get: "hr_method req = ''GET'' \<Longrightarrow> hr_method req \<noteq> ''POST''" by simp
    have "br_down (serve_broker parse req s) \<longleftrightarrow> reads_body req path \<and> bad_body (hr_body req)"
      using assms get p by (auto simp: serve_new_conn reads_body_def body_handlers_down split: option.splits if_splits)
    then show ?thesis using Request p unfolding serves by simp
  qed
qed (simp_all add: assms broker_step_def)

theorem broker_down_iff_witness:
  "br_down (broker_step plain_urls createStore (http ''POST'' ''/api/plugin/requests'' ''{''))"
proof -
  have b: "\<not> br_down createStore" by (simp add: createStore_def)
  have "case plain_urls ''/api/plugin/requests'' of
          None \<Rightarrow> True
        | Some (path, param) \<Rightarrow>
            reads_body \<lparr>hr_method = ''POST'', hr_url = ''/api/plugin/requests'', hr_lastEventId = None, hr_body = ''{''\<rparr> path
            \<and> bad_body ''{''" by code_simp
  then show ?thesis using broker_down_iff [OF b, of plain_urls "http ''POST'' ''/api/plugin/requests'' ''{''"]
    by (simp add: http_def plain_urls_def)
qed

end
