(* ===== verification/CiGate.thy ===== *)
theory CiGate
  imports MacosPolicy JsonRoundtrip
begin

text \<open>
  The scripts of the CI that end a run: \<^verbatim>\<open>.github/cli-args.mjs\<close> (options), the printing of
  \<^verbatim>\<open>macos-policy.mjs\<close>, \<^verbatim>\<open>.github/check-results.mjs\<close> (the gate that decides whether the checks have
  passed, and with which machines) and \<^verbatim>\<open>.github/macos-budget.mjs\<close> (the cost in macOS jobs, from
  recorded telemetry).

  A thrown error is \<open>Inl\<close> of its message. The text of an engine's SyntaxError, the files, the
  digest of the sources and the reporting SDK are outside the model: a file is its content, the
  digest an argument, and what is reported is the result.
\<close>

section \<open>cli-args.mjs\<close>

fun required_loop :: "string list \<Rightarrow> (string \<times> string) list \<Rightarrow> string list \<Rightarrow> string + (string \<times> string) list" where
  "required_loop flags vals [] =
     (case find (\<lambda>flag. flag \<notin> fst ` set vals) flags of
        Some flag \<Rightarrow> Inl (''Missing required option: '' @ flag)
      | None \<Rightarrow> Inr vals)"
| "required_loop flags vals [flag] =
     (if flag \<notin> set flags \<or> flag \<in> fst ` set vals then Inl (''Unknown or duplicate option: '' @ flag)
      else Inl (''Missing value for '' @ flag))"
| "required_loop flags vals (flag # v # args) =
     (if flag \<notin> set flags \<or> flag \<in> fst ` set vals then Inl (''Unknown or duplicate option: '' @ flag)
      else if starts_with ''--'' v then Inl (''Missing value for '' @ flag)
      else required_loop flags (vals @ [(flag, v)]) args)"

definition requiredOptions :: "string list \<Rightarrow> string list \<Rightarrow> string + (string \<times> string) list" where
  "requiredOptions args flags = required_loop flags [] args"

lemma required_loop_iff:
  "required_loop flags vals args = Inr opts \<longleftrightarrow>
     (\<exists>new. opts = vals @ new \<and> args = concat (map (\<lambda>(flag, v). [flag, v]) new) \<and>
        (\<forall>(flag, v) \<in> set new. \<not> starts_with ''--'' v) \<and> distinct (map fst new) \<and>
        fst ` set new \<inter> fst ` set vals = {} \<and> fst ` set new \<subseteq> set flags \<and> set flags \<subseteq> fst ` set opts)"
proof (induction flags vals args arbitrary: rule: required_loop.induct)
  case (1 flags vals)
  have "find (\<lambda>flag. flag \<notin> fst ` set vals) flags = None \<longleftrightarrow> set flags \<subseteq> fst ` set vals"
    by (auto simp: find_None_iff)
  moreover have "[] = concat (map (\<lambda>(flag, v). [flag, v]) new) \<longleftrightarrow> new = []" for new :: "(string \<times> string) list"
    by (cases new) auto
  ultimately show ?case by (cases "find (\<lambda>flag. flag \<notin> fst ` set vals) flags") auto
next
  case (2 flags vals flag)
  have "[flag] \<noteq> concat (map (\<lambda>(flag, v). [flag, v]) new)" for new :: "(string \<times> string) list"
    by (cases new) auto
  then show ?case by auto
next
  case (3 flags vals flag v args)
  show ?case
  proof (cases "flag \<notin> set flags \<or> flag \<in> fst ` set vals \<or> starts_with ''--'' v")
    case True
    have "\<not> (flag # v # args = concat (map (\<lambda>(flag, v). [flag, v]) new) \<and>
        (\<forall>(flag, v) \<in> set new. \<not> starts_with ''--'' v) \<and>
        fst ` set new \<inter> fst ` set vals = {} \<and> fst ` set new \<subseteq> set flags)" for new
    proof (cases new)
      case (Cons x xs)
      have "fst x \<in> fst ` set vals \<Longrightarrow> insert (fst x) (fst ` set xs) \<inter> fst ` set vals \<noteq> {}" by blast
      then show ?thesis using True Cons by (cases x) auto
    qed simp
    then show ?thesis using True by auto
  next
    case False
    then have "required_loop flags vals (flag # v # args) = Inr opts \<longleftrightarrow>
        required_loop flags (vals @ [(flag, v)]) args = Inr opts" by auto
    also have "\<dots> \<longleftrightarrow> (\<exists>new. opts = vals @ (flag, v) # new \<and> args = concat (map (\<lambda>(flag, v). [flag, v]) new) \<and>
        (\<forall>(flag, v) \<in> set new. \<not> starts_with ''--'' v) \<and> distinct (map fst new) \<and>
        fst ` set new \<inter> insert flag (fst ` set vals) = {} \<and> fst ` set new \<subseteq> set flags \<and> set flags \<subseteq> fst ` set opts)"
      using 3 False by simp
    also have "\<dots> \<longleftrightarrow> (\<exists>new. opts = vals @ new \<and> flag # v # args = concat (map (\<lambda>(flag, v). [flag, v]) new) \<and>
        (\<forall>(flag, v) \<in> set new. \<not> starts_with ''--'' v) \<and> distinct (map fst new) \<and>
        fst ` set new \<inter> fst ` set vals = {} \<and> fst ` set new \<subseteq> set flags \<and> set flags \<subseteq> fst ` set opts)"
      (is "(\<exists>new. ?L new) \<longleftrightarrow> (\<exists>new. ?R new)")
    proof
      assume "\<exists>new. ?L new"
      then obtain new where "?L new" by blast
      then have "?R ((flag, v) # new)" using False by auto
      then show "\<exists>new. ?R new" by blast
    next
      assume "\<exists>new. ?R new"
      then obtain new where r: "?R new" by blast
      then obtain new' where "new = (flag, v) # new'" by (cases new) auto
      then have "?L new'" using r by auto
      then show "\<exists>new. ?L new" by blast
    qed
    finally show ?thesis .
  qed
qed

section \<open>macos-policy.mjs, its output\<close>

definition bool_text :: "bool \<Rightarrow> string" where
  "bool_text b = (if b then ''true'' else ''false'')"

definition policy_output :: "route \<Rightarrow> string" where
  "policy_output r =
     ''macosRequired='' @ bool_text (rt_macosRequired r) @ [newline] @
     ''isReleaseOnly='' @ bool_text (rt_isReleaseOnly r) @ [newline] @
     ''reason='' @ rt_reason r @ [newline]"

section \<open>check-results.mjs\<close>

record gate_env =
  ge_SETUP_RESULT :: "string option"
  ge_CHECK_RESULT :: "string option"
  ge_MACOS_REQUIRED :: "string option"
  ge_MACOS_REASON :: "string option"
  ge_EVENT_NAME :: "string option"
  ge_OS_MATRIX :: "string option"
  ge_DIAGNOSTIC :: "string option"

definition diagnostic :: "gate_env \<Rightarrow> bool" where
  "diagnostic env \<longleftrightarrow> ge_EVENT_NAME env = Some ''workflow_dispatch'' \<and> ge_DIAGNOSTIC env = Some ''true''"

definition expected_matrix :: "gate_env \<Rightarrow> string list option" where
  "expected_matrix env =
     (if ge_EVENT_NAME env = Some ''pull_request'' then
        (if ge_MACOS_REQUIRED env = Some ''true'' then Some [''ubuntu-latest'', ''macos-14'']
         else if ge_MACOS_REQUIRED env = Some ''false'' then Some [''ubuntu-latest'']
         else None)
      else if diagnostic env then Some [''ubuntu-latest'', ''macos-14'', ''windows-latest'']
      else Some [''ubuntu-latest'', ''windows-latest''])"

definition gate_message :: "gate_env \<Rightarrow> string list \<Rightarrow> string" where
  "gate_message env matrix =
     ''Required proofs succeeded on: '' @ join '', '' matrix @
     (if ''macos-14'' \<in> set matrix then []
      else ''; Mac lane intentionally omitted by policy ('' @
           (case ge_MACOS_REASON env of None \<Rightarrow> ''no classifier reason''
            | Some r \<Rightarrow> if r = [] then ''no classifier reason'' else r) @ '')'')"

definition unauthorized :: string where
  "unauthorized = ''Mac omission is not authorized by classification''"

definition check_results :: "gate_env \<Rightarrow> string + string" where
  "check_results env =
     (if ge_EVENT_NAME env \<notin> {Some ''pull_request'', Some ''push'', Some ''workflow_dispatch''}
      then Inl ''Unknown or missing EVENT_NAME; cannot authorize Mac omission''
      else if ge_SETUP_RESULT env \<noteq> Some ''success'' \<or> ge_CHECK_RESULT env \<noteq> Some ''success''
      then Inl ''Required setup or check work failed, was cancelled, or is missing''
      else if ge_EVENT_NAME env \<noteq> Some ''pull_request'' \<and> ge_MACOS_REQUIRED env \<noteq> Some ''false''
      then Inl ''Missing non-PR classifier authorization''
      else
        (case (ge_OS_MATRIX env, expected_matrix env) of
           (Some text, Some expected) \<Rightarrow>
             (case js_parse text of
                None \<Rightarrow> Inl ''SyntaxError''
              | Some v \<Rightarrow>
                  if json_text v \<noteq> json_text (Arr (map Str expected)) then Inl unauthorized
                  else Inr (gate_message env expected))
         | _ \<Rightarrow> Inl unauthorized))"

section \<open>Properties of the gate\<close>

lemma parse_never_undefined:
  "parse_value s = Some (v, r) \<Longrightarrow> v \<noteq> Undefined"
  by (subst (asm) parse_value.simps)
    (auto simp: parse_number_def parse_literal_def Let_def split: list.splits option.splits if_splits)

lemma js_parse_not_undefined: "js_parse s = Some v \<Longrightarrow> v \<noteq> Undefined"
  by (auto simp: js_parse_def dest: parse_never_undefined split: option.splits if_splits)

lemma image_string: "json_image v = Str s \<longleftrightarrow> v = Str s"
proof (cases v)
  case (Num x)
  then show ?thesis by (cases x) auto
qed auto

lemma image_strings: "json_image v = Arr (map Str xs) \<longleftrightarrow> v = Arr (map Str xs)"
proof (cases v)
  case (Num x)
  then show ?thesis by (cases x) auto
next
  case (Arr vs)
  have "map json_image vs = map Str xs \<longleftrightarrow> vs = map Str xs"
    by (induction vs arbitrary: xs) (auto simp: Cons_eq_map_conv image_string)
  then show ?thesis using Arr by simp
qed auto

lemma same_text_strings:
  assumes "v \<noteq> Undefined"
  shows "json_text v = json_text (Arr (map Str xs)) \<longleftrightarrow> v = Arr (map Str xs)"
proof
  assume "json_text v = json_text (Arr (map Str xs))"
  then have "json_image v = json_image (Arr (map Str xs))" using assms by (intro json_text_inject) simp_all
  also have "\<dots> = Arr (map Str xs)" by (simp add: comp_def)
  finally show "v = Arr (map Str xs)" by (simp only: image_strings)
qed simp

text \<open>
  C34. The gate: a run passes exactly when setup and checks succeeded, and the machines it ran on
  are those its event calls for. On a pull request that is with or without macOS as the classifier
  said, and neither if it said nothing; otherwise the classifier must have let macOS go, and the
  machines include it only in a manual diagnostic run.
\<close>

theorem gate_passes_iff:
  "check_results env = Inr msg \<longleftrightarrow>
     ge_SETUP_RESULT env = Some ''success'' \<and> ge_CHECK_RESULT env = Some ''success'' \<and>
     (\<exists>text matrix. ge_OS_MATRIX env = Some text \<and> js_parse text = Some (Arr (map Str matrix)) \<and>
        msg = gate_message env matrix \<and>
        (ge_EVENT_NAME env = Some ''pull_request'' \<and>
           (ge_MACOS_REQUIRED env = Some ''true'' \<and> matrix = [''ubuntu-latest'', ''macos-14''] \<or>
            ge_MACOS_REQUIRED env = Some ''false'' \<and> matrix = [''ubuntu-latest'']) \<or>
         ge_EVENT_NAME env \<in> {Some ''push'', Some ''workflow_dispatch''} \<and>
           ge_MACOS_REQUIRED env = Some ''false'' \<and>
           matrix = (if diagnostic env then [''ubuntu-latest'', ''macos-14'', ''windows-latest'']
                     else [''ubuntu-latest'', ''windows-latest''])))"
proof -
  have parsed: "js_parse raw = Some v \<Longrightarrow> json_text v = json_text (Arr (map Str xs)) \<longleftrightarrow> v = Arr (map Str xs)"
    for raw v xs using same_text_strings [OF js_parse_not_undefined] .
  have "check_results env = Inr msg \<longleftrightarrow>
     ge_EVENT_NAME env \<in> {Some ''pull_request'', Some ''push'', Some ''workflow_dispatch''} \<and>
     ge_SETUP_RESULT env = Some ''success'' \<and> ge_CHECK_RESULT env = Some ''success'' \<and>
     (ge_EVENT_NAME env = Some ''pull_request'' \<or> ge_MACOS_REQUIRED env = Some ''false'') \<and>
     (\<exists>text matrix. ge_OS_MATRIX env = Some text \<and> expected_matrix env = Some matrix \<and>
        js_parse text = Some (Arr (map Str matrix)) \<and> msg = gate_message env matrix)"
    unfolding check_results_def by (auto simp: parsed split: option.splits)
  then show ?thesis unfolding expected_matrix_def by (auto split: if_splits)
qed

section \<open>macos-budget.mjs\<close>

text \<open>Reading a member of null or undefined throws, as does calling a method of an array on anything
  else; \<open>None\<close> is that TypeError.\<close>

definition get :: "js \<Rightarrow> string \<Rightarrow> js option" where
  "get v k = (if nullish v then None else Some (at_key v k))"

fun elements :: "js \<Rightarrow> js list option" where
  "elements (Arr xs) = Some xs"
| "elements v = None"

definition get_elements :: "js \<Rightarrow> string \<Rightarrow> js list option" where
  "get_elements v k = Option.bind (get v k) elements"

subsection \<open>Validation\<close>

definition malformed_row :: "js \<Rightarrow> bool" where
  "malformed_row row \<longleftrightarrow>
     \<not> truthy row \<or> \<not> is_boolean (at_key row ''macos'') \<or> \<not> is_string (at_key row ''workflow'') \<or>
     \<not> is_string (at_key row ''event'') \<or> \<not> is_string (at_key row ''job'') \<or>
     \<not> truthy (at_key row ''matrix'') \<or> \<not> is_object (at_key row ''matrix'')"

definition malformed_run :: "js \<Rightarrow> bool" where
  "malformed_run r \<longleftrightarrow>
     \<not> truthy r \<or> \<not> is_string (at_key r ''workflow'') \<or> \<not> is_string (at_key r ''scenario'') \<or>
     elements (at_key r ''rows'') = None"

definition validateRun :: "js \<Rightarrow> string option" where
  "validateRun r =
     (if malformed_run r then Some ''Malformed telemetry run''
      else (case elements (at_key r ''rows'') of
              None \<Rightarrow> None
            | Some rows \<Rightarrow> if list_ex malformed_row rows then Some ''Malformed telemetry job row'' else None))"

fun validate_runs :: "js list \<Rightarrow> string option" where
  "validate_runs [] = None"
| "validate_runs (r # rs) = (case validateRun r of Some e \<Rightarrow> Some e | None \<Rightarrow> validate_runs rs)"

fun validate_lifecycles :: "js list \<Rightarrow> string option" where
  "validate_lifecycles [] = None"
| "validate_lifecycles (l # ls) =
     (case (if truthy l then elements (at_key l ''runs'') else None) of
        None \<Rightarrow> Some ''Malformed telemetry lifecycle''
      | Some rs \<Rightarrow> (case validate_runs rs of Some e \<Rightarrow> Some e | None \<Rightarrow> validate_lifecycles ls))"

definition validate_telemetry :: "string \<Rightarrow> js \<Rightarrow> string + js list \<times> js list" where
  "validate_telemetry digest telemetry =
     (if nullish telemetry then Inl ''TypeError''
      else if at_key telemetry ''schemaVersion'' \<noteq> Num (Dec False 2 1) \<or>
         at_key telemetry ''sourceDigest'' \<noteq> Str digest
      then Inl ''Missing or stale telemetry: run github-workflows:test''
      else
        (case (elements (at_key telemetry ''scenarios''), elements (at_key telemetry ''lifecycles'')) of
           (Some scenarios, Some lifecycles) \<Rightarrow>
             if scenarios = [] \<or> lifecycles = [] then Inl ''Missing telemetry workload''
             else
               (case validate_runs scenarios of
                  Some e \<Rightarrow> Inl e
                | None \<Rightarrow>
                    (case validate_lifecycles lifecycles of
                       Some e \<Rightarrow> Inl e
                     | None \<Rightarrow> Inr (scenarios, lifecycles)))
         | _ \<Rightarrow> Inl ''Missing telemetry workload''))"

subsection \<open>The cost\<close>

fun filter_by :: "('a \<Rightarrow> bool option) \<Rightarrow> 'a list \<Rightarrow> 'a list option" where
  "filter_by f [] = Some []"
| "filter_by f (x # xs) =
     (case f x of
        None \<Rightarrow> None
      | Some keep \<Rightarrow> map_option (\<lambda>ys. if keep then x # ys else ys) (filter_by f xs))"

definition is_mac :: "js \<Rightarrow> bool option" where
  "is_mac row = map_option truthy (get row ''macos'')"

definition mac_rows :: "js \<Rightarrow> js list option" where
  "mac_rows r = Option.bind (get_elements r ''rows'') (filter_by is_mac)"

text \<open>\<open>rows.some(...)\<close> stops at the first row that counts.\<close>

fun some_mac :: "js list \<Rightarrow> bool option" where
  "some_mac [] = Some False"
| "some_mac (row # rows) = (case is_mac row of None \<Rightarrow> None | Some b \<Rightarrow> if b then Some True else some_mac rows)"

definition mac_runs :: "js \<Rightarrow> js list option" where
  "mac_runs lifecycle =
     Option.bind (get_elements lifecycle ''runs'')
       (filter_by (\<lambda>r. Option.bind (get_elements r ''rows'') some_mac))"

definition budget_value :: "string \<Rightarrow> js list \<Rightarrow> js list \<Rightarrow> nat option" where
  "budget_value metric scenarios lifecycles =
     (if metric = ''jobs-per-run''
      then map_option (\<lambda>xss. Max (set (map length xss))) (traverse mac_rows scenarios)
      else map_option (\<lambda>xss. Max (set (map length xss))) (traverse mac_runs lifecycles))"

text \<open>\<open>row.event.split("/").slice(0, 3).join("/")\<close>.\<close>

definition event_prefix :: "js \<Rightarrow> string option" where
  "event_prefix v = (case v of Str s \<Rightarrow> Some (join ''/'' (take 3 (split_on (CHR ''/'') s))) | _ \<Rightarrow> None)"

definition unique_entry :: "js \<Rightarrow> (string \<times> js) option" where
  "unique_entry row =
     Option.bind (get row ''event'') (\<lambda>ev.
     Option.bind (event_prefix ev) (\<lambda>event.
     Some (json_text (Arr [at_key row ''workflow'', Str event, at_key row ''job'', at_key row ''matrix'']),
           Obj (put_member ''event'' (Str event) (make_object (entries row))))))"

definition unique_mac_jobs :: "js list \<Rightarrow> (string \<times> js) list option" where
  "unique_mac_jobs scenarios =
     Option.bind (traverse mac_rows scenarios) (\<lambda>rowss.
     map_option (foldl (\<lambda>m (k, v). AList.update k v m) []) (traverse unique_entry (concat rowss)))"

definition mac_run_detail :: "js \<Rightarrow> js option" where
  "mac_run_detail r =
     map_option (\<lambda>jobs. Obj [(''workflow'', at_key r ''workflow''), (''event'', at_key r ''scenario''), (''jobs'', Arr jobs)])
       (mac_rows r)"

definition lifecycle_detail :: "js \<Rightarrow> js option" where
  "lifecycle_detail lifecycle =
     (if nullish lifecycle then None
      else
        map_option (\<lambda>rs. Obj (map (\<lambda>k. (k, at_key lifecycle k)) [''diff'', ''fork'', ''publish'', ''pages'', ''draft'']
            @ [(''macRuns'', Arr rs)]))
          (Option.bind (mac_runs lifecycle) (traverse mac_run_detail)))"

definition budget_detail :: "js \<Rightarrow> string \<Rightarrow> js list \<Rightarrow> js list \<Rightarrow> string option" where
  "budget_detail telemetry metric scenarios lifecycles =
     Option.bind (unique_mac_jobs scenarios) (\<lambda>jobs.
     Option.bind (traverse lifecycle_detail lifecycles) (\<lambda>details.
     Some (json_text (Obj [(''sourceDigest'', at_key telemetry ''sourceDigest''), (''metric'', Str metric),
       (''macJobs'', Arr (map snd jobs)), (''lifecycles'', Arr details)]))))"

text \<open>The script: \<open>read_file\<close> gives the content of a path under the root, if there is one.\<close>

definition macos_budget ::
    "(string \<Rightarrow> string option) \<Rightarrow> string \<Rightarrow> string list \<Rightarrow> string + nat \<times> string" where
  "macos_budget read_file digest args =
     (case requiredOptions args [''--metric'', ''--telemetry''] of
        Inl e \<Rightarrow> Inl e
      | Inr opts \<Rightarrow>
          (let metric = the (map_of opts ''--metric''); path = the (map_of opts ''--telemetry'')
           in if metric \<notin> {''jobs-per-run'', ''runs-per-change''} then Inl ''Unknown metric''
              else if path = [] \<or> starts_with ''--'' path then Inl ''Telemetry path required''
              else
                (case Option.bind (read_file path) js_parse of
                   None \<Rightarrow> Inl ''telemetry cannot be read''
                 | Some telemetry \<Rightarrow>
                     (case validate_telemetry digest telemetry of
                        Inl e \<Rightarrow> Inl e
                      | Inr (scenarios, lifecycles) \<Rightarrow>
                          (case (budget_value metric scenarios lifecycles,
                                 budget_detail telemetry metric scenarios lifecycles) of
                             (Some n, Some detail) \<Rightarrow> Inr (n, detail)
                           | _ \<Rightarrow> Inl ''TypeError'')))))"

section \<open>Validated telemetry is well typed\<close>

definition well_typed_run :: "js \<Rightarrow> bool" where
  "well_typed_run r \<longleftrightarrow>
     (\<exists>ms rows. r = Obj ms \<and> at_key r ''rows'' = Arr rows \<and> (\<forall>row \<in> set rows. \<not> malformed_row row))"

definition well_typed_lifecycle :: "js \<Rightarrow> bool" where
  "well_typed_lifecycle l \<longleftrightarrow>
     (\<exists>ms rs. l = Obj ms \<and> at_key l ''runs'' = Arr rs \<and> (\<forall>r \<in> set rs. well_typed_run r))"

definition is_mac_row :: "js \<Rightarrow> bool" where
  "is_mac_row row \<longleftrightarrow> at_key row ''macos'' = Bool True"

definition run_rows :: "js \<Rightarrow> js list" where
  "run_rows r = the (elements (at_key r ''rows''))"

definition run_jobs :: "js \<Rightarrow> js list" where
  "run_jobs r = filter is_mac_row (run_rows r)"

definition lifecycle_runs :: "js \<Rightarrow> js list" where
  "lifecycle_runs l = filter (\<lambda>r. \<exists>row \<in> set (run_rows r). is_mac_row row) (the (elements (at_key l ''runs'')))"

lemma elements_Some_iff: "elements v = Some xs \<longleftrightarrow> v = Arr xs"
  by (cases v) auto

lemma digit_key: "k \<in> set (map digits ns) \<Longrightarrow> \<exists>c cs. k = c # cs \<and> is_digit c"
  using digits_are_digits digits_edges(1) by (fastforce simp: list_all_iff neq_Nil_conv)

lemma zip_no_key: "\<not> is_digit (hd k) \<Longrightarrow> map_of (zip (map digits ns) xs) k = None"
  by (auto simp: map_of_eq_None_iff dest!: set_zip_leftD digit_key)

text \<open>A value with a member under a name that is no index is an object.\<close>

lemma at_key_object:
  assumes "at_key v k \<noteq> Undefined" "\<not> is_digit (hd k)" shows "\<exists>ms. v = Obj ms"
  using assms by (cases v) (auto simp: at_key_def zip_no_key)

lemma row_type:
  assumes "\<not> malformed_row row"
  shows "\<exists>ms event. row = Obj ms \<and> at_key row ''event'' = Str event \<and> is_mac row = Some (is_mac_row row)"
proof -
  obtain event where ev: "at_key row ''event'' = Str event"
    using assms by (cases "at_key row ''event''") (auto simp: malformed_row_def)
  moreover obtain ms where "row = Obj ms"
    using at_key_object [of row "''event''"] ev by (auto simp: is_digit_def)
  moreover obtain b where "at_key row ''macos'' = Bool b"
    using assms by (cases "at_key row ''macos''") (auto simp: malformed_row_def)
  ultimately show ?thesis by (auto simp: is_mac_def get_def nullish_def is_mac_row_def)
qed

lemma validateRun_None_iff: "validateRun r = None \<longleftrightarrow> \<not> malformed_run r \<and> (\<exists>rows. at_key r ''rows'' = Arr rows \<and> (\<forall>row \<in> set rows. \<not> malformed_row row))"
  by (auto simp: validateRun_def malformed_run_def list_ex_iff elements_Some_iff split: option.splits)

lemma validateRun_type:
  assumes "validateRun r = None" shows "well_typed_run r"
proof -
  obtain rows where rows: "at_key r ''rows'' = Arr rows" "\<forall>row \<in> set rows. \<not> malformed_row row"
    using assms unfolding validateRun_None_iff by blast
  moreover obtain ms where "r = Obj ms"
    using at_key_object [of r "''rows''"] rows(1) by (auto simp: is_digit_def)
  ultimately show ?thesis unfolding well_typed_run_def by blast
qed

lemma validate_runs_type: "validate_runs rs = None \<Longrightarrow> r \<in> set rs \<Longrightarrow> well_typed_run r"
  by (induction rs) (auto split: option.splits intro: validateRun_type)

lemma validate_lifecycles_type:
  "validate_lifecycles ls = None \<Longrightarrow> l \<in> set ls \<Longrightarrow> well_typed_lifecycle l"
proof (induction ls)
  case (Cons l' ls)
  then obtain rs where rs: "at_key l' ''runs'' = Arr rs" "validate_runs rs = None" "validate_lifecycles ls = None"
    by (auto simp: elements_Some_iff split: option.splits if_splits)
  obtain ms where "l' = Obj ms"
    using at_key_object [of l' "''runs''"] rs(1) by (auto simp: is_digit_def)
  then have "well_typed_lifecycle l'"
    unfolding well_typed_lifecycle_def using rs validate_runs_type by blast
  then show ?case using Cons rs(3) by auto
qed simp

lemma telemetry_type:
  assumes "validate_telemetry digest telemetry = Inr (scenarios, lifecycles)"
  shows "scenarios \<noteq> []" "lifecycles \<noteq> []"
    "r \<in> set scenarios \<Longrightarrow> well_typed_run r" "l \<in> set lifecycles \<Longrightarrow> well_typed_lifecycle l"
  using assms by (auto simp: validate_telemetry_def split: option.splits if_splits
    intro: validate_runs_type validate_lifecycles_type)

subsection \<open>Progress\<close>

lemma filter_by_Some: "(\<And>x. x \<in> set xs \<Longrightarrow> f x = Some (P x)) \<Longrightarrow> filter_by f xs = Some (filter P xs)"
  by (induction xs) auto

lemma some_mac_Some:
  "(\<And>row. row \<in> set rows \<Longrightarrow> \<not> malformed_row row) \<Longrightarrow> some_mac rows = Some (\<exists>row \<in> set rows. is_mac_row row)"
  by (induction rows) (use row_type in fastforce)+

lemma well_typed_runD:
  assumes "well_typed_run r"
  shows "get_elements r ''rows'' = Some (run_rows r)" "\<not> nullish r"
    "row \<in> set (run_rows r) \<Longrightarrow> \<not> malformed_row row"
  using assms by (auto simp: well_typed_run_def get_elements_def get_def nullish_def run_rows_def)

lemma mac_rows_Some: "well_typed_run r \<Longrightarrow> mac_rows r = Some (run_jobs r)"
  unfolding mac_rows_def run_jobs_def
  by (simp add: well_typed_runD(1)) (use row_type well_typed_runD(3) in \<open>blast intro: filter_by_Some\<close>)

lemma mac_runs_Some:
  assumes "well_typed_lifecycle l"
  shows "mac_runs l = Some (lifecycle_runs l)" "r \<in> set (lifecycle_runs l) \<Longrightarrow> well_typed_run r" "\<not> nullish l"
proof -
  obtain rs where rs: "get_elements l ''runs'' = Some rs" "the (elements (at_key l ''runs'')) = rs"
      "\<And>r. r \<in> set rs \<Longrightarrow> well_typed_run r" and l: "\<not> nullish l"
    using assms by (auto simp: well_typed_lifecycle_def get_elements_def get_def nullish_def)
  show "\<not> nullish l" by (fact l)
  have "Option.bind (get_elements r ''rows'') some_mac = Some (\<exists>row \<in> set (run_rows r). is_mac_row row)"
    if "r \<in> set rs" for r
    using well_typed_runD [OF rs(3) [OF that]] some_mac_Some by simp
  then show "mac_runs l = Some (lifecycle_runs l)"
    unfolding mac_runs_def lifecycle_runs_def by (simp add: rs(1,2) filter_by_Some)
  show "r \<in> set (lifecycle_runs l) \<Longrightarrow> well_typed_run r"
    unfolding lifecycle_runs_def using rs(2,3) by auto
qed

lemma traverse_exists: "(\<And>x. x \<in> set xs \<Longrightarrow> \<exists>y. f x = Some y) \<Longrightarrow> \<exists>ys. traverse f xs = Some ys"
  by (induction xs) (auto, fastforce)

lemma unique_entry_Some: "\<not> malformed_row row \<Longrightarrow> \<exists>x. unique_entry row = Some x"
  using row_type [of row] by (auto simp: unique_entry_def get_def nullish_def event_prefix_def)

lemma unique_mac_jobs_Some:
  assumes "\<And>r. r \<in> set scenarios \<Longrightarrow> well_typed_run r"
  shows "\<exists>jobs. unique_mac_jobs scenarios = Some jobs"
proof -
  have "\<exists>ys. traverse unique_entry (concat (map run_jobs scenarios)) = Some ys"
    by (rule traverse_exists, rule unique_entry_Some)
      (use assms well_typed_runD(3) in \<open>auto simp: run_jobs_def\<close>)
  then show ?thesis
    unfolding unique_mac_jobs_def using assms mac_rows_Some by (auto simp: traverse_all_Some)
qed

lemma lifecycle_detail_Some:
  assumes "well_typed_lifecycle l" shows "\<exists>d. lifecycle_detail l = Some d"
proof -
  have "\<exists>ds. traverse mac_run_detail (lifecycle_runs l) = Some ds"
    by (rule traverse_exists) (simp add: mac_run_detail_def mac_rows_Some mac_runs_Some(2) [OF assms])
  then show ?thesis using mac_runs_Some [OF assms] by (auto simp: lifecycle_detail_def)
qed

lemma Max_of_list: "xs \<noteq> [] \<Longrightarrow> Max (set xs) \<in> set xs \<and> (\<forall>x \<in> set xs. x \<le> Max (set xs))" for xs :: "nat list"
  using Max_in [of "set xs"] by auto

text \<open>
  C35. Validated telemetry has the types the computation needs: once the checks have let it pass,
  no member of null or undefined is read and no method of a missing array is called, whatever else
  the file holds; and the cost is the largest number of macOS jobs of a run, or of runs with a macOS
  job of a change.
\<close>

theorem budget_type_safe:
  assumes "validate_telemetry digest telemetry = Inr (scenarios, lifecycles)"
  shows "\<exists>n detail. budget_value metric scenarios lifecycles = Some n \<and>
      budget_detail telemetry metric scenarios lifecycles = Some detail \<and>
      (let counts = (if metric = ''jobs-per-run'' then map (\<lambda>r. length (run_jobs r)) scenarios
                     else map (\<lambda>l. length (lifecycle_runs l)) lifecycles)
       in n \<in> set counts \<and> (\<forall>c \<in> set counts. c \<le> n))"
proof -
  note t = telemetry_type [OF assms]
  have rows: "traverse mac_rows scenarios = Some (map run_jobs scenarios)"
    by (intro traverse_all_Some mac_rows_Some t(3))
  have runs: "traverse mac_runs lifecycles = Some (map lifecycle_runs lifecycles)"
    by (intro traverse_all_Some mac_runs_Some t(4))
  obtain jobs where "unique_mac_jobs scenarios = Some jobs"
    using unique_mac_jobs_Some t(3) by blast
  moreover obtain details where "traverse lifecycle_detail lifecycles = Some details"
    using traverse_exists lifecycle_detail_Some t(4) by metis
  ultimately have "\<exists>detail. budget_detail telemetry metric scenarios lifecycles = Some detail"
    by (simp add: budget_detail_def)
  moreover have "map (\<lambda>r. length (run_jobs r)) scenarios \<noteq> []" "map (\<lambda>l. length (lifecycle_runs l)) lifecycles \<noteq> []"
    using t by simp_all
  ultimately show ?thesis
    using Max_of_list by (auto simp: budget_value_def rows runs comp_def image_image Let_def simp del: Max_ge_iff)
qed

definition sample_telemetry :: js where
  "sample_telemetry =
     (let row = (\<lambda>os b. Obj [(''workflow'', Str ''ci.yml''), (''event'', Str ''pull_request/opened/non-draft/x''),
            (''job'', Str ''check''), (''matrix'', Obj [(''os'', Str os)]), (''macos'', Bool b)]);
          scenario = (\<lambda>rows. Obj [(''workflow'', Str ''ci.yml''), (''scenario'', Str ''opened''), (''rows'', Arr rows)]);
          full = scenario [row ''ubuntu-latest'' False, row ''macos-14'' True];
          light = scenario [row ''ubuntu-latest'' False]
      in Obj [(''schemaVersion'', Num (Dec False 2 1)), (''sourceDigest'', Str ''d1''),
              (''scenarios'', Arr [light, full]), (''lifecycles'', Arr [Obj [(''runs'', Arr [full, light, full])]])])"

theorem budget_type_safe_witness:
  "\<exists>scenarios lifecycles detail.
     validate_telemetry ''d1'' sample_telemetry = Inr (scenarios, lifecycles) \<and>
     budget_value ''runs-per-change'' scenarios lifecycles = Some 2 \<and>
     budget_detail sample_telemetry ''runs-per-change'' scenarios lifecycles = Some detail"
proof -
  obtain sc lc where v: "validate_telemetry ''d1'' sample_telemetry = Inr (sc, lc)"
      and lc: "lc = the (elements (at_key sample_telemetry ''lifecycles''))"
  proof -
    have "validate_telemetry ''d1'' sample_telemetry =
        Inr (the (elements (at_key sample_telemetry ''scenarios'')), the (elements (at_key sample_telemetry ''lifecycles'')))"
      by code_simp
    then show ?thesis using that by blast
  qed
  have "map (\<lambda>l. length (lifecycle_runs l)) lc = [2]" unfolding lc by code_simp
  then have "budget_value ''runs-per-change'' sc lc = Some 2"
    "\<exists>detail. budget_detail sample_telemetry ''runs-per-change'' sc lc = Some detail"
    using budget_type_safe [OF v, of "''runs-per-change''"] by auto
  then show ?thesis using v by blast
qed

end
