(* ===== verification/Fixtures.thy ===== *)
theory Fixtures
  imports Inbox Approval
begin

text \<open>
  The demonstration data: \<^verbatim>\<open>apps/web/src/fixtures.ts\<close>, the requests that benchmarks, screenshots and
  tests show, \<^verbatim>\<open>apps/web/src/test/broker-fixtures.ts\<close>, the same requests as the broker announces them,
  and the long scripts of \<^verbatim>\<open>apps/web/src/perf\<close>.
\<close>

section \<open>fixtures.ts\<close>

definition demo_oneoff :: approval_request where
  "demo_oneoff =
     \<lparr>rq_id = ''demo-oneoff'', rq_protocolVersion = Dec False 3 1, rq_harness = ''codex'', rq_sessionId = None,
       rq_cwd = ''/workspace/acme-api'',
      rq_currentVerdict = Defer,
      rq_currentReason = (''no rule matched `gh pr merge 42 --squash --delete-branch` (standalone)''),
      rq_subject = Shell ''gh pr merge 42 --squash --delete-branch''
        [\<lparr>fr_display = ''gh pr merge 42 --squash --delete-branch'',
          fr_argv = [''gh'', ''pr'', ''merge'', ''42'', ''--squash'', ''--delete-branch''], fr_role = ''standalone'',
          fr_verdict = Defer, fr_rule = None, fr_reason = ''no matching rule''\<rparr>]\<rparr>"

definition demo_release_script :: approval_request where
  "demo_release_script =
     \<lparr>rq_id = ''demo-release-script'', rq_protocolVersion = Dec False 3 1, rq_harness = ''claude-code'',
       rq_sessionId = Some ''9f3c1a2b7e4d'', rq_cwd = ''/workspace/acme-api'',
      rq_currentVerdict = Ask,
      rq_currentReason = (''2 commands need approval: `kubectl --context $region apply -f deploy/manifest.yaml` (loop body): needs approval per rule 'ask before applying kubernetes manifests'; `git push origin main --tags` (standalone): needs approval per rule 'ask before pushing to a remote'' @ [CHR 0x27]),
      rq_subject = Shell (''set -euo pipefail'' @ [newline] @ ''npm run build'' @ [newline] @
        ''for region in $(cat deploy/regions.txt); do'' @ [newline] @ ''  curl -fsS https://api.acme.dev/$region/healthz'' @ [newline] @
          ''  kubectl --context $region apply -f deploy/manifest.yaml'' @ [newline] @ ''done'' @ [newline] @ ''git push origin main --tags'')
        [\<lparr>fr_display = ''set -euo pipefail'', fr_argv = [''set'', ''-euo'', ''pipefail''], fr_role = ''standalone'',
          fr_verdict = Allow, fr_rule = Some ''allow set builtins'', fr_reason = (''allowed by 'allow set builtins'' @ [CHR 0x27])\<rparr>,
         \<lparr>fr_display = ''npm run build'', fr_argv = [''npm'', ''run'', ''build''], fr_role = ''standalone'',
          fr_verdict = Allow, fr_rule = Some ''allow npm scripts'', fr_reason = (''allowed by 'allow npm scripts'' @ [CHR 0x27])\<rparr>,
         \<lparr>fr_display = ''cat deploy/regions.txt'', fr_argv = [''cat'', ''deploy/regions.txt''], fr_role = ''substitution'',
          fr_verdict = Allow, fr_rule = Some ''allow coreutils'', fr_reason = (''allowed by 'allow coreutils'' @ [CHR 0x27])\<rparr>,
         \<lparr>fr_display = ''curl -fsS https://api.acme.dev/$region/healthz'',
           fr_argv = [''curl'', ''-fsS'', ''https://api.acme.dev/$region/healthz''], fr_role = ''loop_body'',
          fr_verdict = Allow, fr_rule = Some ''allow health-check probes'', fr_reason = (''allowed by 'allow health-check probes'' @
            [CHR 0x27])\<rparr>,
         \<lparr>fr_display = ''kubectl --context $region apply -f deploy/manifest.yaml'',
           fr_argv = [''kubectl'', ''--context'', ''$region'', ''apply'', ''-f'', ''deploy/manifest.yaml''], fr_role = ''loop_body'',
          fr_verdict = Ask, fr_rule = Some ''ask before applying kubernetes manifests'',
            fr_reason = (''needs approval per rule 'ask before applying kubernetes manifests'' @ [CHR 0x27])\<rparr>,
         \<lparr>fr_display = ''git push origin main --tags'', fr_argv = [''git'', ''push'', ''origin'', ''main'', ''--tags''],
           fr_role = ''standalone'',
          fr_verdict = Ask, fr_rule = Some ''ask before pushing to a remote'',
            fr_reason = (''needs approval per rule 'ask before pushing to a remote'' @ [CHR 0x27])\<rparr>]\<rparr>"

definition demo_tool_mcp :: approval_request where
  "demo_tool_mcp =
     \<lparr>rq_id = ''demo-tool-mcp'', rq_protocolVersion = Dec False 3 1, rq_harness = ''claude-code'',
       rq_sessionId = Some ''9f3c1a2b7e4d'', rq_cwd = ''/workspace/acme-api'',
      rq_currentVerdict = Defer,
      rq_currentReason = (''no rule matched tool `mcp__github__create_issue`''),
      rq_subject = Tool \<lparr>tc_name = ''mcp__github__create_issue'', tc_capability = ''mcp'',
        tc_params = Obj [(''mcp_server'', Str ''github''), (''mcp_tool'', Str ''create_issue'')],
        tc_raw = Obj [(''owner'', Str ''acme''), (''repo'', Str ''app''), (''title'', Str ''Production is down''), (''body'',
          Str ''sev1'')]\<rparr>\<rparr>"

definition demo_tool_write :: approval_request where
  "demo_tool_write =
     \<lparr>rq_id = ''demo-tool-write'', rq_protocolVersion = Dec False 3 1, rq_harness = ''codex'', rq_sessionId = None,
       rq_cwd = ''/workspace/acme-api'',
      rq_currentVerdict = Defer,
      rq_currentReason = (''no rule matched tool `write`''),
      rq_subject = Tool \<lparr>tc_name = ''write'', tc_capability = ''write'',
        tc_params = Obj [(''path'', Str ''/repo/.github/workflows/deploy.yml'')],
        tc_raw = Obj [(''path'', Str ''/repo/.github/workflows/deploy.yml'')]\<rparr>\<rparr>"

definition demoRequests :: "approval_request list" where
  "demoRequests = [demo_oneoff, demo_release_script, demo_tool_mcp, demo_tool_write]"

section \<open>broker-fixtures.ts\<close>

definition payload_oneoff :: js where
  "payload_oneoff =
     Obj [(''id'', Str ''demo-oneoff''),
      (''protocol_version'', Num (Dec False 3 1)),
      (''subject'', Str ''shell''),
      (''harness'', Str ''codex''),
      (''cwd'', Str ''/workspace/acme-api''),
      (''command'', Str ''gh pr merge 42 --squash --delete-branch''),
      (''current_verdict'', Str ''defer''),
      (''current_reason'', Str (''no rule matched `gh pr merge 42 --squash --delete-branch` (standalone)'')),
      (''fragments'', Arr [
        Obj [(''display'', Str ''gh pr merge 42 --squash --delete-branch''), (''argv'', Arr [Str ''gh'', Str ''pr'', Str ''merge'',
          Str ''42'', Str ''--squash'', Str ''--delete-branch'']), (''role'', Str ''standalone''), (''verdict'', Str ''defer''),
            (''rule'', Null), (''reason'', Str ''no matching rule'')]])]"

definition payload_release_script :: js where
  "payload_release_script =
     Obj [(''id'', Str ''demo-release-script''),
      (''protocol_version'', Num (Dec False 3 1)),
      (''subject'', Str ''shell''),
      (''harness'', Str ''claude-code''),
      (''session_id'', Str ''9f3c1a2b7e4d''),
      (''cwd'', Str ''/workspace/acme-api''),
      (''command'', Str (''set -euo pipefail'' @ [newline] @ ''npm run build'' @ [newline] @
        ''for region in $(cat deploy/regions.txt); do'' @ [newline] @ ''  curl -fsS https://api.acme.dev/$region/healthz'' @ [newline] @
          ''  kubectl --context $region apply -f deploy/manifest.yaml'' @ [newline] @ ''done'' @ [newline] @ ''git push origin main --tags'')),
      (''current_verdict'', Str ''ask''),
      (''current_reason'',
        Str (''2 commands need approval: `kubectl --context $region apply -f deploy/manifest.yaml` (loop body): needs approval per rule 'ask before applying kubernetes manifests'; `git push origin main --tags` (standalone): needs approval per rule 'ask before pushing to a remote'' @ [CHR 0x27])),
      (''fragments'', Arr [
        Obj [(''display'', Str ''set -euo pipefail''), (''argv'', Arr [Str ''set'', Str ''-euo'', Str ''pipefail'']), (''role'',
          Str ''standalone''), (''verdict'', Str ''allow''), (''rule'', Str ''allow set builtins''), (''reason'',
            Str (''allowed by 'allow set builtins'' @ [CHR 0x27]))],
        Obj [(''display'', Str ''npm run build''), (''argv'', Arr [Str ''npm'', Str ''run'', Str ''build'']), (''role'',
          Str ''standalone''), (''verdict'', Str ''allow''), (''rule'', Str ''allow npm scripts''), (''reason'',
            Str (''allowed by 'allow npm scripts'' @ [CHR 0x27]))],
        Obj [(''display'', Str ''cat deploy/regions.txt''), (''argv'', Arr [Str ''cat'', Str ''deploy/regions.txt'']), (''role'',
          Str ''substitution''), (''verdict'', Str ''allow''), (''rule'', Str ''allow coreutils''), (''reason'',
            Str (''allowed by 'allow coreutils'' @ [CHR 0x27]))],
        Obj [(''display'', Str ''curl -fsS https://api.acme.dev/$region/healthz''), (''argv'', Arr [Str ''curl'', Str ''-fsS'',
          Str ''https://api.acme.dev/$region/healthz'']), (''role'', Str ''loop_body''), (''verdict'', Str ''allow''), (''rule'',
            Str ''allow health-check probes''), (''reason'', Str (''allowed by 'allow health-check probes'' @ [CHR 0x27]))],
        Obj [(''display'', Str ''kubectl --context $region apply -f deploy/manifest.yaml''), (''argv'', Arr [Str ''kubectl'',
          Str ''--context'', Str ''$region'', Str ''apply'', Str ''-f'', Str ''deploy/manifest.yaml'']), (''role'', Str ''loop_body''),
            (''verdict'', Str ''ask''), (''rule'', Str ''ask before applying kubernetes manifests''), (''reason'',
              Str (''needs approval per rule 'ask before applying kubernetes manifests'' @ [CHR 0x27]))],
        Obj [(''display'', Str ''git push origin main --tags''), (''argv'', Arr [Str ''git'', Str ''push'', Str ''origin'', Str ''main'',
          Str ''--tags'']), (''role'', Str ''standalone''), (''verdict'', Str ''ask''), (''rule'', Str ''ask before pushing to a remote''),
            (''reason'', Str (''needs approval per rule 'ask before pushing to a remote'' @ [CHR 0x27]))]])]"

definition payload_tool_mcp :: js where
  "payload_tool_mcp =
     Obj [(''id'', Str ''demo-tool-mcp''),
      (''protocol_version'', Num (Dec False 3 1)),
      (''subject'', Str ''tool''),
      (''harness'', Str ''claude-code''),
      (''session_id'', Str ''9f3c1a2b7e4d''),
      (''cwd'', Str ''/workspace/acme-api''),
      (''current_verdict'', Str ''defer''),
      (''current_reason'', Str (''no rule matched tool `mcp__github__create_issue`'')),
      (''tool'', Obj [(''name'', Str ''mcp__github__create_issue''), (''capability'', Str ''mcp''), (''params'', Obj [(''mcp_server'',
        Str ''github''), (''mcp_tool'', Str ''create_issue'')]), (''raw'', Obj [(''owner'', Str ''acme''), (''repo'', Str ''app''),
          (''title'', Str ''Production is down''), (''body'', Str ''sev1'')])])]"

definition payload_tool_write :: js where
  "payload_tool_write =
     Obj [(''id'', Str ''demo-tool-write''),
      (''protocol_version'', Num (Dec False 3 1)),
      (''subject'', Str ''tool''),
      (''harness'', Str ''codex''),
      (''cwd'', Str ''/workspace/acme-api''),
      (''current_verdict'', Str ''defer''),
      (''current_reason'', Str (''no rule matched tool `write`'')),
      (''tool'', Obj [(''name'', Str ''write''), (''capability'', Str ''write''), (''params'', Obj [(''path'',
        Str ''/repo/.github/workflows/deploy.yml'')]), (''raw'', Obj [(''path'', Str ''/repo/.github/workflows/deploy.yml'')])])]"

definition brokerRequestPayloads :: "js list" where
  "brokerRequestPayloads = [payload_oneoff, payload_release_script, payload_tool_mcp, payload_tool_write]"

section \<open>The long scripts\<close>

definition long_fragment :: "nat \<Rightarrow> fragment" where
  "long_fragment i =
     \<lparr>fr_display = ''step-'' @ digits i @ '' --flag value-'' @ digits i,
      fr_argv = [''step'', digits i, ''--flag'', ''value-'' @ digits i],
      fr_role = ''standalone'',
      fr_verdict = (if i mod 16 = 0 then Ask else Allow),
      fr_rule = Some (if i mod 16 = 0 then ''ask rule '' @ digits (i mod 4) else ''allow rule '' @ digits (i mod 8)),
      fr_reason = ''synthetic''\<rparr>"

definition longScript :: "nat \<Rightarrow> approval_request" where
  "longScript n =
     (let frags = map long_fragment [0..<n]
      in \<lparr>rq_id = ''heap-long'', rq_protocolVersion = Dec False 3 1, rq_harness = ''codex'',
          rq_sessionId = Some ''9f3c1a2b7e4d'', rq_cwd = ''/workspace/acme-api'',
          rq_currentVerdict = Ask, rq_currentReason = ''synthetic'',
          rq_subject = Shell (join [newline] (map fr_display frags)) frags\<rparr>)"

text \<open>The benchmarks of \<^verbatim>\<open>decision.bench.ts\<close> use the same script under another name, and the fixtures
  by subject.\<close>

definition bench_longScript :: "nat \<Rightarrow> approval_request" where
  "bench_longScript n = (longScript n)\<lparr>rq_id := ''bench-long''\<rparr>"

definition shellRequests :: "approval_request list" where
  "shellRequests = filter isShellRequest demoRequests"

definition toolRequests :: "approval_request list" where
  "toolRequests = filter isToolRequest demoRequests"

section \<open>Properties\<close>

lemma payload_oneoff_normalizes: "normalizeBrokerRequest uuid m payload_oneoff = Some (demo_oneoff, m)"
  unfolding payload_oneoff_def demo_oneoff_def by code_simp

lemma payload_release_script_normalizes:
  "normalizeBrokerRequest uuid m payload_release_script = Some (demo_release_script, m)"
  unfolding payload_release_script_def demo_release_script_def by code_simp

lemma payload_tool_mcp_normalizes: "normalizeBrokerRequest uuid m payload_tool_mcp = Some (demo_tool_mcp, m)"
  unfolding payload_tool_mcp_def demo_tool_mcp_def by code_simp

lemma payload_tool_write_normalizes: "normalizeBrokerRequest uuid m payload_tool_write = Some (demo_tool_write, m)"
  unfolding payload_tool_write_def demo_tool_write_def by code_simp

lemmas payloads_normalize =
  payload_oneoff_normalizes payload_release_script_normalizes payload_tool_mcp_normalizes payload_tool_write_normalizes

lemma fixtures_agree: "applySnapshot uuid n (Arr brokerRequestPayloads) = Some (demoRequests, n)"
  by (simp add: applySnapshot_def brokerRequestPayloads_def demoRequests_def payloads_normalize)

text \<open>A long script is shown fragment by fragment, and whatever its length, its flagged fragments
  (every sixteenth) are all flagged by one rule.\<close>

lemma long_fragment_shown:
  "js_trim (fr_display (long_fragment i)) \<noteq> [] \<and> newline \<notin> set (fr_display (long_fragment i))"
proof
  have "hd (fr_display (long_fragment i)) = CHR ''s''" by (simp add: long_fragment_def)
  then have "CHR ''s'' \<in> set (js_trim (fr_display (long_fragment i)))"
    by (simp add: long_fragment_def js_trim_def js_space_def dropWhile_append3)
  then show "js_trim (fr_display (long_fragment i)) \<noteq> []" by auto
  show "newline \<notin> set (fr_display (long_fragment i))"
    using digits_are_digits [of i] by (auto simp: long_fragment_def newline_def list_all_iff is_digit_def)
qed

lemma long_script_rules: "triggeredRules (map long_fragment [0..<n]) = (if n = 0 then [] else [''ask rule 0''])"
proof (cases n)
  case 0
  then show ?thesis by (simp add: triggeredRules_def flaggedFragments_def)
next
  case (Suc m)
  have digit: "digits 0 = ''0''" by code_simp
  define fs where "fs = map long_fragment [0..<n]"
  have ask: "fr_rule f = Some ''ask rule 0''" if f: "fr_verdict f \<noteq> Allow" "f \<in> set fs" for f
  proof -
    obtain i where i: "f = long_fragment i" using f(2) by (auto simp: fs_def)
    then have "i mod 16 = 0" using f(1) by (auto simp: long_fragment_def split: if_splits)
    then have "i mod 4 = 0" by presburger
    with \<open>i mod 16 = 0\<close> show ?thesis by (simp add: i long_fragment_def digit)
  qed
  have "0 \<in> set [0..<n]" using Suc by auto
  then have first: "long_fragment 0 \<in> set fs" unfolding fs_def set_map by (rule imageI)
  have flagged: "fr_verdict (long_fragment 0) \<noteq> Allow" by (simp add: long_fragment_def)
  have "flaggedFragments fs = filter (\<lambda>f. fr_verdict f \<noteq> Allow) fs"
    using first flagged by (auto simp: flaggedFragments_def Let_def filter_empty_conv)
  then have "set (triggeredRules fs) = {''ask rule 0''}"
    unfolding triggered_rules_exact [THEN conjunct2] using ask first flagged by auto
  moreover have "distinct (triggeredRules fs)" by (rule triggered_rules_exact [THEN conjunct1])
  ultimately have "triggeredRules fs = [''ask rule 0'']"
    by (cases "triggeredRules fs") (auto simp: subset_singleton_iff)
  then show ?thesis using Suc by (simp add: fs_def)
qed

lemma long_script_lines:
  assumes "n \<noteq> 0" "rq_subject (longScript n) = Shell command frags"
  shows "scriptLines command frags = map (\<lambda>f. \<lparr>sl_text = fr_display f, sl_fragment = Some f\<rparr>) frags"
proof -
  have "frags = map long_fragment [0..<n]" "command = join [newline] (map fr_display frags)"
    using assms(2) by (auto simp: longScript_def Let_def)
  moreover from this have "frags \<noteq> []" using assms(1) by simp
  ultimately show ?thesis using script_lines_of_fragments [of frags] long_fragment_shown by auto
qed

end
