(* ===== verification/HeapFootprint.thy ===== *)
theory HeapFootprint
  imports Fixtures JsonParse
begin

text \<open>
  The memory report of the web app, \<^verbatim>\<open>apps/web/src/perf/heap.perf.ts\<close>: the walk over an object graph
  that counts what is reachable, and the session that fills an inbox and empties it again.

  The heap of the engine is a list of nodes and an address an index into it; an object's keys are
  not counted, so a node keeps the values of its members (\<open>Object.values\<close>) only. Numbers,
  booleans, null, undefined and functions are \<open>Plain\<close>.
\<close>

section \<open>The object graph\<close>

datatype heap_value = Text string | Plain | Ref nat
datatype heap_node = is_ArrayNode: ArrayNode (node_values: "heap_value list") | is_ObjectNode: ObjectNode (node_values: "heap_value list")

type_synonym heap = "heap_node list"

inductive reaches :: "heap \<Rightarrow> heap_value \<Rightarrow> nat \<Rightarrow> bool" for h where
  root: "a < length h \<Longrightarrow> reaches h (Ref a) a"
| member: "reaches h v a \<Longrightarrow> Ref b \<in> set (node_values (h ! a)) \<Longrightarrow> b < length h \<Longrightarrow> reaches h v b"

section \<open>The walk\<close>

record tally =
  objects :: nat
  arrays :: nat
  strings :: nat
  stringChars :: nat

definition emptyFootprint :: tally where
  "emptyFootprint = \<lparr>objects = 0, arrays = 0, strings = 0, stringChars = 0\<rparr>"

definition addFootprint :: "tally \<Rightarrow> tally \<Rightarrow> tally" where
  "addFootprint a b =
     \<lparr>objects = objects a + objects b, arrays = arrays a + arrays b,
      strings = strings a + strings b, stringChars = stringChars a + stringChars b\<rparr>"

text \<open>\<open>visit\<close>: the children to push, if any, with the tally and the nodes seen.\<close>

fun visit_value :: "heap \<Rightarrow> heap_value \<Rightarrow> tally \<Rightarrow> nat list \<Rightarrow> heap_value list option \<times> tally \<times> nat list" where
  "visit_value h (Text s) fp seen =
     (None, fp\<lparr>strings := strings fp + 1, stringChars := stringChars fp + length s\<rparr>, seen)"
| "visit_value h Plain fp seen = (None, fp, seen)"
| "visit_value h (Ref a) fp seen =
     (if a \<in> set seen \<or> \<not> a < length h then (None, fp, seen)
      else
        (case h ! a of
           ArrayNode vs \<Rightarrow> (Some vs, fp\<lparr>arrays := arrays fp + 1\<rparr>, a # seen)
         | ObjectNode vs \<Rightarrow> (Some vs, fp\<lparr>objects := objects fp + 1\<rparr>, a # seen)))"

text \<open>The loop of \<open>footprint\<close>; the top of the stack, its last element, comes first.\<close>

definition unseen :: "heap \<Rightarrow> nat list \<Rightarrow> nat" where
  "unseen h seen = card ({..<length h} - set seen)"

lemma visit_pushes:
  "visit_value h v fp seen = (Some vs, fp', seen') \<Longrightarrow> \<exists>a. v = Ref a \<and> a < length h \<and> a \<notin> set seen \<and> seen' = a # seen \<and>
     vs = node_values (h ! a)"
  by (cases v) (auto split: if_splits heap_node.splits)

lemma visit_leaf: "visit_value h v fp seen = (None, fp', seen') \<Longrightarrow> seen' = seen"
  by (cases v) (auto split: if_splits heap_node.splits)

lemma unseen_less: "a < length h \<Longrightarrow> a \<notin> set seen \<Longrightarrow> unseen h (a # seen) < unseen h seen"
  unfolding unseen_def by (rule psubset_card_mono) auto

function (sequential) walk :: "heap \<Rightarrow> heap_value list \<Rightarrow> tally \<Rightarrow> nat list \<Rightarrow> tally \<times> nat list" where
  "walk h [] fp seen = (fp, seen)"
| "walk h (v # stack) fp seen =
     (case visit_value h v fp seen of
        (None, fp', seen') \<Rightarrow> walk h stack fp' seen'
      | (Some children, fp', seen') \<Rightarrow> walk h (rev children @ stack) fp' seen')"
  by pat_completeness auto
termination
  by (relation "measures [\<lambda>(h, stack, fp, seen). unseen h seen, \<lambda>(h, stack, fp, seen). length stack]")
    (auto dest!: visit_pushes visit_leaf simp: unseen_less dest: sym)

definition footprint :: "heap \<Rightarrow> heap_value \<Rightarrow> tally" where
  "footprint h root = fst (walk h [root] emptyFootprint [])"

section \<open>What the walk counts\<close>

fun text_count :: "heap_value \<Rightarrow> nat" where
  "text_count (Text s) = 1"
| "text_count v = 0"

fun text_chars :: "heap_value \<Rightarrow> nat" where
  "text_chars (Text s) = length s"
| "text_chars v = 0"

text \<open>The tally of a set of nodes and a list of values still on the stack.\<close>

definition counted :: "heap \<Rightarrow> nat list \<Rightarrow> (heap_value \<Rightarrow> nat) \<Rightarrow> nat" where
  "counted h seen f = sum_list (map (\<lambda>a. sum_list (map f (node_values (h ! a)))) seen)"

definition known :: "heap \<Rightarrow> heap_value \<Rightarrow> nat list \<Rightarrow> heap_value set" where
  "known h root seen = insert root (\<Union>a \<in> set seen. set (node_values (h ! a)))"

definition walk_inv :: "heap \<Rightarrow> heap_value \<Rightarrow> heap_value list \<Rightarrow> tally \<Rightarrow> nat list \<Rightarrow> bool" where
  "walk_inv h root stack fp seen \<longleftrightarrow>
     distinct seen \<and> set seen \<subseteq> Collect (reaches h root) \<and>
     (\<forall>a. Ref a \<in> set stack \<longrightarrow> a < length h \<longrightarrow> reaches h root a) \<and>
     (\<forall>a. Ref a \<in> known h root seen \<longrightarrow> a < length h \<longrightarrow> a \<in> set seen \<or> Ref a \<in> set stack) \<and>
     objects fp = length (filter (\<lambda>a. is_ObjectNode (h ! a)) seen) \<and>
     arrays fp = length (filter (\<lambda>a. is_ArrayNode (h ! a)) seen) \<and>
     strings fp + sum_list (map text_count stack) = text_count root + counted h seen text_count \<and>
     stringChars fp + sum_list (map text_chars stack) = text_chars root + counted h seen text_chars"

lemma walk_inv_start: "walk_inv h root [root] emptyFootprint []"
  by (auto simp: walk_inv_def known_def emptyFootprint_def counted_def intro: reaches.root)

lemma walk_inv_leaf:
  assumes inv: "walk_inv h root (v # stack) fp seen" and v: "visit_value h v fp seen = (None, fp', seen')"
  shows "walk_inv h root stack fp' seen'"
proof -
  have seen: "seen' = seen" by (rule visit_leaf [OF v])
  have "a \<in> set seen" if "v = Ref a" "a < length h" for a
    using v that by (auto split: if_splits heap_node.splits)
  then have pend: "\<forall>a. Ref a \<in> known h root seen \<longrightarrow> a < length h \<longrightarrow> a \<in> set seen \<or> Ref a \<in> set stack"
    using inv unfolding walk_inv_def by (metis set_ConsD)
  have fp: "objects fp' = objects fp" "arrays fp' = arrays fp" "strings fp' = strings fp + text_count v"
    "stringChars fp' = stringChars fp + text_chars v"
    using v by (cases v; auto split: if_splits heap_node.splits)+
  show ?thesis
    unfolding walk_inv_def seen using inv [unfolded walk_inv_def] pend by (simp add: fp)
qed

lemma walk_inv_node:
  assumes inv: "walk_inv h root (v # stack) fp seen" and v: "visit_value h v fp seen = (Some vs, fp', seen')"
  shows "walk_inv h root (rev vs @ stack) fp' seen'"
proof -
  obtain a where a: "v = Ref a" "a < length h" "a \<notin> set seen" "seen' = a # seen" "vs = node_values (h ! a)"
    using visit_pushes [OF v] by blast
  have reach: "reaches h root a" using inv a(1,2) by (simp add: walk_inv_def)
  have fp: "objects fp' = objects fp + (if is_ObjectNode (h ! a) then 1 else 0)"
    "arrays fp' = arrays fp + (if is_ArrayNode (h ! a) then 1 else 0)"
    "strings fp' = strings fp" "stringChars fp' = stringChars fp"
    using v a(1,2,3) by (auto split: heap_node.splits)
  have pend: "b \<in> set seen' \<or> Ref b \<in> set (rev vs @ stack)" if "Ref b \<in> known h root seen'" "b < length h" for b
  proof -
    have "Ref b \<in> known h root seen \<or> Ref b \<in> set vs" using that(1) a(4,5) by (auto simp: known_def)
    then have "b \<in> set seen \<or> Ref b \<in> set (v # stack) \<or> Ref b \<in> set vs"
      using inv that(2) unfolding walk_inv_def by blast
    then show ?thesis using a(1,4) by auto
  qed
  have ok: "reaches h root b" if "Ref b \<in> set (rev vs @ stack)" "b < length h" for b
    using that inv member [OF reach, of b] a(5) unfolding walk_inv_def by auto
  have count: "counted h seen' f = sum_list (map f vs) + counted h seen f"
    "sum_list (map f (rev vs @ stack)) = sum_list (map f vs) + sum_list (map f stack)" for f
    by (simp_all add: a(4,5) counted_def rev_map [symmetric] sum_list_rev)
  show ?thesis
    unfolding walk_inv_def count using inv [unfolded walk_inv_def] pend ok reach a(1,3)
    by (simp add: fp a(4)) 
qed

lemma walk_inv_end:
  "walk_inv h root stack fp seen \<Longrightarrow> walk h stack fp seen = (fp', seen') \<Longrightarrow> walk_inv h root [] fp' seen'"
proof (induction h stack fp seen arbitrary: rule: walk.induct)
  case (2 h v stack fp seen)
  obtain children fp1 seen1 where visit: "visit_value h v fp seen = (children, fp1, seen1)"
    by (cases "visit_value h v fp seen") auto
  show ?case
  proof (cases children)
    case None
    then show ?thesis using 2 visit walk_inv_leaf [OF "2.prems"(1)] by auto
  next
    case (Some vs)
    then show ?thesis using 2 visit walk_inv_node [OF "2.prems"(1)] by auto
  qed
qed simp

lemma walk_inv_done:
  assumes "walk_inv h root [] fp seen"
  shows "distinct seen" "set seen \<subseteq> Collect (reaches h root)"
    "Ref a \<in> known h root seen \<Longrightarrow> a < length h \<Longrightarrow> a \<in> set seen"
    "objects fp = length (filter (\<lambda>a. is_ObjectNode (h ! a)) seen)"
    "arrays fp = length (filter (\<lambda>a. is_ArrayNode (h ! a)) seen)"
    "strings fp = text_count root + counted h seen text_count"
    "stringChars fp = text_chars root + counted h seen text_chars"
  using assms unfolding walk_inv_def by auto

lemma closed_reaches:
  "reaches h root a \<Longrightarrow> walk_inv h root [] fp seen \<Longrightarrow> a \<in> set seen"
proof (induction rule: reaches.induct)
  case (root a)
  then show ?case using walk_inv_done(3) [of h "Ref a" fp seen a] by (simp add: known_def)
next
  case (member v a b)
  then show ?case using walk_inv_done(3) [of h v fp seen b] by (auto simp: known_def)
qed

lemma reaches_less: "reaches h v a \<Longrightarrow> a < length h"
  by (induction rule: reaches.induct) auto

text \<open>
  C33. The footprint of a value is exactly what it retains: every object and array that can be
  reached from it is counted once, however often it is shared and even if the graph is cyclic, and
  every string is counted, with its length, once for each place that holds it. The walk always ends.
\<close>

theorem footprint_counts_reachable:
  "footprint h root =
     \<lparr>objects = card {a. reaches h root a \<and> is_ObjectNode (h ! a)},
      arrays = card {a. reaches h root a \<and> is_ArrayNode (h ! a)},
      strings = text_count root + (\<Sum>a | reaches h root a. sum_list (map text_count (node_values (h ! a)))),
      stringChars = text_chars root + (\<Sum>a | reaches h root a. sum_list (map text_chars (node_values (h ! a))))\<rparr>"
proof -
  obtain fp seen where w: "walk h [root] emptyFootprint [] = (fp, seen)"
    by (cases "walk h [root] emptyFootprint []")
  note inv = walk_inv_end [OF walk_inv_start w]
  note final = walk_inv_done [OF inv]
  have seen: "set seen = Collect (reaches h root)"
    using final(2) closed_reaches [OF _ inv] by auto
  note d = final(1)
  have count: "length (filter P seen) = card {a. reaches h root a \<and> P a}" for P
  proof -
    have "set (filter P seen) = {a. reaches h root a \<and> P a}" unfolding set_filter seen by simp
    then show ?thesis using distinct_card [OF distinct_filter [OF d, of P]] by simp
  qed
  have sum: "counted h seen f = (\<Sum>a | reaches h root a. sum_list (map f (node_values (h ! a))))" for f
    unfolding counted_def seen [symmetric] by (rule sum.distinct_set_conv_list [OF d, symmetric])
  have "fp = \<lparr>objects = objects fp, arrays = arrays fp, strings = strings fp, stringChars = stringChars fp\<rparr>"
    by simp
  then show ?thesis unfolding footprint_def w fst_conv final(4-7) count sum .
qed

section \<open>The session\<close>

text \<open>The announcement of a clone: \<open>{ ...base, id: `${String(base.id)}-${i}` }\<close>.\<close>

definition clone_payload :: "js \<Rightarrow> nat \<Rightarrow> js option" where
  "clone_payload base i =
     map_option (\<lambda>s. Obj (put_member ''id'' (Str (s @ ''-'' @ digits i)) (make_object (entries base))))
       (js_String (at_key base ''id''))"

definition announce_clone ::
    "(nat \<Rightarrow> string) \<Rightarrow> approval_request list \<times> nat \<Rightarrow> nat \<Rightarrow> (approval_request list \<times> nat) option" where
  "announce_clone uuid st i =
     Option.bind (clone_payload (brokerRequestPayloads ! (i mod length brokerRequestPayloads)) i)
       (applyAdded uuid (snd st) (fst st))"

fun announce_clones ::
    "(nat \<Rightarrow> string) \<Rightarrow> approval_request list \<times> nat \<Rightarrow> nat list \<Rightarrow> (approval_request list \<times> nat) option" where
  "announce_clones uuid st [] = Some st"
| "announce_clones uuid st (i # js) = Option.bind (announce_clone uuid st i) (\<lambda>st'. announce_clones uuid st' js)"

definition resolve_all :: "approval_request list \<Rightarrow> approval_request list" where
  "resolve_all inbox = foldl (\<lambda>current request. applyResolved current (Str (rq_id request))) inbox inbox"

record inbox_session =
  snapshotCount :: nat
  heldCount :: nat
  drainedCount :: nat

definition heap_session :: "(nat \<Rightarrow> string) \<Rightarrow> nat \<Rightarrow> nat \<Rightarrow> inbox_session option" where
  "heap_session uuid n added =
     Option.bind (applySnapshot uuid n (Arr brokerRequestPayloads)) (\<lambda>st.
     Option.bind (announce_clones uuid st [0..<added]) (\<lambda>held.
     Some \<lparr>snapshotCount = length (fst st), heldCount = length (fst held),
           drainedCount = length (resolve_all (fst held))\<rparr>))"

lemma resolve_list:
  "foldl (\<lambda>current request. applyResolved current (Str (rq_id request))) inbox rs =
     filter (\<lambda>r. rq_id r \<notin> rq_id ` set rs) inbox"
  by (induction rs arbitrary: inbox) (auto simp: applyResolved_def intro: filter_cong)

lemma resolve_all_Nil: "resolve_all inbox = []"
  by (simp add: resolve_all_def resolve_list filter_empty_conv)

subsection \<open>The clones are new\<close>

definition clone_request :: "nat \<Rightarrow> approval_request" where
  "clone_request i =
     (let r = demoRequests ! (i mod length brokerRequestPayloads) in r\<lparr>rq_id := rq_id r @ ''-'' @ digits i\<rparr>)"

lemma renamed_oneoff:
  "normalizeBrokerRequest uuid n (Obj (put_member ''id'' (Str x) (make_object (entries payload_oneoff)))) =
     Some (demo_oneoff\<lparr>rq_id := x\<rparr>, n)"
  unfolding payload_oneoff_def demo_oneoff_def by code_simp

lemma renamed_release_script:
  "normalizeBrokerRequest uuid n (Obj (put_member ''id'' (Str x) (make_object (entries payload_release_script)))) =
     Some (demo_release_script\<lparr>rq_id := x\<rparr>, n)"
  unfolding payload_release_script_def demo_release_script_def by code_simp

lemma renamed_tool_mcp:
  "normalizeBrokerRequest uuid n (Obj (put_member ''id'' (Str x) (make_object (entries payload_tool_mcp)))) =
     Some (demo_tool_mcp\<lparr>rq_id := x\<rparr>, n)"
  unfolding payload_tool_mcp_def demo_tool_mcp_def by code_simp

lemma renamed_tool_write:
  "normalizeBrokerRequest uuid n (Obj (put_member ''id'' (Str x) (make_object (entries payload_tool_write)))) =
     Some (demo_tool_write\<lparr>rq_id := x\<rparr>, n)"
  unfolding payload_tool_write_def demo_tool_write_def by code_simp

lemma fixture_cases: "k < length brokerRequestPayloads \<Longrightarrow> k \<in> {0, 1, 2, 3}"
  by (auto simp: brokerRequestPayloads_def)

lemma fixture_renamed:
  assumes "k < length brokerRequestPayloads"
  shows "normalizeBrokerRequest uuid n (Obj (put_member ''id'' (Str x) (make_object (entries (brokerRequestPayloads ! k))))) =
      Some ((demoRequests ! k)\<lparr>rq_id := x\<rparr>, n)"
  using fixture_cases [OF assms]
  by (auto simp: brokerRequestPayloads_def demoRequests_def numeral_2_eq_2 numeral_3_eq_3
      renamed_oneoff renamed_release_script renamed_tool_mcp renamed_tool_write)

lemma fixture_ids:
  assumes "k < length brokerRequestPayloads"
  shows "js_String (at_key (brokerRequestPayloads ! k) ''id'') = Some (rq_id (demoRequests ! k))"
proof -
  have "map (\<lambda>v. js_String (at_key v ''id'')) brokerRequestPayloads = map (\<lambda>r. Some (rq_id r)) demoRequests"
    by code_simp
  then have "map (\<lambda>v. js_String (at_key v ''id'')) brokerRequestPayloads ! k = map (\<lambda>r. Some (rq_id r)) demoRequests ! k"
    by simp
  moreover have "length demoRequests = length brokerRequestPayloads" by (simp add: brokerRequestPayloads_def demoRequests_def)
  ultimately show ?thesis using assms by simp
qed

lemma announce_clone_adds: "announce_clone uuid (inbox, n) i = Some (add_request inbox (clone_request i), n)"
proof -
  let ?k = "i mod length brokerRequestPayloads"
  have "?k < length brokerRequestPayloads" by (simp add: brokerRequestPayloads_def)
  then show ?thesis
    by (simp add: announce_clone_def clone_payload_def clone_request_def Let_def fixture_ids applyAdded_def fixture_renamed)
qed

lemma announce_clones_add:
  "announce_clones uuid (inbox, n) js = Some (foldl add_request inbox (map clone_request js), n)"
  by (induction js arbitrary: inbox) (simp_all add: announce_clone_adds)

lemma add_requests_new:
  "distinct (map rq_id (inbox @ rs)) \<Longrightarrow> foldl add_request inbox rs = inbox @ rs"
proof (induction rs arbitrary: inbox)
  case (Cons r rs)
  then have "rq_id r \<notin> rq_id ` set inbox" by simp
  then have "\<not> list_ex (\<lambda>x. rq_id x = rq_id r) inbox" unfolding list_ex_iff by (metis imageI)
  then have "add_request inbox r = inbox @ [r]" by (simp add: add_request_def)
  then show ?case using Cons by simp
qed simp

text \<open>The digits an identifier ends in tell the clones apart, and the clones from the snapshot.\<close>

definition end_digits :: "string \<Rightarrow> string" where
  "end_digits s = rev (takeWhile is_digit (rev s))"

lemma clone_end_digits: "end_digits (rq_id (clone_request i)) = digits i"
proof -
  have "\<forall>c \<in> set (rev (digits i)). is_digit c" using digits_are_digits [of i] by (simp add: list_all_iff)
  moreover have "\<not> is_digit (CHR ''-'')" by code_simp
  ultimately have "takeWhile is_digit (rev (digits i) @ CHR ''-'' # s) = rev (digits i)" for s
    by (subst takeWhile_append2) auto
  then show ?thesis by (simp add: clone_request_def Let_def end_digits_def)
qed

lemma demo_end_digits: "r \<in> set demoRequests \<Longrightarrow> end_digits (rq_id r) = []"
proof -
  have "map (\<lambda>r. end_digits (rq_id r)) demoRequests = [[], [], [], []]" by code_simp
  then show "r \<in> set demoRequests \<Longrightarrow> end_digits (rq_id r) = []" by (auto simp: demoRequests_def)
qed

lemma session_distinct: "distinct (map rq_id (demoRequests @ map clone_request [0..<added]))"
proof -
  have "inj_on (\<lambda>i. rq_id (clone_request i)) A" for A
    by (rule inj_onI) (metis clone_end_digits parse_digits_digits)
  then have "distinct (map rq_id (map clone_request [0..<added]))"
    by (simp add: distinct_map comp_def)
  moreover have "distinct (map rq_id demoRequests)" by code_simp
  moreover have "rq_id r \<noteq> rq_id (clone_request i)" if "r \<in> set demoRequests" for r i
    using demo_end_digits [OF that] clone_end_digits [of i] digits_are_digits [of i] by auto
  ultimately show ?thesis by (auto simp: distinct_append simp del: distinct_map)
qed

text \<open>
  The session the report measures: the snapshot of the fixtures is taken as it is, each of the
  announced clones is held as a request of its own, and resolving the held requests one by one
  releases every one of them, whatever the number of clones.
\<close>

lemma session_releases_all:
  "heap_session uuid n added = Some \<lparr>snapshotCount = 4, heldCount = 4 + added, drainedCount = 0\<rparr>"
proof -
  have "length demoRequests = 4" by (simp add: demoRequests_def)
  then show ?thesis
    by (simp add: heap_session_def fixtures_agree announce_clones_add add_requests_new session_distinct
        resolve_all_Nil del: map_append map_map)
qed

end
