(* ===== verification/FileTree.thy ===== *)
theory FileTree
  imports NodePath "HOL-Library.AList" "HOL-Library.Sublist"
begin

text \<open>
  The part of \<open>node:fs\<close> the staging scripts call, on a tree of directories and files. A path is
  resolved against the working directory to a list of names. There are no symbolic links, and an
  operation fails for what the tree shows: a missing entry, or a file where a directory is meant.
  \<open>None\<close> is the exception.
\<close>

datatype fs_node = File (file_content: string) (file_mode: nat) | Dir (dir_entries: "(string \<times> fs_node) list")

section \<open>Operations\<close>

fun at_path :: "fs_node \<Rightarrow> string list \<Rightarrow> fs_node option" where
  "at_path t [] = Some t"
| "at_path (File b m) (n # p) = None"
| "at_path (Dir es) (n # p) = (case map_of es n of None \<Rightarrow> None | Some t \<Rightarrow> at_path t p)"

definition exists_sync :: "fs_node \<Rightarrow> string list \<Rightarrow> bool" where
  "exists_sync t p \<longleftrightarrow> at_path t p \<noteq> None"

definition readdir_sync :: "fs_node \<Rightarrow> string list \<Rightarrow> (string \<times> fs_node) list option" where
  "readdir_sync t p = (case at_path t p of Some (Dir es) \<Rightarrow> Some es | _ \<Rightarrow> None)"

definition read_file_sync :: "fs_node \<Rightarrow> string list \<Rightarrow> string option" where
  "read_file_sync t p = (case at_path t p of Some (File b m) \<Rightarrow> Some b | _ \<Rightarrow> None)"

text \<open>Putting a node at a path whose directory exists, in place of what is there.\<close>

fun put_node :: "fs_node \<Rightarrow> string list \<Rightarrow> fs_node \<Rightarrow> fs_node option" where
  "put_node t [] v = Some v"
| "put_node (File b m) (n # p) v = None"
| "put_node (Dir es) (n # p) v =
     (case map_of es n of
        None \<Rightarrow> if p = [] then Some (Dir (AList.update n v es)) else None
      | Some t \<Rightarrow> map_option (\<lambda>t'. Dir (AList.update n t' es)) (put_node t p v))"

text \<open>A new file has the default mode; an old one keeps its own.\<close>

definition default_mode :: nat where
  "default_mode = 420"

definition write_file_sync :: "fs_node \<Rightarrow> string list \<Rightarrow> string \<Rightarrow> fs_node option" where
  "write_file_sync t p b =
     (case at_path t p of
        Some (Dir es) \<Rightarrow> None
      | Some (File b' m) \<Rightarrow> put_node t p (File b m)
      | None \<Rightarrow> put_node t p (File b default_mode))"

definition chmod_sync :: "fs_node \<Rightarrow> string list \<Rightarrow> nat \<Rightarrow> fs_node option" where
  "chmod_sync t p mode =
     (case at_path t p of
        Some (File b m) \<Rightarrow> put_node t p (File b mode)
      | Some (Dir es) \<Rightarrow> Some t
      | None \<Rightarrow> None)"

text \<open>\<open>rmSync\<close> with \<open>force\<close> and \<open>recursive\<close>: what is not there is left alone. A path that leads
  through a file is left alone too; what the scripts do next at that path fails.\<close>

fun rm_sync :: "fs_node \<Rightarrow> string list \<Rightarrow> fs_node" where
  "rm_sync t [] = t"
| "rm_sync (File b m) (n # p) = File b m"
| "rm_sync (Dir es) (n # p) =
     (case map_of es n of
        None \<Rightarrow> Dir es
      | Some t \<Rightarrow> if p = [] then Dir (AList.delete n es) else Dir (AList.update n (rm_sync t p) es))"

text \<open>\<open>mkdirSync\<close> with \<open>recursive\<close>.\<close>

fun fresh_dirs :: "string list \<Rightarrow> fs_node" where
  "fresh_dirs [] = Dir []"
| "fresh_dirs (n # p) = Dir [(n, fresh_dirs p)]"

fun mkdir_sync :: "fs_node \<Rightarrow> string list \<Rightarrow> fs_node option" where
  "mkdir_sync (File b m) p = None"
| "mkdir_sync (Dir es) [] = Some (Dir es)"
| "mkdir_sync (Dir es) (n # p) =
     (case map_of es n of
        None \<Rightarrow> Some (Dir (AList.update n (fresh_dirs p) es))
      | Some t \<Rightarrow> map_option (\<lambda>t'. Dir (AList.update n t' es)) (mkdir_sync t p))"

text \<open>\<open>cpSync\<close> of a file into a directory that exists, where no directory has its name: content and
  mode.\<close>

definition cp_file_sync :: "fs_node \<Rightarrow> string list \<Rightarrow> string list \<Rightarrow> fs_node option" where
  "cp_file_sync t src dst =
     (case (at_path t src, at_path t dst) of
        (Some (File b m), Some (Dir es)) \<Rightarrow> None
      | (Some (File b m), _) \<Rightarrow> if src = dst then None else put_node t dst (File b m)
      | _ \<Rightarrow> None)"

text \<open>\<open>cpSync\<close> with \<open>recursive\<close> into an empty directory that is not inside the source.\<close>

definition cp_tree_sync :: "fs_node \<Rightarrow> string list \<Rightarrow> string list \<Rightarrow> fs_node option" where
  "cp_tree_sync t src dst =
     (if prefix src dst then None
      else
        (case at_path t src of
           Some (Dir es) \<Rightarrow> put_node t dst (Dir es)
         | _ \<Rightarrow> None))"

section \<open>What an operation changes\<close>

named_theorems frame \<open>an operation leaves what is beside its path as it was\<close>

lemma at_path_append: "at_path t (p @ q) = Option.bind (at_path t p) (\<lambda>t'. at_path t' q)"
  by (induction t p rule: at_path.induct) (auto split: option.splits)

lemma at_put_same: "put_node t p v = Some t' \<Longrightarrow> at_path t' p = Some v"
  by (induction t p v arbitrary: t' rule: put_node.induct) (auto simp: update_conv' split: option.splits if_splits)

lemma at_put_below: "put_node t p v = Some t' \<Longrightarrow> at_path t' (p @ q) = at_path v q"
  by (simp add: at_path_append at_put_same)

lemma parallel_Cons: "(n # p) \<parallel> (k # q) \<longleftrightarrow> n \<noteq> k \<or> p \<parallel> q"
  by (auto simp: parallel_def)

lemma at_put_other [frame]:
  "put_node t p v = Some t' \<Longrightarrow> p \<parallel> q \<Longrightarrow> at_path t' q = at_path t q"
proof (induction t p v arbitrary: t' q rule: put_node.induct)
  case (3 es n p v)
  obtain k q' where q: "q = k # q'" using 3 by (cases q) auto
  show ?case
    using 3 by (auto simp: q parallel_Cons update_conv' split: option.splits if_splits)
qed auto

lemma at_rm_other [frame]: "p \<parallel> q \<Longrightarrow> at_path (rm_sync t p) q = at_path t q"
proof (induction t p arbitrary: q rule: rm_sync.induct)
  case (3 es n p)
  obtain k q' where q: "q = k # q'" using 3 by (cases q) auto
  show ?case
    using 3 by (auto simp: q parallel_Cons update_conv' delete_conv' split: option.splits if_splits)
qed auto

lemma at_fresh_dirs: "at_path (fresh_dirs p) p = Some (Dir [])"
  by (induction p) auto

lemma at_mkdir_same: "mkdir_sync t p = Some t' \<Longrightarrow> at_path t p = None \<Longrightarrow> at_path t' p = Some (Dir [])"
  by (induction t p arbitrary: t' rule: mkdir_sync.induct)
    (auto simp: update_conv' at_fresh_dirs split: option.splits)

lemma at_fresh_other: "p \<parallel> q \<Longrightarrow> at_path (fresh_dirs p) q = None"
proof (induction p arbitrary: q)
  case (Cons n p)
  then show ?case by (cases q) (auto simp: parallel_Cons)
qed simp

lemma at_mkdir_other [frame]: "mkdir_sync t p = Some t' \<Longrightarrow> p \<parallel> q \<Longrightarrow> at_path t' q = at_path t q"
proof (induction t p arbitrary: t' q rule: mkdir_sync.induct)
  case (3 es n p)
  obtain k q' where q: "q = k # q'" using 3 by (cases q) auto
  show ?case
    using 3 by (auto simp: q parallel_Cons update_conv' at_fresh_other split: option.splits if_splits)
qed auto

end
