(* ===== verification/ReleaseStaging.thy ===== *)
theory ReleaseStaging
  imports FileTree Installer MacosPolicy JsonRoundtrip
begin

text \<open>
  The scripts that prepare a release for npm: \<^verbatim>\<open>scripts/stage-npm-package.mjs\<close> copies the native
  binaries into the platform packages, \<^verbatim>\<open>scripts/set-npm-package-version.mjs\<close> stamps the version on the
  plugin's packages, and \<^verbatim>\<open>scripts/stage-web-package.mjs\<close> stamps and fills the package of the web app.

  A script is a function of the file tree, with \<open>Some\<close> error where it throws or exits with a failure;
  what it has changed by then stays changed.
\<close>

section \<open>stage-npm-package.mjs\<close>

record npm_platform =
  pl_pkg :: string
  pl_target :: string
  pl_suffix :: string

definition platforms :: "npm_platform list" where
  "platforms =
     [\<lparr>pl_pkg = ''allowlister-remote-plugin-darwin-arm64'', pl_target = ''darwin-arm64'', pl_suffix = []\<rparr>,
      \<lparr>pl_pkg = ''allowlister-remote-plugin-linux-x64'', pl_target = ''linux-x64'', pl_suffix = []\<rparr>,
      \<lparr>pl_pkg = ''allowlister-remote-plugin-win32-x64'', pl_target = ''win32-x64'', pl_suffix = ''.exe''\<rparr>]"

definition binaries :: "string list" where
  "binaries = [''allowlister-remote-plugin'', ''allowlister-remote-daemon'']"

definition packagesDir :: string where
  "packagesDir = ''packages''"

fun find_nested :: "string \<Rightarrow> fs_node \<Rightarrow> string \<Rightarrow> string \<Rightarrow> (string \<times> fs_node) list \<Rightarrow> string option" where
  "find_nested cwd t root name [] = None"
| "find_nested cwd t root name ((n, e) # es) =
     (case e of
        File b m \<Rightarrow> find_nested cwd t root name es
      | Dir xs \<Rightarrow>
          (let nestedPath = join_path (join_path root n) name
           in if exists_sync t (segs cwd nestedPath) then Some nestedPath
              else find_nested cwd t root name es))"

definition findArtifact :: "string \<Rightarrow> fs_node \<Rightarrow> string \<Rightarrow> string \<Rightarrow> string + string" where
  "findArtifact cwd t root name =
     (let directPath = join_path root name
      in if exists_sync t (segs cwd directPath) then Inr directPath
         else if root = [] then Inl ''ENOENT''
         else
           (case readdir_sync t (segs cwd root) of
              None \<Rightarrow> Inl ''ENOENT''
            | Some es \<Rightarrow>
                (case find_nested cwd t root name es of
                   Some p \<Rightarrow> Inr p
                 | None \<Rightarrow> Inl (''Missing release artifact '' @ name @ '' under '' @ root))))"

definition artifact_name :: "npm_platform \<Rightarrow> string \<Rightarrow> string" where
  "artifact_name pl binary = binary @ ''-'' @ pl_target pl @ pl_suffix pl"

definition binDir :: "npm_platform \<Rightarrow> string" where
  "binDir pl = join_path (join_path packagesDir (pl_pkg pl)) ''bin''"

record staging =
  st_tree :: fs_node
  st_count :: nat

definition stage_binary :: "string \<Rightarrow> string \<Rightarrow> npm_platform \<Rightarrow> string \<Rightarrow> staging \<Rightarrow> staging outcome" where
  "stage_binary cwd artifactsDir pl binary st =
     (case findArtifact cwd (st_tree st) artifactsDir (artifact_name pl binary) of
        Inl e \<Rightarrow> (st, Some e)
      | Inr artifactPath \<Rightarrow>
          (let outputPath = segs cwd (join_path (binDir pl) (binary @ pl_suffix pl))
           in case cp_file_sync (st_tree st) (segs cwd artifactPath) outputPath of
                None \<Rightarrow> (st, Some ''cannot copy'')
              | Some t \<Rightarrow>
                  (if pl_suffix pl \<noteq> ''.exe''
                   then (case chmod_sync t outputPath octal_755 of
                           None \<Rightarrow> (st\<lparr>st_tree := t\<rparr>, Some ''cannot chmod'')
                         | Some t' \<Rightarrow> (st\<lparr>st_tree := t', st_count := st_count st + 1\<rparr>, None))
                   else (st\<lparr>st_tree := t, st_count := st_count st + 1\<rparr>, None))))"

definition stage_platform :: "string \<Rightarrow> string \<Rightarrow> npm_platform \<Rightarrow> staging \<Rightarrow> staging outcome" where
  "stage_platform cwd artifactsDir pl st =
     (let t = rm_sync (st_tree st) (segs cwd (binDir pl))
      in case mkdir_sync t (segs cwd (binDir pl)) of
           None \<Rightarrow> (st\<lparr>st_tree := t\<rparr>, Some ''cannot make the directory'')
         | Some t' \<Rightarrow> for_each (stage_binary cwd artifactsDir pl) binaries (st\<lparr>st_tree := t'\<rparr>))"

definition stage_npm_package :: "string \<Rightarrow> string option \<Rightarrow> fs_node \<Rightarrow> staging outcome" where
  "stage_npm_package cwd arg t =
     (let artifactsDir = (case arg of None \<Rightarrow> ''dist/release-artifacts'' | Some dir \<Rightarrow> dir)
      in for_each (stage_platform cwd artifactsDir) platforms \<lparr>st_tree = t, st_count = 0\<rparr>)"

section \<open>set-npm-package-version.mjs\<close>

text \<open>\<open>/^\d+\.\d+\.\d+(?:[-+][0-9A-Za-z.-]+)?$/\<close>, the version of all three scripts' packages.\<close>

definition semver_char :: "char \<Rightarrow> bool" where
  "semver_char c \<longleftrightarrow> label_char c \<and> c \<noteq> CHR ''_''"

definition semver :: "string \<Rightarrow> bool" where
  "semver s \<longleftrightarrow>
     (case version_core s of
        None \<Rightarrow> False
      | Some [] \<Rightarrow> True
      | Some (c # r) \<Rightarrow> (c = CHR ''-'' \<or> c = CHR ''+'') \<and> r \<noteq> [] \<and> list_all semver_char r)"

definition parent :: string where
  "parent = ''allowlister-remote-plugin''"

definition platformPackages :: "string list" where
  "platformPackages = map pl_pkg platforms"

text \<open>Assigning a member of what was read from JSON: a primitive has none (a TypeError), and the
  members of an array under a name that is no index are not written back.\<close>

fun assign :: "string \<Rightarrow> js \<Rightarrow> js \<Rightarrow> js option" where
  "assign k v (Obj ms) = Some (Obj (put_member k v ms))"
| "assign k v (Arr xs) = Some (Arr xs)"
| "assign k v _ = None"

fun unassign :: "string \<Rightarrow> js \<Rightarrow> js" where
  "unassign k (Obj ms) = Obj (AList.delete k ms)"
| "unassign k v = v"

definition optional_dependencies :: "string \<Rightarrow> js" where
  "optional_dependencies version = Obj (make_object (map (\<lambda>name. (SCOPE @ ''/'' @ name, Str version)) platformPackages))"

definition stamp_manifest :: "string \<Rightarrow> string \<Rightarrow> js \<Rightarrow> js option" where
  "stamp_manifest version dir manifest =
     Option.bind (assign ''version'' (Str version) manifest) (\<lambda>stamped.
       if dir = parent
       then assign ''optionalDependencies'' (optional_dependencies version) (unassign ''//optionalDependencies'' stamped)
       else Some stamped)"

definition manifest_file :: "string \<Rightarrow> string" where
  "manifest_file dir = join_path (join_path packagesDir dir) ''package.json''"

definition stamp_package :: "string \<Rightarrow> string \<Rightarrow> string \<Rightarrow> fs_node \<Rightarrow> fs_node outcome" where
  "stamp_package cwd version dir t =
     (case read_file_sync t (segs cwd (manifest_file dir)) of
        None \<Rightarrow> (t, Some ''ENOENT'')
      | Some text \<Rightarrow>
          (case js_parse text of
             None \<Rightarrow> (t, Some ''SyntaxError'')
           | Some manifest \<Rightarrow>
               (case stamp_manifest version dir manifest of
                  None \<Rightarrow> (t, Some ''TypeError'')
                | Some stamped \<Rightarrow>
                    (case write_file_sync t (segs cwd (manifest_file dir)) (pretty_line stamped) of
                       None \<Rightarrow> (t, Some ''cannot write'')
                     | Some t' \<Rightarrow> (t', None)))))"

definition set_npm_package_version ::
    "string \<Rightarrow> string option \<Rightarrow> string option \<Rightarrow> fs_node \<Rightarrow> fs_node outcome" where
  "set_npm_package_version cwd arg env t =
     (case (case arg of None \<Rightarrow> env | Some v \<Rightarrow> Some v) of
        None \<Rightarrow> (t, Some ''usage'')
      | Some version \<Rightarrow>
          if version = [] \<or> \<not> semver version then (t, Some ''usage'')
          else for_each (stamp_package cwd version) (parent # platformPackages) t)"

section \<open>stage-web-package.mjs\<close>

definition web_package :: string where
  "web_package = ''allowlister-remote-web''"

definition static_dir :: string where
  "static_dir = join_path (join_path packagesDir web_package) ''static''"

definition copy_static :: "string \<Rightarrow> string \<Rightarrow> fs_node \<Rightarrow> fs_node outcome" where
  "copy_static cwd sourceDir t =
     (let cleared = rm_sync t (segs cwd static_dir)
      in case mkdir_sync cleared (segs cwd static_dir) of
           None \<Rightarrow> (cleared, Some ''cannot make the directory'')
         | Some t' \<Rightarrow>
             (case cp_tree_sync t' (segs cwd sourceDir) (segs cwd static_dir) of
                None \<Rightarrow> (t', Some ''cannot copy'')
              | Some t'' \<Rightarrow> (t'', None)))"

definition stage_web_package ::
    "string \<Rightarrow> string option \<Rightarrow> string option \<Rightarrow> fs_node \<Rightarrow> fs_node outcome" where
  "stage_web_package cwd version arg t =
     (let sourceDir = (case arg of None \<Rightarrow> ''apps/web/out'' | Some dir \<Rightarrow> dir)
      in case version of
           None \<Rightarrow> (t, Some ''invalid or missing <version>: undefined'')
         | Some v \<Rightarrow>
             if v = [] \<or> \<not> semver v then (t, Some (''invalid or missing <version>: '' @ json_text (Str v)))
             else if sourceDir = [] \<or> \<not> exists_sync t (segs cwd sourceDir)
             then (t, Some (''source directory does not exist: '' @ sourceDir @ '' (did you build the static export?)''))
             else
               (case stamp_package cwd v web_package t of
                  (t', None) \<Rightarrow> copy_static cwd sourceDir t'
                | r \<Rightarrow> r))"

section \<open>What is staged\<close>

lemma binDir_segs: "pl \<in> set platforms \<Longrightarrow> segs cwd (binDir pl) = segs cwd packagesDir @ [pl_pkg pl, ''bin'']"
  by (auto simp: binDir_def platforms_def segs_join proper_seg_def slash_def)

definition output_path :: "string \<Rightarrow> npm_platform \<Rightarrow> string \<Rightarrow> string list" where
  "output_path cwd pl binary = segs cwd (join_path (binDir pl) (binary @ pl_suffix pl))"

lemma output_path_segs:
  "pl \<in> set platforms \<Longrightarrow> binary \<in> set binaries \<Longrightarrow>
     output_path cwd pl binary = segs cwd (binDir pl) @ [binary @ pl_suffix pl]"
  unfolding output_path_def by (rule segs_join) (auto simp: platforms_def binaries_def proper_seg_def slash_def)

text \<open>The artifacts are beside the packages, so what is staged does not change what is found.\<close>

definition beside :: "string list \<Rightarrow> fs_node \<Rightarrow> fs_node \<Rightarrow> bool" where
  "beside p t t' \<longleftrightarrow> (\<forall>q. p \<parallel> q \<longrightarrow> at_path t' q = at_path t q)"

lemma besideI: "(\<And>q. p \<parallel> q \<Longrightarrow> at_path t' q = at_path t q) \<Longrightarrow> beside p t t'"
  by (simp add: beside_def)

lemma beside_trans: "beside p t t' \<Longrightarrow> beside p t' t'' \<Longrightarrow> beside p t t''"
  by (simp add: beside_def)

lemma beside_below: "beside (p @ q) t t' \<Longrightarrow> beside p t t'"
  unfolding beside_def by (metis append_Nil2 parallel_append)

fun proper_names :: "fs_node \<Rightarrow> bool" where
  "proper_names (File b m) = True"
| "proper_names (Dir es) = (\<forall>e \<in> set es. proper_seg (fst e))"

lemma find_nested_Some:
  "find_nested cwd t root name es = Some p \<Longrightarrow> p \<in> (\<lambda>n. join_path (join_path root n) name) ` fst ` set es"
  by (induction es) (auto simp: Let_def split: fs_node.splits if_splits)

lemma find_nested_cong:
  assumes "\<forall>n \<in> fst ` set es. at_path t' (segs cwd (join_path (join_path root n) name)) =
      at_path t (segs cwd (join_path (join_path root n) name))"
  shows "find_nested cwd t' root name es = find_nested cwd t root name es"
  using assms by (induction es) (auto simp: exists_sync_def Let_def split: fs_node.splits)

lemma found_beside:
  assumes par: "pk \<parallel> segs cwd root" and same: "beside pk t t'" and name: "proper_seg name"
    and names: "\<forall>es. at_path t (segs cwd root) = Some (Dir es) \<longrightarrow> proper_names (Dir es)"
  shows "findArtifact cwd t' root name = findArtifact cwd t root name"
    and "findArtifact cwd t root name = Inr p \<Longrightarrow> at_path t' (segs cwd p) = at_path t (segs cwd p)"
proof -
  have below: "at_path t' (segs cwd root @ q) = at_path t (segs cwd root @ q)" for q
    using same parallel_append [OF par, of "[]" q] by (simp add: beside_def)
  have direct: "at_path t' (segs cwd (join_path root name)) = at_path t (segs cwd (join_path root name))"
    by (simp add: segs_join [OF name] below)
  have dir: "at_path t' (segs cwd root) = at_path t (segs cwd root)" using below [of "[]"] by simp
  have nested: "at_path t' (segs cwd (join_path (join_path root n) name)) = at_path t (segs cwd (join_path (join_path root n) name))"
    if "at_path t (segs cwd root) = Some (Dir es)" "n \<in> fst ` set es" for es n
    using that names by (auto simp: segs_join name below)
  show "findArtifact cwd t' root name = findArtifact cwd t root name"
  proof (cases "at_path t (segs cwd root)")
    case None
    then show ?thesis
      unfolding findArtifact_def readdir_sync_def exists_sync_def direct dir Let_def by simp
  next
    case (Some node)
    have "node = Dir es \<Longrightarrow> find_nested cwd t' root name es = find_nested cwd t root name es" for es
      by (rule find_nested_cong) (use nested Some in blast)
    then show ?thesis
      unfolding findArtifact_def readdir_sync_def exists_sync_def direct dir Let_def Some
      by (cases node) simp_all
  qed
  show "at_path t' (segs cwd p) = at_path t (segs cwd p)" if "findArtifact cwd t root name = Inr p"
    using that direct nested
    by (auto simp: findArtifact_def Let_def readdir_sync_def split: if_splits option.splits fs_node.splits
        dest!: find_nested_Some)
qed

lemma parallel_below: "p \<parallel> q \<Longrightarrow> p @ r \<parallel> q @ s"
  by (rule parallel_append)

lemma parallel_names: "a \<noteq> b \<Longrightarrow> p @ [a] \<parallel> p @ [b]"
  by (simp add: parallel_def)

lemma stage_binary_effect:
  assumes "stage_binary cwd dir pl binary st = (st', None)"
  shows "\<exists>p bytes m. findArtifact cwd (st_tree st) dir (artifact_name pl binary) = Inr p \<and>
      at_path (st_tree st) (segs cwd p) = Some (File bytes m) \<and>
      at_path (st_tree st') (output_path cwd pl binary) =
        Some (File bytes (if pl_suffix pl = ''.exe'' then m else octal_755)) \<and>
      beside (output_path cwd pl binary) (st_tree st) (st_tree st') \<and> st_count st' = st_count st + 1"
proof -
  let ?out = "output_path cwd pl binary"
  obtain p where p: "findArtifact cwd (st_tree st) dir (artifact_name pl binary) = Inr p"
    using assms by (auto simp: stage_binary_def split: sum.splits)
  obtain t where t: "cp_file_sync (st_tree st) (segs cwd p) ?out = Some t"
    using assms p by (auto simp: stage_binary_def output_path_def Let_def split: option.splits)
  obtain bytes m where src: "at_path (st_tree st) (segs cwd p) = Some (File bytes m)"
      and put: "put_node (st_tree st) ?out (File bytes m) = Some t"
    using t by (auto simp: cp_file_sync_def split: option.splits fs_node.splits if_splits)
  note out = at_put_same [OF put]
  show ?thesis
  proof (cases "pl_suffix pl = ''.exe''")
    case True
    then have "st' = st\<lparr>st_tree := t, st_count := st_count st + 1\<rparr>"
      using assms p t by (simp add: stage_binary_def output_path_def Let_def)
    then show ?thesis using p src out True at_put_other [OF put] by (auto intro: besideI)
  next
    case False
    then obtain t' where t': "chmod_sync t ?out octal_755 = Some t'"
        and st': "st' = st\<lparr>st_tree := t', st_count := st_count st + 1\<rparr>"
      using assms p t by (auto simp: stage_binary_def output_path_def Let_def split: option.splits)
    have put': "put_node t ?out (File bytes octal_755) = Some t'" using t' out by (simp add: chmod_sync_def)
    show ?thesis
      using p src False st' at_put_same [OF put'] at_put_other [OF put] at_put_other [OF put']
      by (auto intro: besideI)
  qed
qed

definition staged_file :: "string \<Rightarrow> string \<Rightarrow> fs_node \<Rightarrow> npm_platform \<Rightarrow> fs_node \<Rightarrow> string \<Rightarrow> bool" where
  "staged_file cwd dir t pl t' binary \<longleftrightarrow>
     (\<exists>p bytes m. findArtifact cwd t dir (artifact_name pl binary) = Inr p \<and>
        at_path t (segs cwd p) = Some (File bytes m) \<and>
        at_path t' (output_path cwd pl binary) = Some (File bytes (if pl_suffix pl = ''.exe'' then m else octal_755)))"

definition artifacts_apart :: "string \<Rightarrow> string \<Rightarrow> fs_node \<Rightarrow> bool" where
  "artifacts_apart cwd dir t \<longleftrightarrow>
     segs cwd packagesDir \<parallel> segs cwd dir \<and>
     (\<forall>es. at_path t (segs cwd dir) = Some (Dir es) \<longrightarrow> proper_names (Dir es))"

lemma artifact_name_proper: "pl \<in> set platforms \<Longrightarrow> binary \<in> set binaries \<Longrightarrow> proper_seg (artifact_name pl binary)"
  by (auto simp: platforms_def binaries_def artifact_name_def proper_seg_def slash_def)

lemma outputs_apart:
  assumes "pl \<in> set platforms" "binary \<in> set binaries" "binary' \<in> set binaries" "binary \<noteq> binary'"
  shows "output_path cwd pl binary \<parallel> output_path cwd pl binary'"
  using assms by (simp add: output_path_segs parallel_names)

lemma binDirs_apart:
  assumes "pl \<in> set platforms" "pl' \<in> set platforms" "pl \<noteq> pl'" "binary \<in> set binaries"
  shows "segs cwd (binDir pl) \<parallel> output_path cwd pl' binary"
proof -
  have "pl_pkg pl \<noteq> pl_pkg pl'" using assms(1-3) by (auto simp: platforms_def)
  then have "(segs cwd packagesDir @ [pl_pkg pl]) @ [''bin''] \<parallel>
      (segs cwd packagesDir @ [pl_pkg pl']) @ [''bin'', binary @ pl_suffix pl']"
    by (intro parallel_below parallel_names)
  then show ?thesis using assms by (simp add: output_path_segs binDir_segs)
qed

lemma staged_file_beside:
  "staged_file cwd dir t pl t' binary \<Longrightarrow> beside p t' t'' \<Longrightarrow> p \<parallel> output_path cwd pl binary \<Longrightarrow>
     staged_file cwd dir t pl t'' binary"
  by (simp add: staged_file_def beside_def)

lemma stage_binary_staged:
  assumes apart: "artifacts_apart cwd dir t" and pl: "pl \<in> set platforms" "binary \<in> set binaries"
    and same: "beside (segs cwd packagesDir) t (st_tree st)"
    and run: "stage_binary cwd dir pl binary st = (st', None)"
  shows "staged_file cwd dir t pl (st_tree st') binary"
    and "beside (output_path cwd pl binary) (st_tree st) (st_tree st')" and "st_count st' = st_count st + 1"
proof -
  note found = found_beside [OF _ same artifact_name_proper [OF pl], of cwd dir]
  note eff = stage_binary_effect [OF run]
  show "beside (output_path cwd pl binary) (st_tree st) (st_tree st')" "st_count st' = st_count st + 1"
    using eff by blast+
  show "staged_file cwd dir t pl (st_tree st') binary"
    using eff apart found(1) found(2) unfolding staged_file_def artifacts_apart_def by metis
qed

lemma stage_platform_staged:
  assumes apart: "artifacts_apart cwd dir t" and pl: "pl \<in> set platforms"
    and same: "beside (segs cwd packagesDir) t (st_tree st)"
    and run: "stage_platform cwd dir pl st = (st', None)"
  shows "\<forall>binary \<in> set binaries. staged_file cwd dir t pl (st_tree st') binary"
    and "beside (segs cwd (binDir pl)) (st_tree st) (st_tree st')"
proof -
  let ?D = "segs cwd (binDir pl)"
  define t1 where "t1 = rm_sync (st_tree st) ?D"
  obtain t2 where t2: "mkdir_sync t1 ?D = Some t2"
      and loop: "for_each (stage_binary cwd dir pl) binaries (st\<lparr>st_tree := t2\<rparr>) = (st', None)"
    using run by (auto simp: stage_platform_def Let_def t1_def split: option.splits)
  have cleared: "beside ?D (st_tree st) t2"
    using at_mkdir_other [OF t2] at_rm_other by (auto simp: t1_def intro: besideI)
  have inside: "beside (segs cwd packagesDir) (st_tree st) t'" if "beside ?D (st_tree st) t'" for t'
    using that beside_below by (simp add: binDir_segs [OF pl])
  have all: "beside ?D (st_tree st) (st_tree st') \<and> (\<forall>b \<in> set binaries. staged_file cwd dir t pl (st_tree st') b)"
  proof (rule for_each_rule [OF loop, where I = "\<lambda>s. beside ?D (st_tree st) (st_tree s)"])
    show "beside ?D (st_tree st) (st_tree (st\<lparr>st_tree := t2\<rparr>))" using cleared by simp
    fix b s s'
    assume b: "b \<in> set binaries" and s: "beside ?D (st_tree st) (st_tree s)" and r: "stage_binary cwd dir pl b s = (s', None)"
    note st = stage_binary_staged [OF apart pl b beside_trans [OF same inside [OF s]] r]
    have "beside ?D (st_tree s) (st_tree s')"
      using st(2) beside_below by (simp add: output_path_segs [OF pl b])
    moreover have "\<forall>y \<in> set binaries. y \<noteq> b \<longrightarrow> staged_file cwd dir t pl (st_tree s) y \<longrightarrow> staged_file cwd dir t pl (st_tree s') y"
      using staged_file_beside [OF _ st(2)] outputs_apart [OF pl b] by blast
    ultimately show "beside ?D (st_tree st) (st_tree s') \<and> staged_file cwd dir t pl (st_tree s') b \<and>
        (\<forall>y \<in> set binaries. y \<noteq> b \<longrightarrow> staged_file cwd dir t pl (st_tree s) y \<longrightarrow> staged_file cwd dir t pl (st_tree s') y)"
      using beside_trans [OF s] st(1) by blast
  qed
  then show "\<forall>binary \<in> set binaries. staged_file cwd dir t pl (st_tree st') binary" "beside ?D (st_tree st) (st_tree st')"
    by blast+
qed

lemma stage_platform_count:
  assumes "stage_platform cwd dir pl st = (st', None)" shows "st_count st' = st_count st + 2"
proof -
  obtain t where loop: "for_each (stage_binary cwd dir pl) binaries (st\<lparr>st_tree := t\<rparr>) = (st', None)"
    using assms by (auto simp: stage_platform_def Let_def split: option.splits)
  have "st_count st' = st_count (st\<lparr>st_tree := t\<rparr>) + 1 * length binaries"
    by (rule for_each_count [OF loop]) (use stage_binary_effect in fastforce)
  then show ?thesis by (simp add: binaries_def)
qed

lemma stage_all_staged:
  assumes apart: "artifacts_apart cwd dir t"
    and run: "for_each (stage_platform cwd dir) platforms \<lparr>st_tree = t, st_count = 0\<rparr> = (st, None)"
  shows "\<forall>pl \<in> set platforms. \<forall>binary \<in> set binaries. staged_file cwd dir t pl (st_tree st) binary"
    and "beside (segs cwd packagesDir) t (st_tree st)"
proof -
  let ?I = "\<lambda>s. beside (segs cwd packagesDir) t (st_tree s)"
  let ?Q = "\<lambda>pl s. \<forall>binary \<in> set binaries. staged_file cwd dir t pl (st_tree s) binary"
  have "?I st \<and> (\<forall>pl \<in> set platforms. ?Q pl st)"
  proof (rule for_each_rule [OF run, where I = ?I and Q = ?Q])
    show "?I \<lparr>st_tree = t, st_count = 0\<rparr>" by (simp add: beside_def)
    fix pl s s'
    assume pl: "pl \<in> set platforms" and s: "?I s" and r: "stage_platform cwd dir pl s = (s', None)"
    note st = stage_platform_staged [OF apart pl s r]
    have "?I s'" using beside_trans [OF s] st(2) beside_below by (simp add: binDir_segs [OF pl])
    moreover have "\<forall>y \<in> set platforms. y \<noteq> pl \<longrightarrow> ?Q y s \<longrightarrow> ?Q y s'"
      using staged_file_beside [OF _ st(2)] binDirs_apart [OF pl] by blast
    ultimately show "?I s' \<and> ?Q pl s' \<and> (\<forall>y \<in> set platforms. y \<noteq> pl \<longrightarrow> ?Q y s \<longrightarrow> ?Q y s')"
      using st(1) by blast
  qed
  then show "\<forall>pl \<in> set platforms. ?Q pl st" "?I st" by blast+
qed

lemma platform_of:
  assumes "platformPackage os arch = Inr pp"
  shows "\<exists>pl \<in> set platforms. pl_target pl = os @ ''-'' @ arch \<and> pp_name pp = SCOPE @ ''/'' @ pl_pkg pl \<and>
      pp_file pp = ''allowlister-remote-plugin'' @ pl_suffix pl \<and>
      pp_daemonFile pp = ''allowlister-remote-daemon'' @ pl_suffix pl"
proof -
  obtain e where e: "map_of PLATFORM_PACKAGES (os @ ''-'' @ arch) = Some e"
      and pp: "pp = \<lparr>pp_name = SCOPE @ ''/'' @ pe_pkg e, pp_file = ''allowlister-remote-plugin'' @ pe_suffix e,
                    pp_daemonFile = ''allowlister-remote-daemon'' @ pe_suffix e\<rparr>"
    using assms by (auto simp: platformPackage_def split: if_splits option.splits)
  have "(os @ ''-'' @ arch, e) \<in> set PLATFORM_PACKAGES" by (rule map_of_SomeD [OF e])
  then have "\<exists>pl \<in> set platforms. pl_target pl = os @ ''-'' @ arch \<and> pe_pkg e = pl_pkg pl \<and> pe_suffix e = pl_suffix pl"
    by (elim rev_mp) (simp only: PLATFORM_PACKAGES_def platforms_def, auto)
  then show ?thesis using pp by auto
qed

section \<open>Properties\<close>

text \<open>What the installer of a platform looks for in its package: the two binaries it names there.\<close>

definition wanted :: "platform_package \<Rightarrow> (string \<times> string) list" where
  "wanted pp = [(''allowlister-remote-plugin'', pp_file pp), (''allowlister-remote-daemon'', pp_daemonFile pp)]"

definition executable_mode :: "string \<Rightarrow> nat \<Rightarrow> nat" where
  "executable_mode file m = (if ends_with ''.exe'' file then m else octal_755)"

lemma suffix_mode:
  assumes "pl \<in> set platforms" "binary \<in> set binaries"
  shows "executable_mode (binary @ pl_suffix pl) m = (if pl_suffix pl = ''.exe'' then m else octal_755)"
proof -
  have "\<forall>pl \<in> set platforms. \<forall>b \<in> set binaries. ends_with ''.exe'' (b @ pl_suffix pl) \<longleftrightarrow> pl_suffix pl = ''.exe''"
    by code_simp
  then show ?thesis using assms by (simp add: executable_mode_def)
qed

text \<open>
  C31. What a release stages is what an installation looks for: when the staging script ends without
  an error it has staged six binaries, and for every platform the installer supports the package it
  resolves holds the plugin and the daemon under the names it asks for, each with the content of the
  artifact built for that platform and executable. Nothing outside \<^verbatim>\<open>packages/\<close> has changed.
\<close>

theorem staged_for_installer:
  assumes run: "stage_npm_package cwd arg t = (st, None)"
    and dir: "dir = (case arg of None \<Rightarrow> ''dist/release-artifacts'' | Some d \<Rightarrow> d)"
    and apart: "artifacts_apart cwd dir t"
    and supported: "platformPackage os arch = Inr pp"
  shows "st_count st = 6 \<and> beside (segs cwd packagesDir) t (st_tree st) \<and>
    (\<exists>pkg. pp_name pp = SCOPE @ ''/'' @ pkg \<and>
       list_all (\<lambda>(binary, file).
         \<exists>p bytes m. findArtifact cwd t dir (binary @ ''-'' @ os @ ''-'' @ arch @ drop (length binary) file) = Inr p \<and>
           at_path t (segs cwd p) = Some (File bytes m) \<and>
           at_path (st_tree st) (segs cwd packagesDir @ [pkg, ''bin'', file]) =
             Some (File bytes (executable_mode file m))) (wanted pp))"
proof -
  have loop: "for_each (stage_platform cwd dir) platforms \<lparr>st_tree = t, st_count = 0\<rparr> = (st, None)"
    using run by (simp add: stage_npm_package_def dir Let_def)
  have count: "st_count st = st_count \<lparr>st_tree = t, st_count = 0\<rparr> + 2 * length platforms"
    by (rule for_each_count [OF loop]) (rule stage_platform_count)
  obtain pl where pl: "pl \<in> set platforms" "pl_target pl = os @ ''-'' @ arch" "pp_name pp = SCOPE @ ''/'' @ pl_pkg pl"
      "pp_file pp = ''allowlister-remote-plugin'' @ pl_suffix pl" "pp_daemonFile pp = ''allowlister-remote-daemon'' @ pl_suffix pl"
    using platform_of [OF supported] by blast
  have staged: "\<exists>p bytes m. findArtifact cwd t dir (binary @ ''-'' @ os @ ''-'' @ arch @ pl_suffix pl) = Inr p \<and>
      at_path t (segs cwd p) = Some (File bytes m) \<and>
      at_path (st_tree st) (segs cwd packagesDir @ [pl_pkg pl, ''bin'', binary @ pl_suffix pl]) =
        Some (File bytes (executable_mode (binary @ pl_suffix pl) m))" if b: "binary \<in> set binaries" for binary
  proof -
    have "staged_file cwd dir t pl (st_tree st) binary" using stage_all_staged(1) [OF apart loop] pl(1) b by blast
    then show ?thesis
      unfolding staged_file_def artifact_name_def pl(2) output_path_segs [OF pl(1) b] binDir_segs [OF pl(1)]
        suffix_mode [OF pl(1) b] by (simp only: append_assoc append_Cons append_Nil)
  qed
  have d: "drop (length b) (b @ s) = s" for b s :: string by simp
  have both: "''allowlister-remote-plugin'' \<in> set binaries" "''allowlister-remote-daemon'' \<in> set binaries"
    by (simp_all add: binaries_def)
  have "list_all (\<lambda>(binary, file).
         \<exists>p bytes m. findArtifact cwd t dir (binary @ ''-'' @ os @ ''-'' @ arch @ drop (length binary) file) = Inr p \<and>
           at_path t (segs cwd p) = Some (File bytes m) \<and>
           at_path (st_tree st) (segs cwd packagesDir @ [pl_pkg pl, ''bin'', file]) =
             Some (File bytes (executable_mode file m))) (wanted pp)"
    unfolding wanted_def pl(4,5) list.pred_inject prod.case d
    by (intro conjI, rule staged [OF both(1)], rule staged [OF both(2)], simp)
  moreover have "st_count st = 6" using count by (simp add: platforms_def)
  ultimately show ?thesis using stage_all_staged(2) [OF apart loop] pl(3) by blast
qed

definition sample_checkout :: fs_node where
  "sample_checkout =
     (let artifact = (\<lambda>name. (name, File (''ELF '' @ name) 420))
      in Dir [(''repo'', Dir
           [(''dist'', Dir [(''release-artifacts'', Dir
              [artifact ''allowlister-remote-plugin-darwin-arm64'', artifact ''allowlister-remote-daemon-darwin-arm64'',
               artifact ''allowlister-remote-plugin-linux-x64'', artifact ''allowlister-remote-daemon-linux-x64'',
               (''windows'', Dir [artifact ''allowlister-remote-plugin-win32-x64.exe'',
                                  artifact ''allowlister-remote-daemon-win32-x64.exe''])])]),
            (''packages'', Dir [(''allowlister-remote-plugin-linux-x64'', Dir [(''bin'', Dir [(''old'', File [] 420)])])])])])"

theorem staged_for_installer_witness:
  "\<exists>st. stage_npm_package ''/repo'' None sample_checkout = (st, None) \<and> st_count st = 6 \<and>
     at_path (st_tree st) [''repo'', ''packages'', ''allowlister-remote-plugin-linux-x64'', ''bin'', ''allowlister-remote-daemon''] =
       Some (File ''ELF allowlister-remote-daemon-linux-x64'' 493)"
proof -
  let ?dir = "''dist/release-artifacts''"
  have "snd (stage_npm_package ''/repo'' None sample_checkout) = None" by code_simp
  then obtain st where run: "stage_npm_package ''/repo'' None sample_checkout = (st, None)"
    by (cases "stage_npm_package ''/repo'' None sample_checkout") simp
  have root: "segs ''/repo'' packagesDir = [''repo'', ''packages'']" "segs ''/repo'' ?dir = [''repo'', ''dist'', ''release-artifacts'']"
    by code_simp+
  obtain es where es: "at_path sample_checkout [''repo'', ''dist'', ''release-artifacts''] = Some (Dir es)"
    by (simp add: sample_checkout_def Let_def)
  have "proper_names (the (at_path sample_checkout [''repo'', ''dist'', ''release-artifacts'']))"
    by (simp add: sample_checkout_def Let_def proper_seg_def slash_def)
  then have apart: "artifacts_apart ''/repo'' ?dir sample_checkout"
    using es by (simp add: artifacts_apart_def root parallel_Cons)
  obtain pp where pp: "platformPackage ''linux'' ''x64'' = Inr pp" "pp_daemonFile pp = ''allowlister-remote-daemon''"
      "pp_name pp = SCOPE @ ''/'' @ ''allowlister-remote-plugin-linux-x64''"
    by (simp add: platformPackage_def PLATFORM_PACKAGES_def)
  have found: "findArtifact ''/repo'' sample_checkout ?dir ''allowlister-remote-daemon-linux-x64'' =
      Inr ''dist/release-artifacts/allowlister-remote-daemon-linux-x64''"
    "at_path sample_checkout (segs ''/repo'' ''dist/release-artifacts/allowlister-remote-daemon-linux-x64'') =
      Some (File ''ELF allowlister-remote-daemon-linux-x64'' 420)"
    "executable_mode ''allowlister-remote-daemon'' 420 = 493"
    by code_simp+
  have "st_count st = 6 \<and> at_path (st_tree st) [''repo'', ''packages'', ''allowlister-remote-plugin-linux-x64'', ''bin'', ''allowlister-remote-daemon''] =
       Some (File ''ELF allowlister-remote-daemon-linux-x64'' 493)"
    using staged_for_installer [OF run _ apart pp(1)] found by (simp add: wanted_def pp root)
  then show ?thesis using run by blast
qed

section \<open>The stamped manifest\<close>

lemma deep_equal_refl: "json_exact v \<Longrightarrow> deep_equal v v"
proof (induction v)
  case (Arr xs)
  then show ?case by (auto intro: list.rel_refl_strong)
next
  case (Obj ms)
  have "distinct (map fst ms)" using Obj.prems make_object_distinct [of ms] by simp
  moreover have "deep_equal (snd m) (snd m)" if "m \<in> set ms" for m
    using Obj that by (cases m) auto
  ultimately show ?case by (auto simp: map_of_is_SomeI)
qed auto

lemma semver_is_version: "semver s \<Longrightarrow> is_version s"
proof -
  assume s: "semver s"
  then obtain r where core: "version_core s = Some r" by (auto simp: semver_def split: option.splits)
  have labels: "takeWhile label_char r' = r' \<and> dropWhile label_char r' = []" if "list_all semver_char r'" for r'
    using that by (induction r') (auto simp: semver_char_def)
  show ?thesis
  proof (cases r)
    case Nil
    then show ?thesis using core by (simp add: is_version_def label_after_def after_char_def)
  next
    case (Cons c r')
    then have c: "c = CHR ''-'' \<or> c = CHR ''+''" "r' \<noteq> []" "list_all semver_char r'"
      using s core by (auto simp: semver_def)
    have drop: "label_after d (d # r') = Some []" for d
    proof -
      have "label_after d (d # r') = (if takeWhile label_char r' = [] then None else Some (dropWhile label_char r'))"
        by (simp add: label_after_def after_char_def del: takeWhile_eq_Nil_iff)
      then show ?thesis using labels [OF c(3)] c(2) by argo
    qed
    have skip: "label_after (CHR ''-'') (CHR ''+'' # r') = Some (CHR ''+'' # r')" "label_after (CHR ''+'') [] = Some []"
      by (simp_all add: label_after_def after_char_def)
    show ?thesis using c(1) core Cons drop skip by (auto simp: is_version_def)
  qed
qed

lemma stamp_package_writes:
  assumes "stamp_package cwd version dir t = (t', None)" "read_file_sync t (segs cwd (manifest_file dir)) = Some old"
    "js_parse old = Some manifest"
  shows "\<exists>stamped. stamp_manifest version dir manifest = Some stamped \<and>
      read_file_sync t' (segs cwd (manifest_file dir)) = Some (pretty_line stamped)"
proof -
  let ?p = "segs cwd (manifest_file dir)"
  obtain stamped where s: "stamp_manifest version dir manifest = Some stamped"
      and w: "write_file_sync t ?p (pretty_line stamped) = Some t'"
    using assms by (auto simp: stamp_package_def split: option.splits)
  obtain m where "put_node t ?p (File (pretty_line stamped) m) = Some t'"
    using w by (auto simp: write_file_sync_def split: option.splits fs_node.splits)
  then show ?thesis using s by (auto simp: read_file_sync_def dest: at_put_same)
qed

lemma ordinary_manifest:
  assumes "dir \<in> set (parent # web_package # platformPackages)"
  shows "strip (manifest_file dir) workspaces v = map_option Some (removeVersion v)"
proof -
  have "\<forall>dir \<in> set (parent # web_package # platformPackages).
      manifest_file dir \<noteq> ''.release-please-manifest.json'' \<and> \<not> ends_with ''package-lock.json'' (manifest_file dir)"
    by code_simp
  from this [THEN bspec, OF assms] show ?thesis by (simp add: strip_def)
qed

lemma without_update: "without k (AList.update k v ms) = without k ms"
  by (induction ms) (auto simp: without_def)

lemma removeVersion_of:
  "member (Obj ms) ''version'' = Str v \<Longrightarrow> is_version v \<Longrightarrow> removeVersion (Obj ms) = Some (Obj (without ''version'' ms))"
  by (simp add: removeVersion_def)

lemma version_update_only:
  assumes exact: "json_exact (Obj ms)" and old: "member (Obj ms) ''version'' = Str v" "is_version v"
    and version: "semver version" and dir: "dir \<in> set (web_package # platformPackages)"
    and parse: "js_parse before = Some (Obj ms)" "js_parse after = Some (Obj (AList.update ''version'' (Str version) ms))"
  shows "jsonVersionsOnly js_parse (manifest_file dir) before after workspaces = Some True"
proof -
  have "member (Obj (AList.update ''version'' (Str version) ms)) ''version'' = Str version"
    by (simp add: update_conv')
  then have after: "removeVersion (Obj (AList.update ''version'' (Str version) ms)) = Some (Obj (without ''version'' ms))"
    using removeVersion_of [OF _ semver_is_version [OF version]] by (simp add: without_update)
  have "distinct (map fst ms)" using exact make_object_distinct [of ms] by simp
  then have "distinct (map fst (without ''version'' ms))" by (simp add: without_def)
  moreover have "deep_equal (snd m) (snd m)" if "m \<in> set (without ''version'' ms)" for m
    using that exact by (intro deep_equal_refl) (auto simp: without_def)
  ultimately have "deep_equal (Obj (without ''version'' ms)) (Obj (without ''version'' ms))"
    by (auto simp: map_of_is_SomeI)
  then show ?thesis
    by (simp add: jsonVersionsOnly_def parse ordinary_manifest dir [simplified] removeVersion_of [OF old] after)
qed

lemma pinned_dependencies:
  assumes "pl \<in> set platforms"
  shows "member (json_image (optional_dependencies version)) (SCOPE @ ''/'' @ pl_pkg pl) = Str version"
proof -
  have "\<forall>pl \<in> set platforms. member (json_image (optional_dependencies version)) (SCOPE @ ''/'' @ pl_pkg pl) = Str version"
    by code_simp
  then show ?thesis using assms by blast
qed

lemma stamped_members:
  assumes "stamp_manifest version dir (Obj ms) = Some stamped" "distinct (map fst ms)"
  shows "\<exists>ns. stamped = Obj ns \<and> distinct (map fst ns) \<and> map_of ns ''version'' = Some (Str version) \<and>
      (dir = parent \<longrightarrow> map_of ns ''optionalDependencies'' = Some (optional_dependencies version) \<and>
         map_of ns ''//optionalDependencies'' = None) \<and>
      (\<forall>k. k \<notin> {''version'', ''optionalDependencies'', ''//optionalDependencies''} \<longrightarrow> map_of ns k = map_of ms k)"
  using assms
  by (auto simp: stamp_manifest_def put_member_distinct distinct_delete delete_conv' split: if_splits)

lemma image_none:
  assumes "distinct (map fst ns)" "map_of ns k = None"
  shows "map_of (make_object (image_members ns)) k = None"
proof -
  have "k \<notin> fst ` set ns" using assms(2) by (simp only: map_of_eq_None_iff not_False_eq_True)
  then show ?thesis
    using image_members_none map_of_rev [OF image_members_distinct [OF assms(1)]] by (simp add: map_of_make_object)
qed

text \<open>A manifest that loses a member has not changed its versions only.\<close>

lemma lost_member_not_versions_only:
  assumes old: "js_parse before = Some (Obj ms)" "member (Obj ms) ''version'' = Str v" "is_version v"
    and lost: "k \<noteq> ''version''" "map_of ms k \<noteq> None" "map_of ns k = None"
    and new: "js_parse after = Some (json_image (Obj ns))" "distinct (map fst ns)"
      "member (json_image (Obj ns)) ''version'' = Str v'" "is_version v'"
    and dir: "dir \<in> set (parent # web_package # platformPackages)"
  shows "jsonVersionsOnly js_parse (manifest_file dir) before after workspaces = Some False"
proof -
  define xs where "xs = make_object (image_members ns)"
  have image: "json_image (Obj ns) = Obj xs" by (simp add: xs_def)
  have after: "removeVersion (Obj xs) = Some (Obj (without ''version'' xs))"
    using removeVersion_of new(3,4) unfolding image by blast
  obtain w where w: "map_of ms k = Some w" using lost(2) by blast
  then have "(k, w) \<in> set (without ''version'' ms)" using lost(1) map_of_SomeD [OF w] by (simp add: without_def)
  moreover have "map_of (without ''version'' xs) k = None"
    using image_none [OF new(2) lost(3)] by (simp add: without_map_of xs_def)
  ultimately have "\<not> deep_equal (Obj (without ''version'' ms)) (Obj (without ''version'' xs))" by force
  then show ?thesis
    using new(1) unfolding image
    by (simp add: jsonVersionsOnly_def old(1) ordinary_manifest [OF dir] removeVersion_of [OF old(2,3)] after)
qed

lemma member_image_exact:
  assumes "json_exact (Obj ms)" "distinct (map fst ns)" "map_of ns k = map_of ms k"
  shows "member (json_image (Obj ns)) k = member (Obj ms) k"
proof (cases "map_of ms k")
  case None
  then have "map_of (make_object (image_members ns)) k = None" using image_none [OF assms(2)] assms(3) by simp
  then show ?thesis using None by simp
next
  case (Some v)
  then have "json_exact v" using map_of_SomeD [OF Some] assms(1) by fastforce
  then have "v \<noteq> Undefined" "json_image v = v" using json_image_exact(1) by auto
  then show ?thesis using member_image [OF assms(2), of k] assms(3) Some by simp
qed

text \<open>
  C32. Stamping a release: the manifest that is written parses to the old one with the new version
  and nothing else changed, except that the plugin's parent package pins the package of every
  platform to that same version. The change to any other package whose old version is one is what
  the policy of the CI recognizes as a change of versions only; the change to the parent is not,
  since it loses the comment that stands for the dependencies in the source.
\<close>

theorem version_stamped:
  assumes stamp: "stamp_package cwd version dir t = (t', None)" and version: "semver version"
    and old: "read_file_sync t (segs cwd (manifest_file dir)) = Some old" "js_parse old = Some (Obj ms)"
    and exact: "json_exact (Obj ms)"
  shows "\<exists>new manifest. read_file_sync t' (segs cwd (manifest_file dir)) = Some new \<and> js_parse new = Some manifest \<and>
      member manifest ''version'' = Str version \<and>
      (\<forall>k. k \<notin> {''version'', ''optionalDependencies'', ''//optionalDependencies''} \<longrightarrow> member manifest k = member (Obj ms) k) \<and>
      (dir = parent \<longrightarrow> (\<forall>pl \<in> set platforms.
         member (member manifest ''optionalDependencies'') (SCOPE @ ''/'' @ pl_pkg pl) = Str version)) \<and>
      (dir \<in> set (web_package # platformPackages) \<longrightarrow> (\<exists>v. member (Obj ms) ''version'' = Str v \<and> is_version v) \<longrightarrow>
         jsonVersionsOnly js_parse (manifest_file dir) old new workspaces = Some True) \<and>
      (dir = parent \<longrightarrow> (\<exists>v. member (Obj ms) ''version'' = Str v \<and> is_version v) \<longrightarrow>
         member (Obj ms) ''//optionalDependencies'' \<noteq> Undefined \<longrightarrow>
         jsonVersionsOnly js_parse (manifest_file dir) old new workspaces = Some False)"
proof -
  have d: "distinct (map fst ms)" using exact make_object_distinct [of ms] by simp
  obtain stamped where s: "stamp_manifest version dir (Obj ms) = Some stamped"
      and new: "read_file_sync t' (segs cwd (manifest_file dir)) = Some (pretty_line stamped)"
    using stamp_package_writes [OF stamp old] by blast
  obtain ns where ns: "stamped = Obj ns" "distinct (map fst ns)" "map_of ns ''version'' = Some (Str version)"
      "dir = parent \<Longrightarrow> map_of ns ''optionalDependencies'' = Some (optional_dependencies version)"
      "dir = parent \<Longrightarrow> map_of ns ''//optionalDependencies'' = None"
      "\<And>k. k \<notin> {''version'', ''optionalDependencies'', ''//optionalDependencies''} \<Longrightarrow> map_of ns k = map_of ms k"
    using stamped_members [OF s d] by blast
  have parsed: "js_parse (pretty_line stamped) = Some (json_image (Obj ns))"
    using pretty_line_parses [of stamped] ns(1) by simp
  have stamped_version: "member (json_image (Obj ns)) ''version'' = Str version"
    using member_image [OF ns(2), of "''version''"] ns(3) by simp
  moreover have "member (json_image (Obj ns)) k = member (Obj ms) k"
    if "k \<notin> {''version'', ''optionalDependencies'', ''//optionalDependencies''}" for k
    by (rule member_image_exact [OF exact ns(2) ns(6) [OF that]])
  moreover have "member (member (json_image (Obj ns)) ''optionalDependencies'') (SCOPE @ ''/'' @ pl_pkg pl) = Str version"
    if "dir = parent" "pl \<in> set platforms" for pl
  proof -
    have "member (json_image (Obj ns)) ''optionalDependencies'' = json_image (optional_dependencies version)"
      using member_image [OF ns(2), of "''optionalDependencies''"] ns(4) [OF that(1)]
      by (simp add: optional_dependencies_def)
    then show ?thesis using pinned_dependencies [OF that(2)] by (simp only:)
  qed
  moreover have "jsonVersionsOnly js_parse (manifest_file dir) old (pretty_line stamped) workspaces = Some True"
    if dir: "dir \<in> set (web_package # platformPackages)" and v: "member (Obj ms) ''version'' = Str v" "is_version v" for v
  proof -
    obtain w where "map_of ms ''version'' = Some w" using v(1) by (cases "map_of ms ''version''") simp_all
    then have k: "''version'' \<in> fst ` set ms" by (metis fst_conv image_eqI map_of_SomeD)
    have "parent \<notin> set (web_package # platformPackages)" by code_simp
    then have "dir \<noteq> parent" using dir by blast
    then have "ns = AList.update ''version'' (Str version) ms"
      using s ns(1) k by (auto simp: stamp_manifest_def put_member_def)
    moreover from this have "json_image (Obj ns) = Obj ns"
      using exact_update [OF exact k, of "Str version"] json_image_exact(1) by (simp del: json_image.simps)
    ultimately show ?thesis
      using version_update_only [OF exact v version dir old(2)] parsed by (simp del: json_image.simps)
  qed
  moreover have "jsonVersionsOnly js_parse (manifest_file dir) old (pretty_line stamped) workspaces = Some False"
    if parent: "dir = parent" and v: "member (Obj ms) ''version'' = Str v" "is_version v"
      and comment: "member (Obj ms) ''//optionalDependencies'' \<noteq> Undefined" for v
  proof (rule lost_member_not_versions_only [OF old(2) v])
    show "map_of ms ''//optionalDependencies'' \<noteq> None" using comment by (auto split: option.splits)
    show "map_of ns ''//optionalDependencies'' = None" by (rule ns(5) [OF parent])
    show "is_version version" by (rule semver_is_version [OF version])
  qed (use parsed ns(2) stamped_version parent in simp_all)
  ultimately show ?thesis using new parsed by blast
qed

definition sample_manifest :: "(string \<times> js) list" where
  "sample_manifest = [(''name'', Str ''linux''), (''version'', Str ''0.1.0''), (''os'', Arr [Str ''linux''])]"

definition sample_package :: fs_node where
  "sample_package =
     Dir [(''packages'', Dir [(''allowlister-remote-plugin-linux-x64'',
       Dir [(''package.json'', File (json_text (Obj sample_manifest)) 420)])])]"

theorem version_stamped_witness:
  "\<exists>t' new manifest.
     stamp_package [] ''1.2.3'' ''allowlister-remote-plugin-linux-x64'' sample_package = (t', None) \<and>
     read_file_sync t' (segs [] (manifest_file ''allowlister-remote-plugin-linux-x64'')) = Some new \<and>
     js_parse new = Some manifest \<and> member manifest ''version'' = Str ''1.2.3'' \<and>
     jsonVersionsOnly js_parse (manifest_file ''allowlister-remote-plugin-linux-x64'')
       (json_text (Obj sample_manifest)) new [] = Some True"
proof -
  let ?dir = "''allowlister-remote-plugin-linux-x64''"
  have "snd (stamp_package [] ''1.2.3'' ?dir sample_package) = None" by code_simp
  then obtain t' where run: "stamp_package [] ''1.2.3'' ?dir sample_package = (t', None)"
    by (cases "stamp_package [] ''1.2.3'' ?dir sample_package") simp
  have read: "read_file_sync sample_package (segs [] (manifest_file ?dir)) = Some (json_text (Obj sample_manifest))"
    "semver ''1.2.3''" "json_exact (Obj sample_manifest)" "?dir \<in> set (web_package # platformPackages)"
    "member (Obj sample_manifest) ''version'' = Str ''0.1.0''" "is_version ''0.1.0''"
    by code_simp+
  have "js_parse (json_text (Obj sample_manifest)) = Some (json_image (Obj sample_manifest))"
    by (rule js_parse_json_text) simp
  then have parse: "js_parse (json_text (Obj sample_manifest)) = Some (Obj sample_manifest)"
    using json_image_exact(1) [OF read(3)] by (simp only:)
  have valid: "\<exists>v. member (Obj sample_manifest) ''version'' = Str v \<and> is_version v"
    by (intro exI conjI, rule read(5), rule read(6))
  have pick: "\<exists>x y. A x \<and> B x y \<and> C y \<and> X y \<and> Y y \<and> (D \<longrightarrow> E \<longrightarrow> F x) \<and> Z x \<Longrightarrow> P \<Longrightarrow> D \<Longrightarrow> E \<Longrightarrow>
      \<exists>x y. P \<and> A x \<and> B x y \<and> C y \<and> F x" for A B C X Y D E F P Z
    by blast
  show ?thesis
    by (rule exI [of _ t'], rule pick [OF version_stamped [OF run read(2,1) parse read(3), of "[]"] run read(4) valid])
qed

end
