(* ===== verification/TerminalSvg.thy ===== *)
theory TerminalSvg
  imports JsonRoundtrip
begin

text \<open>
  \<^verbatim>\<open>scripts/terminal-svg.mjs\<close>: the picture of the terminal prompt, an SVG that is a function of the
  prompt, the theme and the embedded font. \<open>None\<close> is a TypeError. The font is read from a file and
  passed in as its base64 text, and so is the text of the fixture. The digest of a picture is a
  parameter.
\<close>

section \<open>Layout\<close>

definition THEMES :: "string list" where
  "THEMES = [''dark'', ''light'']"

definition CELL_W :: nat where "CELL_W = 9"
definition LINE_H :: nat where "LINE_H = 24"
definition FONT_SIZE :: nat where "FONT_SIZE = 15"
definition PAD_X :: nat where "PAD_X = 22"
definition PAD_TOP :: nat where "PAD_TOP = 20"
definition PAD_BOTTOM :: nat where "PAD_BOTTOM = 22"
definition CHROME_H :: nat where "CHROME_H = 38"

record palette =
  pal_bg :: string
  pal_chrome :: string
  pal_fg :: string
  pal_title :: string

definition PALETTE :: "(string \<times> palette) list" where
  "PALETTE =
     [(''dark'', \<lparr>pal_bg = ''#11131a'', pal_chrome = ''#1b1e29'', pal_fg = ''#d6dae4'', pal_title = ''#828a9c''\<rparr>),
      (''light'', \<lparr>pal_bg = ''#ffffff'', pal_chrome = ''#eef0f4'', pal_fg = ''#1f2430'', pal_title = ''#5b6473''\<rparr>)]"

definition DOTS :: "string list" where
  "DOTS = [''#ff5f57'', ''#febc2e'', ''#28c840'']"

section \<open>Escaping\<close>

text \<open>\<open>text.replace(/c/g, r)\<close>.\<close>

definition replace_all :: "char \<Rightarrow> string \<Rightarrow> string \<Rightarrow> string" where
  "replace_all c r s = concat (map (\<lambda>x. if x = c then r else [x]) s)"

definition xmlEscape :: "string \<Rightarrow> string" where
  "xmlEscape s = replace_all (CHR ''>'') ''&gt;'' (replace_all (CHR ''<'') ''&lt;'' (replace_all (CHR ''&'') ''&amp;'' s))"

section \<open>Rendering\<close>

definition trim_lines :: "string list \<Rightarrow> string list" where
  "trim_lines ls = rev (dropWhile (\<lambda>l. l = []) (rev (dropWhile (\<lambda>l. l = []) ls)))"

text \<open>An attribute, with the space before it.\<close>

definition attr :: "string \<Rightarrow> string \<Rightarrow> string" where
  "attr k v = '' '' @ k @ ''='' @ [CHR 0x22] @ v @ [CHR 0x22]"

definition nat_attr :: "string \<Rightarrow> nat \<Rightarrow> string" where
  "nat_attr k n = attr k (digits n)"

definition svg_width :: "string list \<Rightarrow> nat" where
  "svg_width ls = PAD_X * 2 + Max (set (map length ls)) * CELL_W"

definition svg_height :: "string list \<Rightarrow> nat" where
  "svg_height ls = CHROME_H + PAD_TOP + length ls * LINE_H + PAD_BOTTOM"

definition baseline0 :: nat where
  "baseline0 = CHROME_H + PAD_TOP + FONT_SIZE"

definition svg_head :: "string \<Rightarrow> palette \<Rightarrow> nat \<Rightarrow> nat \<Rightarrow> string list" where
  "svg_head fontB64 pal width height =
     [''<svg'' @ attr ''xmlns'' ''http://www.w3.org/2000/svg'' @ nat_attr ''width'' width @ nat_attr ''height'' height @
        attr ''viewBox'' (''0 0 '' @ digits width @ '' '' @ digits height) @ attr ''role'' ''img'' @
        attr ''aria-label'' ''allowlister-remote local terminal approval prompt'' @ ''>'',
      ''<style>'' @
        ''@font-face{font-family:\"TermMono\";font-style:normal;font-weight:400;'' @
        ''src:url(data:font/woff2;base64,'' @ fontB64 @ '') format(\"woff2\");}'' @
        ''text{font-family:\"TermMono\",monospace;font-size:'' @ digits FONT_SIZE @ ''px;'' @
        ''white-space:pre;dominant-baseline:alphabetic;}</style>'',
      ''<rect'' @ nat_attr ''x'' 0 @ nat_attr ''y'' 0 @ nat_attr ''width'' width @ nat_attr ''height'' height @
        nat_attr ''rx'' 10 @ attr ''fill'' (pal_bg pal) @ ''/>'',
      ''<rect'' @ nat_attr ''x'' 0 @ nat_attr ''y'' 0 @ nat_attr ''width'' width @ nat_attr ''height'' CHROME_H @
        nat_attr ''rx'' 10 @ attr ''fill'' (pal_chrome pal) @ ''/>'',
      ''<rect'' @ nat_attr ''x'' 0 @ nat_attr ''y'' (CHROME_H - 10) @ nat_attr ''width'' width @
        nat_attr ''height'' 10 @ attr ''fill'' (pal_chrome pal) @ ''/>'']"

definition svg_dot :: "nat \<times> string \<Rightarrow> string" where
  "svg_dot = (\<lambda>(i, dot).
     ''<circle'' @ nat_attr ''cx'' (20 + i * 20) @ nat_attr ''cy'' (CHROME_H div 2) @ nat_attr ''r'' 6 @
       attr ''fill'' dot @ ''/>'')"

definition svg_title :: "palette \<Rightarrow> nat \<Rightarrow> string" where
  "svg_title pal width =
     ''<text'' @ nat_attr ''x'' (width div 2) @ nat_attr ''y'' (CHROME_H div 2 + 5) @ attr ''text-anchor'' ''middle'' @
       nat_attr ''font-size'' 13 @ attr ''fill'' (pal_title pal) @ ''>allowlister-remote</text>''"

definition svg_line :: "palette \<Rightarrow> nat \<times> string \<Rightarrow> string list" where
  "svg_line pal = (\<lambda>(row, line).
     if line = [] then []
     else
       [''<text'' @ nat_attr ''x'' PAD_X @ nat_attr ''y'' (baseline0 + row * LINE_H) @ attr ''fill'' (pal_fg pal) @
          nat_attr ''textLength'' (length line * CELL_W) @ attr ''lengthAdjust'' ''spacing'' @
          attr ''xml:space'' ''preserve'' @ ''>'' @ xmlEscape line @ ''</text>''])"

definition svg_cursor :: "palette \<Rightarrow> string list \<Rightarrow> string" where
  "svg_cursor pal ls =
     ''<rect'' @ nat_attr ''x'' (PAD_X + length (last ls) * CELL_W) @
       nat_attr ''y'' (baseline0 + (length ls - 1) * LINE_H - FONT_SIZE + 3) @ nat_attr ''width'' CELL_W @
       nat_attr ''height'' (FONT_SIZE + 3) @ attr ''fill'' (pal_fg pal) @ attr ''opacity'' ''0.75'' @ ''/>''"

definition svg_parts :: "string \<Rightarrow> palette \<Rightarrow> string list \<Rightarrow> string list" where
  "svg_parts fontB64 pal ls =
     svg_head fontB64 pal (svg_width ls) (svg_height ls) @ map svg_dot (enumerate 0 DOTS) @
     [svg_title pal (svg_width ls)] @ concat (map (svg_line pal) (enumerate 0 ls)) @
     [svg_cursor pal ls, ''</svg>'' @ [newline]]"

definition renderTerminalSvg :: "string \<Rightarrow> string \<Rightarrow> string \<Rightarrow> string option" where
  "renderTerminalSvg fontB64 prompt theme =
     (case map_of PALETTE theme of
        None \<Rightarrow> None
      | Some pal \<Rightarrow>
          (let ls = trim_lines (split_on newline prompt)
           in if ls = [] then None else Some (concat (svg_parts fontB64 pal ls))))"

section \<open>The fixture and its digests\<close>

definition loadFixture :: "string \<Rightarrow> js option" where
  "loadFixture raw = Option.bind (js_parse raw) (\<lambda>v. if nullish v then None else Some (at_key v ''prompts''))"

definition digest_line :: "(string \<Rightarrow> string) \<Rightarrow> string \<Rightarrow> string \<times> string \<Rightarrow> string \<Rightarrow> string option" where
  "digest_line sha256 fontB64 = (\<lambda>(name, prompt) theme.
     map_option (\<lambda>svg. name @ [CHR 0x09] @ ''theme='' @ theme @ [CHR 0x09] @ name @ ''-'' @ theme @ ''.svg'' @
         [CHR 0x09] @ sha256 svg @ [newline])
       (renderTerminalSvg fontB64 prompt theme))"

definition digests_output ::
    "(string \<Rightarrow> string) \<Rightarrow> string \<Rightarrow> (string \<times> string) list \<Rightarrow> string option" where
  "digests_output sha256 fontB64 prompts =
     map_option concat (traverse (\<lambda>(p, theme). digest_line sha256 fontB64 p theme) (List.product prompts THEMES))"

section \<open>Reading a picture\<close>

text \<open>The texts an SVG shows: the contents of its text elements, entities resolved.\<close>

fun unescape :: "string \<Rightarrow> string" where
  "unescape [] = []"
| "unescape (c # r) =
     (if starts_with ''&amp;'' (c # r) then CHR ''&'' # unescape (drop 4 r)
      else if starts_with ''&lt;'' (c # r) then CHR ''<'' # unescape (drop 3 r)
      else if starts_with ''&gt;'' (c # r) then CHR ''>'' # unescape (drop 3 r)
      else c # unescape r)"

definition svg_texts :: "string \<Rightarrow> string list" where
  "svg_texts svg =
     map (\<lambda>p. unescape (tl (dropWhile (\<lambda>c. c \<noteq> CHR ''>'') p)))
       (filter (starts_with ''text '') (split_on (CHR ''<'') svg))"

lemma starts_with_append: "starts_with p (p @ s)"
  by (induction p) auto

text \<open>The three passes of \<open>xmlEscape\<close> are one.\<close>

definition escape_char :: "char \<Rightarrow> string" where
  "escape_char c = (if c = CHR ''&'' then ''&amp;'' else if c = CHR ''<'' then ''&lt;'' else if c = CHR ''>'' then ''&gt;'' else [c])"

lemma xmlEscape_char: "xmlEscape s = concat (map escape_char s)"
proof (induction s)
  case (Cons c s)
  have "xmlEscape (c # s) = xmlEscape [c] @ xmlEscape s" by (simp add: xmlEscape_def replace_all_def)
  moreover have "xmlEscape [c] = escape_char c" by (simp add: xmlEscape_def replace_all_def escape_char_def)
  ultimately show ?case using Cons by simp
qed (simp add: xmlEscape_def replace_all_def)

lemma unescape_escape_char: "unescape (escape_char c @ s) = c # unescape s"
  by (simp add: escape_char_def)

lemma unescape_xmlEscape: "unescape (xmlEscape s) = s"
  unfolding xmlEscape_char by (induction s) (simp_all add: unescape_escape_char)

lemma xmlEscape_markup: "CHR ''<'' \<notin> set (xmlEscape s) \<and> CHR ''>'' \<notin> set (xmlEscape s)"
  unfolding xmlEscape_char by (induction s) (auto simp: escape_char_def)

section \<open>The texts of the parts\<close>

definition piece_text :: "string \<Rightarrow> string list" where
  "piece_text p = (if starts_with ''text '' p then [unescape (tl (dropWhile (\<lambda>c. c \<noteq> CHR ''>'') p))] else [])"

definition part_texts :: "string \<Rightarrow> string list" where
  "part_texts p = concat (map piece_text (tl (split_on (CHR ''<'') p)))"

lemma split_append: "split_on c (p @ c # r) = split_on c p @ split_on c r"
  by (induction p) (auto split: list.splits)

lemma split_none: "c \<notin> set p \<Longrightarrow> split_on c p = [p]"
  by (induction p) auto

lemma split_parts:
  "(\<And>p. p \<in> set ps \<Longrightarrow> \<exists>q. p = c # q) \<Longrightarrow> split_on c (concat ps) = [] # concat (map (\<lambda>p. tl (split_on c p)) ps)"
proof (induction ps)
  case (Cons p ps)
  note prems = Cons.prems
  obtain q where p: "p = c # q" using prems by auto
  have ih: "split_on c (concat ps) = [] # concat (map (\<lambda>p. tl (split_on c p)) ps)" using Cons by simp
  show ?case
  proof (cases "concat ps")
    case Nil
    have "ps = []"
    proof (cases ps)
      case (Cons p' ps')
      then have "\<exists>q. p' = c # q" using prems by simp
      then show ?thesis using Nil Cons by auto
    qed
    then show ?thesis by (simp add: p)
  next
    case rest: (Cons x r)
    have "x = c"
    proof (cases ps)
      case Nil
      then show ?thesis using rest by simp
    next
      case (Cons p' ps')
      then have "\<exists>q. p' = c # q" using prems by simp
      then show ?thesis using rest Cons by auto
    qed
    then show ?thesis using ih rest by (simp add: p split_append)
  qed
qed simp

lemma texts_of_pieces:
  "map (\<lambda>p. unescape (tl (dropWhile (\<lambda>c. c \<noteq> CHR ''>'') p))) (filter (starts_with ''text '') ps) = concat (map piece_text ps)"
  by (induction ps) (simp_all add: piece_text_def)

lemma svg_texts_parts:
  assumes "\<And>p. p \<in> set ps \<Longrightarrow> \<exists>q. p = CHR ''<'' # q"
  shows "svg_texts (concat ps) = concat (map part_texts ps)"
proof -
  have "concat (map piece_text (concat (map (\<lambda>p. tl (split_on (CHR ''<'') p)) ps))) = concat (map part_texts ps)"
    by (induction ps) (simp_all add: part_texts_def)
  moreover have "piece_text [] = []" by (simp add: piece_text_def)
  ultimately show ?thesis
    by (simp add: svg_texts_def texts_of_pieces split_parts [OF assms])
qed

lemma one_tag: "CHR ''<'' \<notin> set b \<Longrightarrow> part_texts (CHR ''<'' # b) = piece_text b"
  by (simp add: part_texts_def split_none)

lemma two_tags:
  "CHR ''<'' \<notin> set a \<Longrightarrow> CHR ''<'' \<notin> set b \<Longrightarrow> part_texts (CHR ''<'' # a @ CHR ''<'' # b) = piece_text a @ piece_text b"
  by (simp add: part_texts_def split_append split_none)

lemma piece_text_element:
  "CHR ''>'' \<notin> set a \<Longrightarrow> piece_text (''text '' @ a @ CHR ''>'' # s) = [unescape s]"
  by (simp add: piece_text_def) (subst dropWhile_append2, auto)

lemma attr_chars [simp]: "set (attr k v) = set '' =\"'' \<union> set k \<union> set v"
  by (auto simp: attr_def)

lemma digits_chars [simp]: "CHR ''<'' \<notin> set (digits n)" "CHR ''>'' \<notin> set (digits n)"
  using digits_are_digits [of n] by (auto simp: list_all_iff is_digit_def)

lemma palette_plain:
  assumes "map_of PALETTE theme = Some pal"
  shows "CHR ''<'' \<notin> set (pal_bg pal) \<and> CHR ''<'' \<notin> set (pal_chrome pal) \<and> CHR ''<'' \<notin> set (pal_fg pal) \<and>
    CHR ''<'' \<notin> set (pal_title pal) \<and> CHR ''>'' \<notin> set (pal_fg pal) \<and> CHR ''>'' \<notin> set (pal_title pal)"
  using assms by (auto simp: PALETTE_def split: if_splits)

lemma rect_texts: "CHR ''<'' \<notin> set s \<Longrightarrow> part_texts (''<rect'' @ s) = []"
  using one_tag [of "''rect'' @ s"] by (simp add: piece_text_def)

lemma head_texts:
  assumes "map_of PALETTE theme = Some pal" "CHR ''<'' \<notin> set fontB64"
  shows "concat (map part_texts (svg_head fontB64 pal w h)) = []"
proof -
  note pal = palette_plain [OF assms(1)]
  have svg: "part_texts (''<svg'' @ s) = []" if "CHR ''<'' \<notin> set s" for s
    using one_tag [of "''svg'' @ s"] that by (simp add: piece_text_def)
  have style: "part_texts (''<style>'' @ s @ ''</style>'') = []" if "CHR ''<'' \<notin> set s" for s
    using two_tags [of "''style>'' @ s" "''/style>''"] that by (simp add: piece_text_def)
  let ?css = "''@font-face{font-family:\"TermMono\";font-style:normal;font-weight:400;'' @
      ''src:url(data:font/woff2;base64,'' @ fontB64 @ '') format(\"woff2\");}'' @
      ''text{font-family:\"TermMono\",monospace;font-size:'' @ digits FONT_SIZE @ ''px;'' @
      ''white-space:pre;dominant-baseline:alphabetic;}''"
  have css: "part_texts (''<style>'' @ ?css @ ''</style>'') = []" by (rule style) (use assms(2) in simp)
  have "part_texts p = []" if "p \<in> set (svg_head fontB64 pal w h)" for p
    using that unfolding svg_head_def list.set insert_iff empty_iff
  proof (elim disjE FalseE)
    assume p: "p = ''<style>'' @ ''@font-face{font-family:\"TermMono\";font-style:normal;font-weight:400;'' @
        ''src:url(data:font/woff2;base64,'' @ fontB64 @ '') format(\"woff2\");}'' @
        ''text{font-family:\"TermMono\",monospace;font-size:'' @ digits FONT_SIZE @ ''px;'' @
        ''white-space:pre;dominant-baseline:alphabetic;}</style>''"
    show ?thesis unfolding p using css by simp
  qed (hypsubst, (rule svg | rule rect_texts), simp add: pal nat_attr_def)+
  then show ?thesis by (simp add: concat_eq_Nil_conv)
qed

lemma dot_texts: "part_texts (svg_dot (i, dot)) = []" if "CHR ''<'' \<notin> set dot"
proof -
  have "part_texts (''<circle'' @ s) = []" if "CHR ''<'' \<notin> set s" for s
    using one_tag [of "''circle'' @ s"] that by (simp add: piece_text_def)
  then show ?thesis using that by (simp add: svg_dot_def nat_attr_def)
qed

lemma text_element:
  assumes "CHR ''<'' \<notin> set a" "CHR ''>'' \<notin> set a" "CHR ''<'' \<notin> set s"
  shows "part_texts (''<text '' @ a @ ''>'' @ s @ ''</text>'') = [unescape s]"
proof -
  have "part_texts (CHR ''<'' # (''text '' @ a @ CHR ''>'' # s) @ CHR ''<'' # ''/text>'') =
      piece_text (''text '' @ a @ CHR ''>'' # s) @ piece_text ''/text>''"
    by (rule two_tags) (use assms in auto)
  also have "\<dots> = [unescape s]" unfolding piece_text_element [OF assms(2)] by (simp add: piece_text_def)
  finally show ?thesis by simp
qed

lemma x_attr:
  obtains a where "nat_attr ''x'' n = CHR '' '' # a" "CHR ''<'' \<notin> set a" "CHR ''>'' \<notin> set a"
proof -
  let ?a = "''x='' @ [CHR 0x22] @ digits n @ [CHR 0x22]"
  have "nat_attr ''x'' n = CHR '' '' # ?a" by (simp add: nat_attr_def attr_def)
  moreover have "CHR ''<'' \<notin> set ?a" "CHR ''>'' \<notin> set ?a" by simp_all
  ultimately show ?thesis by (rule that)
qed

lemma text_with_x:
  assumes "CHR ''<'' \<notin> set b" "CHR ''>'' \<notin> set b" "CHR ''<'' \<notin> set s"
  shows "part_texts (''<text'' @ nat_attr ''x'' n @ b @ ''>'' @ s @ ''</text>'') = [unescape s]"
proof -
  obtain a where a: "nat_attr ''x'' n = CHR '' '' # a" "CHR ''<'' \<notin> set a" "CHR ''>'' \<notin> set a" by (rule x_attr)
  have "part_texts (''<text '' @ (a @ b) @ ''>'' @ s @ ''</text>'') = [unescape s]"
    by (rule text_element) (use a assms in auto)
  then show ?thesis by (simp add: a(1))
qed

lemma line_texts:
  assumes "map_of PALETTE theme = Some pal"
  shows "concat (map part_texts (svg_line pal (row, line))) = (if line = [] then [] else [line])"
proof -
  let ?attrs = "nat_attr ''y'' (baseline0 + row * LINE_H) @ attr ''fill'' (pal_fg pal) @
      nat_attr ''textLength'' (length line * CELL_W) @ attr ''lengthAdjust'' ''spacing'' @ attr ''xml:space'' ''preserve''"
  have "CHR ''<'' \<notin> set ?attrs" "CHR ''>'' \<notin> set ?attrs"
    using palette_plain [OF assms] by (simp_all add: nat_attr_def)
  then have "part_texts (''<text'' @ nat_attr ''x'' PAD_X @ ?attrs @ ''>'' @ xmlEscape line @ ''</text>'') = [unescape (xmlEscape line)]"
    by (rule text_with_x) (use xmlEscape_markup [of line] in blast)
  then show ?thesis by (simp add: svg_line_def unescape_xmlEscape)
qed

lemma title_text:
  assumes "map_of PALETTE theme = Some pal"
  shows "part_texts (svg_title pal w) = [''allowlister-remote'']"
proof -
  let ?attrs = "nat_attr ''y'' (CHROME_H div 2 + 5) @ attr ''text-anchor'' ''middle'' @
       nat_attr ''font-size'' 13 @ attr ''fill'' (pal_title pal)"
  have "CHR ''<'' \<notin> set ?attrs" "CHR ''>'' \<notin> set ?attrs"
    using palette_plain [OF assms] by (simp_all add: nat_attr_def)
  then have "part_texts (''<text'' @ nat_attr ''x'' (w div 2) @ ?attrs @ ''>'' @ ''allowlister-remote'' @ ''</text>'') =
      [unescape ''allowlister-remote'']"
    by (rule text_with_x) simp
  moreover have "unescape ''allowlister-remote'' = ''allowlister-remote''" by code_simp
  ultimately show ?thesis by (simp add: svg_title_def)
qed

lemma cursor_texts:
  assumes "map_of PALETTE theme = Some pal"
  shows "part_texts (svg_cursor pal ls) = []"
  unfolding svg_cursor_def by (rule rect_texts) (use palette_plain [OF assms] in \<open>simp add: nat_attr_def\<close>)

lemma lines_texts:
  assumes "map_of PALETTE theme = Some pal"
  shows "concat (map part_texts (concat (map (svg_line pal) (enumerate n ls)))) = filter (\<lambda>l. l \<noteq> []) ls"
  by (induction ls arbitrary: n) (simp_all add: line_texts [OF assms])

lemma dots_texts: "concat (map part_texts (map svg_dot (enumerate 0 DOTS))) = []"
proof -
  have "part_texts (svg_dot d) = []" if "d \<in> set (enumerate 0 DOTS)" for d
    using that by (auto simp: DOTS_def simp del: map_append intro!: dot_texts)
  then show ?thesis by (simp add: concat_eq_Nil_conv)
qed

lemma end_texts: "part_texts (''</svg>'' @ [newline]) = []"
  by (simp add: part_texts_def piece_text_def newline_def)

lemma parts_open: "p \<in> set (svg_parts fontB64 pal ls) \<Longrightarrow> \<exists>q. p = CHR ''<'' # q"
  by (auto simp: svg_parts_def svg_head_def svg_dot_def svg_title_def svg_line_def svg_cursor_def split: if_splits)

lemma parts_texts:
  assumes "map_of PALETTE theme = Some pal" "CHR ''<'' \<notin> set fontB64"
  shows "svg_texts (concat (svg_parts fontB64 pal ls)) = ''allowlister-remote'' # filter (\<lambda>l. l \<noteq> []) ls"
proof -
  have "svg_texts (concat (svg_parts fontB64 pal ls)) = concat (map part_texts (svg_parts fontB64 pal ls))"
    by (rule svg_texts_parts) (rule parts_open)
  also have "\<dots> = concat (map part_texts (svg_head fontB64 pal (svg_width ls) (svg_height ls))) @
      concat (map part_texts (map svg_dot (enumerate 0 DOTS))) @ part_texts (svg_title pal (svg_width ls)) @
      concat (map part_texts (concat (map (svg_line pal) (enumerate 0 ls)))) @ part_texts (svg_cursor pal ls) @
      part_texts (''</svg>'' @ [newline])"
    by (simp only: svg_parts_def map_append concat_append list.map concat.simps append_Nil append_Nil2 append_assoc)
  also have "\<dots> = ''allowlister-remote'' # filter (\<lambda>l. l \<noteq> []) ls"
    by (simp only: head_texts [OF assms] dots_texts title_text [OF assms(1)] lines_texts [OF assms(1)] cursor_texts [OF assms(1)] append_Nil append_Nil2 append_Cons)
      (use end_texts in simp)
  finally show ?thesis .
qed

lemma trim_lines_texts: "filter (\<lambda>l. l \<noteq> []) (trim_lines ls) = filter (\<lambda>l. l \<noteq> []) ls"
proof -
  have drop: "filter (\<lambda>l. l \<noteq> []) (dropWhile (\<lambda>l. l = []) xs) = filter (\<lambda>l. l \<noteq> []) xs" for xs :: "string list"
    by (induction xs) auto
  show ?thesis by (simp only: trim_lines_def rev_filter [symmetric] drop rev_rev_ident)
qed

lemma trim_lines_empty: "trim_lines ls = [] \<longleftrightarrow> (\<forall>l\<in>set ls. l = [])"
proof
  assume "trim_lines ls = []"
  then have "filter (\<lambda>l. l \<noteq> []) ls = []" using trim_lines_texts [of ls] by simp
  then show "\<forall>l\<in>set ls. l = []" by (simp add: filter_empty_conv)
qed (auto simp: trim_lines_def dest: set_dropWhileD)

text \<open>
  C37. The picture of a terminal prompt shows the prompt: for both themes, whatever the prompt is and
  whatever markup it holds, the texts a reader of the SVG finds in it, entities resolved, are the
  window's title and then the lines of the prompt in order, less the empty ones. The renderer
  throws on the prompts with no line to show, and on no other.
\<close>

theorem terminal_svg_shows_prompt:
  assumes "theme \<in> set THEMES" "CHR ''<'' \<notin> set fontB64"
  shows "map_option svg_texts (renderTerminalSvg fontB64 prompt theme) =
    (let ls = filter (\<lambda>l. l \<noteq> []) (split_on newline prompt)
     in if ls = [] then None else Some (''allowlister-remote'' # ls))"
proof -
  obtain pal where pal: "map_of PALETTE theme = Some pal"
    using assms(1) by (auto simp: THEMES_def PALETTE_def)
  have "trim_lines (split_on newline prompt) = [] \<longleftrightarrow> filter (\<lambda>l. l \<noteq> []) (split_on newline prompt) = []"
    by (simp add: trim_lines_empty filter_empty_conv)
  then show ?thesis
    by (simp add: renderTerminalSvg_def pal Let_def parts_texts [OF pal assms(2)] trim_lines_texts)
qed

theorem terminal_svg_shows_prompt_witness:
  "map_option svg_texts (renderTerminalSvg ''AA=='' ([newline] @ ''Allow <ls>?'' @ [newline, newline] @ ''[y/n]'' @ [newline]) ''dark'') =
    Some [''allowlister-remote'', ''Allow <ls>?'', ''[y/n]'']"
proof -
  have "map_option svg_texts (renderTerminalSvg ''AA=='' ([newline] @ ''Allow <ls>?'' @ [newline, newline] @ ''[y/n]'' @ [newline]) ''dark'') =
    (let ls = filter (\<lambda>l. l \<noteq> []) (split_on newline ([newline] @ ''Allow <ls>?'' @ [newline, newline] @ ''[y/n]'' @ [newline]))
     in if ls = [] then None else Some (''allowlister-remote'' # ls))"
    by (rule terminal_svg_shows_prompt) (simp_all add: THEMES_def)
  then show ?thesis by (simp add: newline_def)
qed

end
