(* ===== verification/CaptureIndex.thy ===== *)
theory CaptureIndex
  imports FileTree JsonRoundtrip "HOL-Library.Multiset" "HOL-Library.List_Lexorder"
begin

text \<open>
  \<^verbatim>\<open>apps/web/screenshots/capture-index.ts\<close>: the record of the screenshots, a file \<open>captures.json\<close>
  beside the images. A shot is written and its entry inserted, or put in the place of the one with
  the same identity. The index is read back from the file each time, so it is an untyped value.

  The digest and \<open>localeCompare\<close> (as \<open>le a b\<close>, \<open>a.localeCompare(b) <= 0\<close>) are parameters; the
  awaited file operations run one after the other, since the captures run in a single worker.
\<close>

section \<open>Where the captures go\<close>

definition HOST_ARCH :: "string \<Rightarrow> string option" where
  "HOST_ARCH = map_of [(''x64'', ''x86_64''), (''arm64'', ''arm64'')]"

definition host_arch :: "string \<Rightarrow> string" where
  "host_arch arch = (case HOST_ARCH arch of None \<Rightarrow> arch | Some a \<Rightarrow> a)"

definition shotsOut :: "string option \<Rightarrow> string \<Rightarrow> string" where
  "shotsOut SHOTS_OUT arch = (case SHOTS_OUT of None \<Rightarrow> ''shots/current/'' @ host_arch arch | Some dir \<Rightarrow> dir)"

definition captureRoot :: "string \<Rightarrow> string option \<Rightarrow> string \<Rightarrow> string" where
  "captureRoot repoRoot SHOTS_OUT arch =
     (let dir = shotsOut SHOTS_OUT arch in if is_absolute dir then dir else path_resolve repoRoot dir)"

text \<open>The names along \<open>resolve(captureRoot, name)\<close>.\<close>

definition in_root :: "string \<Rightarrow> string \<Rightarrow> string list" where
  "in_root root name = segs root name"

definition INDEX :: string where
  "INDEX = ''captures.json''"

definition indexPath :: "string \<Rightarrow> string list" where
  "indexPath root = in_root root INDEX"

section \<open>Shots\<close>

record shot =
  sh_name :: string
  sh_toggles :: "(string \<times> string) list"
  sh_hash :: string
  sh_image :: string

definition toggles_value :: "(string \<times> string) list \<Rightarrow> js" where
  "toggles_value toggles = Obj (map (\<lambda>(k, v). (k, Str v)) toggles)"

definition shot_value :: "shot \<Rightarrow> js" where
  "shot_value s =
     Obj [(''name'', Str (sh_name s)), (''toggles'', toggles_value (sh_toggles s)),
          (''hash'', Str (sh_hash s)), (''image'', Str (sh_image s))]"

text \<open>\<open>identity\<close> of an entry of the file, which may be anything, and of a shot.\<close>

definition identity :: "js \<Rightarrow> string option" where
  "identity v =
     (if nullish v then None
      else Option.bind (js_String (member v ''name'')) (\<lambda>name. Some (name @ '' '' @ json_text (member v ''toggles''))))"

definition shot_identity :: "shot \<Rightarrow> string" where
  "shot_identity s = sh_name s @ '' '' @ json_text (toggles_value (sh_toggles s))"

definition index_value :: "js list \<Rightarrow> js" where
  "index_value shots = Obj [(''schema'', Num (Dec False 1 1)), (''shots'', Arr shots)]"

definition serialize :: "js list \<Rightarrow> string" where
  "serialize shots = pretty_line (index_value shots)"

section \<open>The operations\<close>

definition resetCaptureRoot :: "string \<Rightarrow> fs_node \<Rightarrow> fs_node outcome" where
  "resetCaptureRoot root t =
     (let t1 = rm_sync t (segs root [])
      in case mkdir_sync t1 (segs root []) of
           None \<Rightarrow> (t1, Some ''cannot make the directory'')
         | Some t2 \<Rightarrow>
             (case write_file_sync t2 (indexPath root) (serialize []) of
                None \<Rightarrow> (t2, Some ''cannot write'')
              | Some t3 \<Rightarrow> (t3, None)))"

text \<open>\<open>Array.prototype.sort\<close>, which is stable, on entries with their identities.\<close>

fun insert_sorted :: "(string \<Rightarrow> string \<Rightarrow> bool) \<Rightarrow> string \<times> 'a \<Rightarrow> (string \<times> 'a) list \<Rightarrow> (string \<times> 'a) list" where
  "insert_sorted le x [] = [x]"
| "insert_sorted le x (y # ys) = (if le (fst x) (fst y) then x # y # ys else y # insert_sorted le x ys)"

definition sort_shots :: "(string \<Rightarrow> string \<Rightarrow> bool) \<Rightarrow> (string \<times> 'a) list \<Rightarrow> (string \<times> 'a) list" where
  "sort_shots le xs = foldr (insert_sorted le) xs []"

definition upsert :: "(string \<Rightarrow> string \<Rightarrow> bool) \<Rightarrow> js \<Rightarrow> shot \<Rightarrow> js list option" where
  "upsert le shots next_shot =
     (case shots of
        Arr xs \<Rightarrow>
          map_option (\<lambda>ids.
              map snd (sort_shots le
                (filter (\<lambda>x. fst x \<noteq> shot_identity next_shot) (zip ids xs) @ [(shot_identity next_shot, shot_value next_shot)])))
            (traverse identity xs)
      | _ \<Rightarrow> None)"

datatype ext = Png | Svg

fun ext_string :: "ext \<Rightarrow> string" where
  "ext_string Png = ''png''"
| "ext_string Svg = ''svg''"

record recording =
  rc_name :: string
  rc_toggles :: "(string \<times> string) list"
  rc_bytes :: string
  rc_ext :: ext

definition image_name :: "recording \<Rightarrow> string" where
  "image_name r = rc_name r @ ''-'' @ join ''-'' (map snd (rc_toggles r)) @ ''.'' @ ext_string (rc_ext r)"

definition next_shot :: "(string \<Rightarrow> string) \<Rightarrow> recording \<Rightarrow> shot" where
  "next_shot sha256 r =
     \<lparr>sh_name = rc_name r, sh_toggles = rc_toggles r, sh_hash = sha256 (rc_bytes r), sh_image = image_name r\<rparr>"

definition recordShot ::
    "(string \<Rightarrow> string) \<Rightarrow> (string \<Rightarrow> string \<Rightarrow> bool) \<Rightarrow> string \<Rightarrow> recording \<Rightarrow> fs_node \<Rightarrow> fs_node outcome" where
  "recordShot sha256 le root r t =
     (case write_file_sync t (in_root root (image_name r)) (rc_bytes r) of
        None \<Rightarrow> (t, Some ''cannot write'')
      | Some t1 \<Rightarrow>
          (case read_file_sync t1 (indexPath root) of
             None \<Rightarrow> (t1, Some ''ENOENT'')
           | Some text \<Rightarrow>
               (case js_parse text of
                  None \<Rightarrow> (t1, Some ''SyntaxError'')
                | Some index \<Rightarrow>
                    (case upsert le (member index ''shots'') (next_shot sha256 r) of
                       None \<Rightarrow> (t1, Some ''TypeError'')
                     | Some shots \<Rightarrow>
                         (case write_file_sync t1 (indexPath root) (serialize shots) of
                            None \<Rightarrow> (t1, Some ''cannot write'')
                          | Some t2 \<Rightarrow> (t2, None))))))"

section \<open>Sorting\<close>

text \<open>What the proofs use of \<open>localeCompare\<close>: it is a total preorder.\<close>

definition collation :: "(string \<Rightarrow> string \<Rightarrow> bool) \<Rightarrow> bool" where
  "collation le \<longleftrightarrow> (\<forall>a b. le a b \<or> le b a) \<and> (\<forall>a b c. le a b \<longrightarrow> le b c \<longrightarrow> le a c)"

lemma collation_total: "collation le \<Longrightarrow> \<not> le a b \<Longrightarrow> le b a"
  by (auto simp: collation_def)

lemma collation_trans: "collation le \<Longrightarrow> le a b \<Longrightarrow> le b c \<Longrightarrow> le a c"
  by (auto simp: collation_def)

lemma mset_insert_sorted: "mset (insert_sorted le x xs) = add_mset x (mset xs)"
  by (induction xs) auto

lemma mset_sort_shots [simp]: "mset (sort_shots le xs) = mset xs"
  by (induction xs) (auto simp: sort_shots_def mset_insert_sorted)

lemma set_sort_shots [simp]: "set (sort_shots le xs) = set xs"
  by (metis mset_sort_shots set_mset_mset)

lemma sorted_insert_sorted:
  assumes "collation le" "sorted_wrt le (map fst xs)" shows "sorted_wrt le (map fst (insert_sorted le x xs))"
  using assms(2)
proof (induction xs)
  case (Cons y ys)
  have keys: "fst ` set (insert_sorted le x ys) = insert (fst x) (fst ` set ys)"
    using mset_insert_sorted [of le x ys] by (metis image_insert set_mset_add_mset_insert set_mset_mset)
  have y: "\<forall>z \<in> fst ` set ys. le (fst y) z" and ys: "sorted_wrt le (map fst ys)" using Cons.prems by simp_all
  show ?case
  proof (cases "le (fst x) (fst y)")
    case True
    then have "\<forall>z \<in> fst ` set ys. le (fst x) z" using y collation_trans [OF assms(1)] by blast
    then show ?thesis using True y ys by simp
  next
    case False
    then have "le (fst y) (fst x)" by (rule collation_total [OF assms(1)])
    then have "\<forall>z \<in> fst ` set (insert_sorted le x ys). le (fst y) z" unfolding keys using y by blast
    then show ?thesis using False Cons.IH [OF ys] by simp
  qed
qed simp

lemma sorted_sort_shots: "collation le \<Longrightarrow> sorted_wrt le (map fst (sort_shots le xs))"
  by (induction xs) (auto simp: sort_shots_def sorted_insert_sorted)

lemma distinct_sort_shots: "distinct (map fst (sort_shots le xs)) = distinct (map fst xs)"
  by (metis mset_map mset_sort_shots mset_eq_imp_distinct_iff)

section \<open>Writing into a directory\<close>

lemma put_in_dir:
  "at_path t d = Some (Dir es) \<Longrightarrow>
     \<exists>t'. put_node t (d @ [n]) v = Some t' \<and> at_path t' d = Some (Dir (AList.update n v es))"
proof (induction t d rule: at_path.induct)
  case (1 t)
  then show ?case by (cases "map_of es n") auto
next
  case (3 xs k p)
  obtain t1 where k: "map_of xs k = Some t1" "at_path t1 p = Some (Dir es)"
    using 3(2) by (auto split: option.splits)
  obtain t' where t': "put_node t1 (p @ [n]) v = Some t'" "at_path t' p = Some (Dir (AList.update n v es))"
    using 3(1) [OF k] by blast
  show ?case by (simp add: k t' update_conv')
qed simp

lemma write_in_dir:
  assumes "at_path t d = Some (Dir es)" "map_of es n = None \<or> (\<exists>b'. map_of es n = Some (File b' default_mode))"
  shows "\<exists>t'. write_file_sync t (d @ [n]) b = Some t' \<and> at_path t' d = Some (Dir (AList.update n (File b default_mode) es))"
proof -
  have n: "at_path t (d @ [n]) = (case map_of es n of None \<Rightarrow> None | Some v \<Rightarrow> Some v)"
    using assms(1) by (simp add: at_path_append split: option.split)
  show ?thesis
    using put_in_dir [OF assms(1), of n "File b default_mode"] assms(2) n by (auto simp: write_file_sync_def)
qed

lemma at_rm_same: "p \<noteq> [] \<Longrightarrow> at_path (rm_sync t p) p = None"
proof (induction t p rule: rm_sync.induct)
  case (3 es n p)
  then show ?case by (cases "map_of es n") (auto simp: delete_conv' update_conv')
qed auto

section \<open>The index read back\<close>

lemma index_exact:
  assumes "\<forall>s \<in> set ss. json_exact (toggles_value (sh_toggles s))"
  shows "json_exact (index_value (map shot_value ss))"
proof -
  have "json_exact (shot_value s)" if "s \<in> set ss" for s
    using assms that by (simp add: shot_value_def make_object_def put_member_def comes_before_def array_index_def is_digit_def)
  moreover have "exact_number (Dec False 1 1)" by code_simp
  ultimately show ?thesis
    by (simp add: index_value_def make_object_def put_member_def comes_before_def array_index_def is_digit_def)
qed

lemma parse_index:
  assumes "\<forall>s \<in> set ss. json_exact (toggles_value (sh_toggles s))"
  shows "js_parse (serialize (map shot_value ss)) = Some (index_value (map shot_value ss))"
proof -
  have "index_value (map shot_value ss) \<noteq> Undefined" by (simp add: index_value_def)
  then have "js_parse (serialize (map shot_value ss)) = Some (json_image (index_value (map shot_value ss)))"
    unfolding serialize_def by (rule pretty_line_parses)
  then show ?thesis by (simp only: json_image_exact(1) [OF index_exact [OF assms]])
qed

lemma identity_shot [simp]: "identity (shot_value s) = Some (shot_identity s)"
  by (simp add: identity_def shot_value_def nullish_def shot_identity_def)

definition keyed :: "shot list \<Rightarrow> (string \<times> shot) list" where
  "keyed ss = map (\<lambda>s. (shot_identity s, s)) ss"

lemma insert_sorted_map:
  "insert_sorted le (fst x, f (snd x)) (map (\<lambda>x. (fst x, f (snd x))) xs) = map (\<lambda>x. (fst x, f (snd x))) (insert_sorted le x xs)"
  by (induction xs) auto

lemma sort_shots_map:
  "sort_shots le (map (\<lambda>x. (fst x, f (snd x))) xs) = map (\<lambda>x. (fst x, f (snd x))) (sort_shots le xs)"
  by (induction xs) (simp_all add: sort_shots_def insert_sorted_map [symmetric])

definition upserted :: "(string \<Rightarrow> string \<Rightarrow> bool) \<Rightarrow> shot list \<Rightarrow> shot \<Rightarrow> shot list" where
  "upserted le ss s = map snd (sort_shots le (keyed (filter (\<lambda>x. shot_identity x \<noteq> shot_identity s) ss @ [s])))"

lemma upsert_shots: "upsert le (Arr (map shot_value ss)) s = Some (map shot_value (upserted le ss s))"
proof -
  have ids: "traverse identity (map shot_value ss) = Some (map shot_identity ss)"
    by (induction ss) auto
  have "filter (\<lambda>x. fst x \<noteq> shot_identity s) (zip (map shot_identity ss) (map shot_value ss)) @ [(shot_identity s, shot_value s)] =
      map (\<lambda>x. (fst x, shot_value (snd x))) (keyed (filter (\<lambda>x. shot_identity x \<noteq> shot_identity s) ss @ [s]))"
    by (induction ss) (auto simp: keyed_def)
  then show ?thesis by (simp add: upsert_def ids sort_shots_map upserted_def)
qed

lemma keyed_upserted: "keyed (upserted le ss s) = sort_shots le (keyed (filter (\<lambda>x. shot_identity x \<noteq> shot_identity s) ss @ [s]))"
proof -
  let ?xs = "sort_shots le (keyed (filter (\<lambda>x. shot_identity x \<noteq> shot_identity s) ss @ [s]))"
  have "(shot_identity (snd x), snd x) = x" if "x \<in> set ?xs" for x
    using that by (auto simp: keyed_def)
  then have "map (\<lambda>x. (shot_identity (snd x), snd x)) ?xs = ?xs" by (rule map_idI)
  moreover have "keyed (map snd xs) = map (\<lambda>x. (shot_identity (snd x), snd x)) xs" for xs :: "(string \<times> shot) list"
    by (simp add: keyed_def)
  ultimately show ?thesis unfolding upserted_def by simp
qed

lemma map_of_keyed_filter:
  "map_of (keyed (filter (\<lambda>x. shot_identity x \<noteq> i) ss @ [s])) k =
     (if k = i \<and> shot_identity s = i then Some s else if k = i then None
      else (case map_of (keyed ss) k of None \<Rightarrow> if k = shot_identity s then Some s else None | Some x \<Rightarrow> Some x))"
  by (induction ss) (auto simp: keyed_def)

lemma upserted_keys:
  assumes "distinct (map fst (keyed ss))"
  shows "distinct (map fst (keyed (upserted le ss s)))" and
    "map_of (keyed (upserted le ss s)) = (map_of (keyed ss))(shot_identity s \<mapsto> s)"
proof -
  let ?xs = "keyed (filter (\<lambda>x. shot_identity x \<noteq> shot_identity s) ss @ [s])"
  have d: "distinct (map fst ?xs)" using assms by (auto simp: keyed_def o_def distinct_map_filter)
  then show e: "distinct (map fst (keyed (upserted le ss s)))" unfolding keyed_upserted distinct_sort_shots .
  have "map_of (keyed (upserted le ss s)) = map_of ?xs"
    using map_of_inject_set [OF e d] by (simp only: keyed_upserted set_sort_shots)
  also have "\<dots> = (map_of (keyed ss))(shot_identity s \<mapsto> s)"
    by (rule ext) (auto simp: map_of_keyed_filter split: option.split)
  finally show "map_of (keyed (upserted le ss s)) = (map_of (keyed ss))(shot_identity s \<mapsto> s)" .
qed

section \<open>The state of a capture run\<close>

text \<open>The last value recorded under a key.\<close>

definition latest :: "('a \<Rightarrow> string) \<Rightarrow> ('a \<Rightarrow> 'b) \<Rightarrow> 'a list \<Rightarrow> string \<Rightarrow> 'b option" where
  "latest key val rs = map_of (rev (map (\<lambda>r. (key r, val r)) rs))"

lemma latest_snoc: "latest key val (rs @ [r]) = (latest key val rs)(key r \<mapsto> val r)"
  by (simp add: latest_def)

lemma latest_Some: "latest key val rs k = Some v \<Longrightarrow> \<exists>r \<in> set rs. key r = k \<and> val r = v"
  by (auto simp: latest_def dest!: map_of_SomeD)

definition in_step :: "(string \<Rightarrow> string) \<Rightarrow> (string \<Rightarrow> string \<Rightarrow> bool) \<Rightarrow> recording list \<Rightarrow> shot list \<Rightarrow> bool" where
  "in_step sha256 le rs ss \<longleftrightarrow>
     sorted_wrt le (map fst (keyed ss)) \<and> distinct (map fst (keyed ss)) \<and>
     map_of (keyed ss) = latest (\<lambda>r. shot_identity (next_shot sha256 r)) (next_shot sha256) rs"

definition captured :: "(string \<Rightarrow> string) \<Rightarrow> (string \<Rightarrow> string \<Rightarrow> bool) \<Rightarrow> string \<Rightarrow> recording list \<Rightarrow> shot list \<Rightarrow> fs_node \<Rightarrow> bool" where
  "captured sha256 le root rs ss t \<longleftrightarrow>
     in_step sha256 le rs ss \<and>
     (\<exists>es. at_path t (segs root []) = Some (Dir es) \<and>
        map_of es INDEX = Some (File (serialize (map shot_value ss)) default_mode) \<and>
        (\<forall>n. n \<noteq> INDEX \<longrightarrow> map_of es n = map_option (\<lambda>b. File b default_mode) (latest image_name rc_bytes rs n)))"

definition recordable :: "recording \<Rightarrow> bool" where
  "recordable r \<longleftrightarrow> slash \<notin> set (image_name r) \<and> json_exact (toggles_value (rc_toggles r))"

lemma image_not_index: "image_name r \<noteq> INDEX"
proof -
  have "last (image_name r) = CHR ''g''" by (cases "rc_ext r") (simp_all add: image_name_def)
  then show ?thesis by (auto simp: INDEX_def)
qed

lemma in_root_proper: "proper_seg n \<Longrightarrow> in_root root n = segs root [] @ [n]"
  using segs_join [of n root "[]"] by (simp add: in_root_def join_path_def segs_normalize)

lemma indexPath_segs: "indexPath root = segs root [] @ [INDEX]"
  unfolding indexPath_def by (rule in_root_proper) (simp add: INDEX_def proper_seg_def slash_def)

lemma image_segs: "recordable r \<Longrightarrow> in_root root (image_name r) = segs root [] @ [image_name r]"
proof (rule in_root_proper)
  assume "recordable r"
  moreover have "length (image_name r) \<ge> 4" by (cases "rc_ext r") (simp_all add: image_name_def)
  ultimately show "proper_seg (image_name r)" by (auto simp: proper_seg_def recordable_def)
qed

lemma reset_captured:
  assumes "resetCaptureRoot root t = (t', None)" "segs root [] \<noteq> []"
  shows "captured sha256 le root [] [] t'"
proof -
  let ?d = "segs root []"
  obtain t2 where m: "mkdir_sync (rm_sync t ?d) ?d = Some t2"
    and w: "write_file_sync t2 (indexPath root) (serialize []) = Some t'"
    using assms(1) by (auto simp: resetCaptureRoot_def Let_def split: option.splits)
  have "at_path t2 ?d = Some (Dir [])" by (rule at_mkdir_same [OF m at_rm_same [OF assms(2)]])
  from write_in_dir [OF this, of INDEX "serialize []"] w
  have "at_path t' ?d = Some (Dir [(INDEX, File (serialize []) default_mode)])" by (auto simp: indexPath_segs)
  then show ?thesis by (simp add: captured_def in_step_def keyed_def latest_def)
qed

lemma in_step_upserted:
  assumes "collation le" "in_step sha256 le rs ss"
  shows "in_step sha256 le (rs @ [r]) (upserted le ss (next_shot sha256 r))"
  using assms upserted_keys [of ss le "next_shot sha256 r"] sorted_sort_shots [OF assms(1)]
  by (simp add: in_step_def latest_snoc) (simp add: keyed_upserted)

lemma in_step_exact:
  assumes "in_step sha256 le rs ss" "\<forall>r \<in> set rs. recordable r" "s \<in> set ss"
  shows "json_exact (toggles_value (sh_toggles s))"
proof -
  have "map_of (keyed ss) (shot_identity s) = Some s"
    using assms(1,3) by (intro map_of_is_SomeI) (auto simp: in_step_def keyed_def)
  then obtain r where "r \<in> set rs" "next_shot sha256 r = s"
    using assms(1) by (auto simp: in_step_def dest!: latest_Some)
  then show ?thesis using assms(2) by (auto simp: next_shot_def recordable_def)
qed

lemma record_captured:
  assumes "collation le" "\<forall>r \<in> set (rs @ [r]). recordable r" "captured sha256 le root rs ss t"
  shows "\<exists>t'. recordShot sha256 le root r t = (t', None) \<and>
    captured sha256 le root (rs @ [r]) (upserted le ss (next_shot sha256 r)) t'"
proof -
  let ?d = "segs root []" and ?i = "image_name r" and ?ss = "upserted le ss (next_shot sha256 r)"
  obtain es where es: "at_path t ?d = Some (Dir es)" "map_of es INDEX = Some (File (serialize (map shot_value ss)) default_mode)"
    and images: "\<And>n. n \<noteq> INDEX \<Longrightarrow> map_of es n = map_option (\<lambda>b. File b default_mode) (latest image_name rc_bytes rs n)"
    and ss: "in_step sha256 le rs ss"
    using assms(3) by (auto simp: captured_def)
  have r: "recordable r" using assms(2) by simp
  have old: "map_of es ?i = None \<or> (\<exists>b'. map_of es ?i = Some (File b' default_mode))"
    unfolding images [OF image_not_index] by (cases "latest image_name rc_bytes rs ?i") auto
  let ?es = "AList.update ?i (File (rc_bytes r) default_mode) es"
  obtain t1 where t1: "write_file_sync t (?d @ [?i]) (rc_bytes r) = Some t1" "at_path t1 ?d = Some (Dir ?es)"
    using write_in_dir [OF es(1) old] by blast
  have i: "map_of ?es INDEX = Some (File (serialize (map shot_value ss)) default_mode)"
    using es(2) image_not_index [of r] by (simp add: update_conv')
  then have read: "read_file_sync t1 (indexPath root) = Some (serialize (map shot_value ss))"
    using t1(2) by (simp add: read_file_sync_def indexPath_segs at_path_append)
  have parse: "js_parse (serialize (map shot_value ss)) = Some (index_value (map shot_value ss))"
    by (rule parse_index) (use in_step_exact [OF ss] assms(2) in auto)
  obtain t2 where t2: "write_file_sync t1 (?d @ [INDEX]) (serialize (map shot_value ?ss)) = Some t2"
    "at_path t2 ?d = Some (Dir (AList.update INDEX (File (serialize (map shot_value ?ss)) default_mode) ?es))"
    using write_in_dir [OF t1(2), of INDEX "serialize (map shot_value ?ss)"] i by auto
  have "recordShot sha256 le root r t = (t2, None)"
    using t1(1) t2(1) read parse by (simp add: recordShot_def image_segs [OF r] indexPath_segs index_value_def upsert_shots)
  moreover have "captured sha256 le root (rs @ [r]) ?ss t2"
    unfolding captured_def using in_step_upserted [OF assms(1) ss] t2(2) images
    by (auto simp: update_conv' latest_snoc)
  ultimately show ?thesis by blast
qed

lemma records_captured:
  assumes "collation le" "\<forall>r \<in> set (ds @ rs). recordable r" "captured sha256 le root ds ss t"
  shows "\<exists>t' ss'. for_each (recordShot sha256 le root) rs t = (t', None) \<and> captured sha256 le root (ds @ rs) ss' t'"
  using assms(2,3)
proof (induction rs arbitrary: ds ss t)
  case (Cons r rs)
  obtain t1 where t1: "recordShot sha256 le root r t = (t1, None)"
    "captured sha256 le root (ds @ [r]) (upserted le ss (next_shot sha256 r)) t1"
    using record_captured [OF assms(1) _ Cons.prems(2)] Cons.prems(1) by auto
  then show ?case using Cons.IH [OF _ t1(2)] Cons.prems(1) by auto
qed auto

text \<open>Where images with one name are of one identity, an entry's image is what was recorded last for it.\<close>

lemma latest_image:
  assumes "\<forall>r \<in> set rs. \<forall>r' \<in> set rs. image_name r = image_name r' \<longrightarrow>
      shot_identity (next_shot sha256 r) = shot_identity (next_shot sha256 r')"
    and "latest (\<lambda>r. shot_identity (next_shot sha256 r)) (next_shot sha256) rs i = Some s"
  shows "\<exists>b. latest image_name rc_bytes rs (sh_image s) = Some b \<and> sh_hash s = sha256 b"
  using assms
proof (induction rs rule: rev_induct)
  case (snoc r rs)
  show ?case
  proof (cases "shot_identity (next_shot sha256 r) = i")
    case True
    then have "s = next_shot sha256 r" using snoc.prems(2) by (simp add: latest_snoc)
    then show ?thesis by (simp add: latest_snoc) (simp add: next_shot_def)
  next
    case False
    then have s: "latest (\<lambda>r. shot_identity (next_shot sha256 r)) (next_shot sha256) rs i = Some s"
      using snoc.prems(2) by (simp add: latest_snoc)
    obtain r0 where r0: "r0 \<in> set rs" "shot_identity (next_shot sha256 r0) = i" "next_shot sha256 r0 = s"
      using latest_Some [OF s] by blast
    have mem: "r0 \<in> set (rs @ [r])" "r \<in> set (rs @ [r])" using r0(1) by simp_all
    have "image_name r0 \<noteq> image_name r" using snoc.prems(1) [rule_format, OF mem] r0(2) False by metis
    then have "image_name r \<noteq> sh_image s" using r0(3) by (auto simp: next_shot_def)
    moreover have "\<exists>b. latest image_name rc_bytes rs (sh_image s) = Some b \<and> sh_hash s = sha256 b"
    proof (rule snoc.IH [OF _ s], intro ballI impI)
      fix q q' assume q: "q \<in> set rs" "q' \<in> set rs" "image_name q = image_name q'"
      have "q \<in> set (rs @ [r])" "q' \<in> set (rs @ [r])" using q(1,2) by simp_all
      then show "shot_identity (next_shot sha256 q) = shot_identity (next_shot sha256 q')"
        using snoc.prems(1) q(3) by blast
    qed
    ultimately show ?thesis by (simp add: latest_snoc)
  qed
qed (simp add: latest_def)

text \<open>
  C38. What a capture run leaves on disk: after a reset, whatever shots are recorded, every recording
  succeeds, and the index read back has the last recording of each identity, each once and in the
  order of the identities; and where two identities never share the name of an image, every entry
  carries the digest of the bytes that are in its image.
\<close>

theorem index_records_last_shots:
  assumes "collation le" and "segs root [] \<noteq> []" and "\<forall>r \<in> set rs. recordable r"
    and "\<forall>r \<in> set rs. \<forall>r' \<in> set rs. image_name r = image_name r' \<longrightarrow>
           shot_identity (next_shot sha256 r) = shot_identity (next_shot sha256 r')"
    and "resetCaptureRoot root t = (t0, None)"
  shows "\<exists>t' ss. for_each (recordShot sha256 le root) rs t0 = (t', None) \<and>
           Option.bind (read_file_sync t' (indexPath root)) js_parse = Some (index_value (map shot_value ss)) \<and>
           sorted_wrt le (map shot_identity ss) \<and> distinct (map shot_identity ss) \<and>
           (\<forall>i. map_of (keyed ss) i = latest (\<lambda>r. shot_identity (next_shot sha256 r)) (next_shot sha256) rs i) \<and>
           (\<forall>s \<in> set ss. \<exists>b. read_file_sync t' (in_root root (sh_image s)) = Some b \<and> sh_hash s = sha256 b)"
proof -
  obtain t' ss where run: "for_each (recordShot sha256 le root) rs t0 = (t', None)"
    and c: "captured sha256 le root rs ss t'"
    using records_captured [OF assms(1) _ reset_captured [OF assms(5,2)], of rs sha256] assms(3) by auto
  obtain es where es: "at_path t' (segs root []) = Some (Dir es)" "map_of es INDEX = Some (File (serialize (map shot_value ss)) default_mode)"
    and images: "\<And>n. n \<noteq> INDEX \<Longrightarrow> map_of es n = map_option (\<lambda>b. File b default_mode) (latest image_name rc_bytes rs n)"
    and ss: "in_step sha256 le rs ss"
    using c by (auto simp: captured_def)
  have parse: "js_parse (serialize (map shot_value ss)) = Some (index_value (map shot_value ss))"
    by (rule parse_index) (use in_step_exact [OF ss assms(3)] in auto)
  have image: "\<exists>b. read_file_sync t' (in_root root (sh_image s)) = Some b \<and> sh_hash s = sha256 b" if "s \<in> set ss" for s
  proof -
    have "map_of (keyed ss) (shot_identity s) = Some s"
      using ss that by (intro map_of_is_SomeI) (auto simp: in_step_def keyed_def)
    then have l: "latest (\<lambda>r. shot_identity (next_shot sha256 r)) (next_shot sha256) rs (shot_identity s) = Some s"
      using ss by (simp add: in_step_def)
    obtain r where "r \<in> set rs" "next_shot sha256 r = s" using latest_Some [OF l] by blast
    then have n: "in_root root (sh_image s) = segs root [] @ [sh_image s]" "sh_image s \<noteq> INDEX"
      using assms(3) image_segs image_not_index by (auto simp: next_shot_def)
    show ?thesis using latest_image [OF assms(4) l] images [OF n(2)] es(1)
      by (auto simp: n(1) read_file_sync_def at_path_append)
  qed
  have keys: "map fst (keyed ss) = map shot_identity ss" by (simp add: keyed_def)
  have read: "Option.bind (read_file_sync t' (indexPath root)) js_parse = Some (index_value (map shot_value ss))"
    using es by (simp add: read_file_sync_def indexPath_segs at_path_append parse)
  have order: "sorted_wrt le (map shot_identity ss)" "distinct (map shot_identity ss)"
    using ss by (simp_all add: in_step_def keys)
  have "\<forall>i. map_of (keyed ss) i = latest (\<lambda>r. shot_identity (next_shot sha256 r)) (next_shot sha256) rs i"
    using ss by (simp add: in_step_def)
  with run read order image show ?thesis by blast
qed

definition sample_shots :: "recording list" where
  "sample_shots =
     [\<lparr>rc_name = ''inbox'', rc_toggles = [(''theme'', ''dark'')], rc_bytes = ''a'', rc_ext = Png\<rparr>,
      \<lparr>rc_name = ''allow'', rc_toggles = [(''theme'', ''dark'')], rc_bytes = ''b'', rc_ext = Svg\<rparr>,
      \<lparr>rc_name = ''inbox'', rc_toggles = [(''theme'', ''dark'')], rc_bytes = ''c'', rc_ext = Png\<rparr>]"

definition code_units_le :: "string \<Rightarrow> string \<Rightarrow> bool" where
  "code_units_le a b \<longleftrightarrow> (map of_char a :: nat list) \<le> map of_char b"

theorem index_records_last_shots_witness:
  "\<exists>t0 t' ss. resetCaptureRoot ''/shots'' (Dir [(''shots'', Dir [(''old.png'', File [] 420)])]) = (t0, None) \<and>
     for_each (recordShot id code_units_le ''/shots'') sample_shots t0 = (t', None) \<and>
     Option.bind (read_file_sync t' (indexPath ''/shots'')) js_parse = Some (index_value (map shot_value ss)) \<and>
     (\<forall>s \<in> set ss. \<exists>b. read_file_sync t' (in_root ''/shots'' (sh_image s)) = Some b \<and> sh_hash s = b)"
proof -
  let ?t = "Dir [(''shots'', Dir [(''old.png'', File [] 420)])]"
  have le: "collation code_units_le" by (auto simp: collation_def code_units_le_def)
  have root: "segs ''/shots'' [] \<noteq> []" by code_simp
  have ok: "\<forall>r \<in> set sample_shots. recordable r" by code_simp
  have apart: "\<forall>r \<in> set sample_shots. \<forall>r' \<in> set sample_shots. image_name r = image_name r' \<longrightarrow>
      shot_identity (next_shot id r) = shot_identity (next_shot id r')" by code_simp
  have "snd (resetCaptureRoot ''/shots'' ?t) = None" by code_simp
  then obtain t0 where "resetCaptureRoot ''/shots'' ?t = (t0, None)" by (metis prod.collapse)
  with index_records_last_shots [OF le root ok apart this] show ?thesis by (metis id_apply)
qed

text \<open>The names of images do not keep identities apart: the values of the toggles are joined with the
  same hyphen as the name.\<close>

lemma images_collide:
  "\<exists>r r'. recordable r \<and> recordable r' \<and> image_name r = image_name r' \<and>
     shot_identity (next_shot sha256 r) \<noteq> shot_identity (next_shot sha256 r')"
proof (intro exI conjI)
  let ?r = "\<lparr>rc_name = ''shell'', rc_toggles = [(''viewport'', ''dark''), (''theme'', ''light'')], rc_bytes = [], rc_ext = Png\<rparr>"
  let ?r' = "\<lparr>rc_name = ''shell-dark'', rc_toggles = [(''theme'', ''light'')], rc_bytes = [], rc_ext = Png\<rparr>"
  show "recordable ?r" "recordable ?r'" "image_name ?r = image_name ?r'" by code_simp+
  show "shot_identity (next_shot sha256 ?r) \<noteq> shot_identity (next_shot sha256 ?r')"
    by (simp add: shot_identity_def next_shot_def)
qed

end
