(* ===== verification/Shell.thy ===== *)
theory Shell
  imports AppView JsValue
begin

text \<open>
  What stands around the app: the document and its metadata (\<^verbatim>\<open>apps/web/app/layout.tsx\<close>), the
  error boundaries and the page that is not found (\<^verbatim>\<open>app/error.tsx\<close>, \<^verbatim>\<open>app/global-error.tsx\<close>,
  \<^verbatim>\<open>app/not-found.tsx\<close>, \<^verbatim>\<open>src/components/error-screen.tsx\<close>), and the UI primitives
  (\<^verbatim>\<open>src/components/ui\<close>) with the classes they put together.

  Two packages put classes together, and are parameters: \<open>cva\<close>, which picks the classes of
  variants, and \<open>cn\<close>'s \<open>twMerge(clsx(...))\<close>, where \<open>None\<close> is an undefined class.
\<close>

section \<open>Classes\<close>

record cva_config =
  cva_base :: string
  cva_variants :: "(string \<times> (string \<times> string) list) list"
  cva_defaults :: "(string \<times> string) list"

record class_library =
  lib_merge :: "string option list \<Rightarrow> string"
  lib_cva :: "cva_config \<Rightarrow> (string \<times> string option) list \<Rightarrow> string"

definition cn :: "class_library \<Rightarrow> string option list \<Rightarrow> string" where
  "cn lib inputs = lib_merge lib inputs"

definition buttonVariants :: cva_config where
  "buttonVariants =
     \<lparr>cva_base =
        ''inline-flex items-center justify-center gap-2 whitespace-nowrap rounded-md text-sm font-medium '' @
        ''transition-colors focus-visible:outline-none focus-visible:ring-2 focus-visible:ring-ring '' @
        ''focus-visible:ring-offset-2 focus-visible:ring-offset-background disabled:pointer-events-none '' @
        ''disabled:opacity-50'',
      cva_variants =
        [(''variant'',
            [(''default'', ''bg-primary text-primary-foreground hover:bg-primary/90''),
             (''destructive'', ''bg-destructive text-destructive-foreground hover:bg-destructive/90''),
             (''outline'', ''border border-border bg-background hover:bg-muted hover:text-foreground''),
             (''ghost'', ''hover:bg-muted hover:text-foreground'')]),
         (''size'',
            [(''default'', ''h-9 px-4 py-2''),
             (''sm'', ''h-8 rounded-md px-3 text-xs''),
             (''lg'', ''h-11 rounded-md px-6'')])],
      cva_defaults = [(''variant'', ''default''), (''size'', ''default'')]\<rparr>"

definition badgeVariants :: cva_config where
  "badgeVariants =
     \<lparr>cva_base = ''inline-flex items-center rounded-full border px-2.5 py-0.5 text-xs font-medium'',
      cva_variants =
        [(''variant'',
            [(''default'', ''border-transparent bg-primary text-primary-foreground''),
             (''destructive'', ''border-destructive/30 bg-destructive/15 text-[oklch(0.82_0.15_25)] font-semibold''),
             (''outline'', ''border-border text-foreground'')])],
      cva_defaults = [(''variant'', ''default'')]\<rparr>"

section \<open>Primitives\<close>

text \<open>The properties a component passes on: attributes, the action and the children. They come after
  the component's own and win over them.\<close>

record 'a props =
  pr_className :: "string option"
  pr_attrs :: "(string \<times> utext) list"
  pr_action :: "'a option"
  pr_children :: "'a node list"

definition class_of :: "string \<Rightarrow> string \<times> utext" where
  "class_of c = (''class'', [S c])"

definition Button :: "class_library \<Rightarrow> string option \<Rightarrow> string option \<Rightarrow> string option \<Rightarrow> 'a props \<Rightarrow> 'a node" where
  "Button lib variant size_of type p =
     Node ''button''
       (pr_attrs p @
        [class_of (cn lib [Some (lib_cva lib buttonVariants [(''variant'', variant), (''size'', size_of)]), pr_className p]),
         (''type'', [S (case type of None \<Rightarrow> ''button'' | Some t \<Rightarrow> t)])])
       (pr_action p) (pr_children p)"

definition Badge :: "class_library \<Rightarrow> string option \<Rightarrow> 'a props \<Rightarrow> 'a node" where
  "Badge lib variant p =
     Node ''span'' (pr_attrs p @ [class_of (cn lib [Some (lib_cva lib badgeVariants [(''variant'', variant)]), pr_className p])])
       (pr_action p) (pr_children p)"

definition styled :: "class_library \<Rightarrow> string \<Rightarrow> string \<Rightarrow> 'a props \<Rightarrow> 'a node" where
  "styled lib tag classes p =
     Node tag (pr_attrs p @ [class_of (cn lib [Some classes, pr_className p])]) (pr_action p) (pr_children p)"

definition Card :: "class_library \<Rightarrow> 'a props \<Rightarrow> 'a node" where
  "Card lib = styled lib ''div'' ''rounded-lg border border-border bg-card text-card-foreground shadow-sm''"

definition CardHeader :: "class_library \<Rightarrow> 'a props \<Rightarrow> 'a node" where
  "CardHeader lib = styled lib ''div'' ''flex flex-col gap-1.5 p-6 pb-3''"

definition CardTitle :: "class_library \<Rightarrow> 'a props \<Rightarrow> 'a node" where
  "CardTitle lib = styled lib ''h2'' ''text-lg font-semibold leading-none tracking-tight''"

definition CardContent :: "class_library \<Rightarrow> 'a props \<Rightarrow> 'a node" where
  "CardContent lib = styled lib ''div'' ''p-6 pt-0''"

definition KeyCap :: "class_library \<Rightarrow> 'a props \<Rightarrow> 'a node" where
  "KeyCap lib = styled lib ''kbd''
     (''inline-flex h-5 min-w-[1.25rem] items-center justify-center rounded border border-border bg-muted px-1 '' @
      ''font-mono text-[0.7rem] font-medium leading-none text-muted-foreground'')"

section \<open>Error screens\<close>

definition ErrorScreen :: "class_library \<Rightarrow> utext \<Rightarrow> utext \<Rightarrow> 'a option \<Rightarrow> 'a node" where
  "ErrorScreen lib title description onRetry =
     Node ''main'' [class_of ''mx-auto flex max-w-md flex-col gap-4 p-8'', (''role'', [S ''alert''])] None
       ([Node ''p'' [class_of ''text-xs font-medium uppercase tracking-wide text-muted-foreground''] None
           [plain ''allowlister remote''],
         Node ''h1'' [class_of ''text-2xl font-semibold tracking-tight''] None [Text title],
         Node ''p'' [class_of ''text-muted-foreground''] None [Text description]] @
        (case onRetry of
           None \<Rightarrow> []
         | Some retry \<Rightarrow>
             [Button lib None None None
                \<lparr>pr_className = Some ''self-start'', pr_attrs = [], pr_action = Some retry, pr_children = [plain ''Try again'']\<rparr>]))"

definition ErrorBoundary :: "class_library \<Rightarrow> 'a \<Rightarrow> 'a node" where
  "ErrorBoundary lib reset =
     ErrorScreen lib [S ''Something went wrong'']
       [S ''The approval view hit an unexpected error. You can retry '', U 0x2014,
        S '' your pending approvals are held by the broker, not this page.'']
       (Some reset)"

definition GlobalError :: "class_library \<Rightarrow> 'a \<Rightarrow> 'a node" where
  "GlobalError lib reset =
     Node ''html'' [(''lang'', [S ''en''])] None
       [element ''body''
          [ErrorScreen lib [S ''allowlister remote could not start'']
             [S ''A fatal error stopped the app from loading. Reload to try again.''] (Some reset)]]"

definition not_found_metadata :: js where
  "not_found_metadata = Obj [(''title'', Str (''Not found '' @ [CHR 0xB7] @ '' allowlister remote''))]"

definition NotFound :: "class_library \<Rightarrow> 'a node" where
  "NotFound lib =
     ErrorScreen lib [S ''Page not found'']
       [S (''That page doesn'' @ [CHR 0x27] @ ''t exist. Open the app at its root to see your pending approvals.'')] None"

section \<open>The document\<close>

definition icon_entry :: "string \<Rightarrow> string \<Rightarrow> js" where
  "icon_entry url sizes = Obj [(''url'', Str url), (''sizes'', Str sizes), (''type'', Str ''image/png'')]"

definition metadata :: js where
  "metadata =
     Obj [(''title'', Str ''allowlister remote''),
          (''description'', Str ''Remote PWA approvals for allowlister dynamic requests.''),
          (''manifest'', Str ''/manifest.webmanifest''),
          (''appleWebApp'',
             Obj [(''capable'', Bool True), (''title'', Str ''allowlister remote''),
                  (''statusBarStyle'', Str ''black-translucent'')]),
          (''icons'',
             Obj [(''icon'',
                     Arr [icon_entry ''/favicon-32.png'' ''32x32'', icon_entry ''/favicon-48.png'' ''48x48'',
                          icon_entry ''/icon-192.png'' ''192x192'', icon_entry ''/icon-512.png'' ''512x512'']),
                  (''apple'', Arr [Obj [(''url'', Str ''/apple-touch-icon.png''), (''sizes'', Str ''180x180'')]])])]"

definition viewport :: js where
  "viewport =
     Obj [(''themeColor'',
             Arr [Obj [(''media'', Str ''(prefers-color-scheme: light)''), (''color'', Str ''#f8fafc'')],
                  Obj [(''media'', Str ''(prefers-color-scheme: dark)''), (''color'', Str ''#050816'')]])]"

text \<open>The bootstrap script and the registration of the worker come before the page.\<close>

definition RootLayout :: "utext \<Rightarrow> 'a node \<Rightarrow> 'a node list \<Rightarrow> 'a node" where
  "RootLayout bootstrap registration children =
     Node ''html'' [(''lang'', [S ''en''])] None
       [element ''body'' (element ''script'' [Text bootstrap] # registration # children)]"

text \<open>What the operator sees: the page, or the boundary around it once it has thrown.\<close>

datatype shell_action = Retry | InApp ui_action

fun in_app :: "ui_action node \<Rightarrow> shell_action node" where
  "in_app (Text t) = Text t"
| "in_app (Node tag attrs action children) = Node tag attrs (map_option InApp action) (map in_app children)"

definition screen :: "class_library \<Rightarrow> browser \<Rightarrow> app \<Rightarrow> preference \<Rightarrow> string \<Rightarrow> shell_action node list" where
  "screen lib br s p field =
     (if ap_crashed s then [ErrorBoundary lib Retry] else map in_app (render_app br s p field))"

section \<open>Lemmas\<close>

lemma in_app_actions: "actions (in_app n) = map InApp (actions n)"
proof (induction n)
  case (Node tag attrs action children)
  have "concat (map (\<lambda>n. actions (in_app n)) children) = map InApp (concat (map actions children))"
    using Node by (induction children) auto
  then show ?case by (cases action) (simp_all add: o_def)
qed simp

lemma error_screen_actions: "actions (ErrorScreen lib title description retry) = (case retry of None \<Rightarrow> [] | Some a \<Rightarrow> [a])"
  by (cases retry) (simp_all add: ErrorScreen_def Button_def)

text \<open>A page that has thrown decides nothing: all it offers is to try again.\<close>

lemma crashed_screen_actions:
  "ap_crashed s \<Longrightarrow> concat (map actions (screen lib br s p field)) = [Retry]"
  by (simp add: screen_def ErrorBoundary_def error_screen_actions)

lemma live_screen_actions:
  "\<not> ap_crashed s \<Longrightarrow> concat (map actions (screen lib br s p field)) = map InApp (concat (map actions (render_app br s p field)))"
  by (simp add: screen_def in_app_actions map_concat o_def)

text \<open>Every variant a screen names is one its primitive has, as are the defaults.\<close>

lemma defaults_are_variants:
  "\<forall>(k, v) \<in> set (cva_defaults buttonVariants). \<exists>vs. map_of (cva_variants buttonVariants) k = Some vs \<and> v \<in> fst ` set vs"
  "\<forall>(k, v) \<in> set (cva_defaults badgeVariants). \<exists>vs. map_of (cva_variants badgeVariants) k = Some vs \<and> v \<in> fst ` set vs"
  by (simp_all add: buttonVariants_def badgeVariants_def)

end
