(* ===== verification/ServerLife.thy ===== *)
theory ServerLife
  imports DevServer FileTree JsonParse Markup
begin

text \<open>
  The rest of the two static servers: what they print, how they look at files, and how they end.
  \<^verbatim>\<open>packages/allowlister-remote-web/bin/serve.mjs\<close> closes its listener on a signal and exits when its
  last connection is over; \<^verbatim>\<open>scripts/serve-web.mjs\<close> also cuts its connections and arms a timer.

  Of Node's \<open>http\<close> the model has what the versions the packages admit (20 and later) document: a
  closed server accepts nothing, drops the connections that wait for no response, and calls back
  when none is left.
\<close>

section \<open>Files and texts\<close>

text \<open>\<open>isFile\<close>, with the failure of \<open>statSync\<close> caught.\<close>

definition isFile :: "fs_node \<Rightarrow> string \<Rightarrow> bool" where
  "isFile t filePath = (case at_path t (segs [] filePath) of Some (File b m) \<Rightarrow> True | _ \<Rightarrow> False)"

definition dev_isFile :: "fs_node \<Rightarrow> string \<Rightarrow> bool" where
  "dev_isFile t filePath = (case at_path t (segs [] filePath) of Some (File b m) \<Rightarrow> True | _ \<Rightarrow> False)"

definition HELP :: utext where
  "HELP =
     [S ''allowlister-remote-web '', U 0x2014,
      S ('' static server for the remote-approval PWA'' @ [newline, newline] @
         ''Usage: allowlister-remote-web [options]'' @ [newline, newline] @
         ''Serves the bundled PWA; set your broker URL in the app (or open with'' @ [newline] @
         ''?broker=wss://your-broker). Options:'' @ [newline, newline] @
         ''  --port <n>     port to listen on (default: $PORT or 8787)'' @ [newline] @
         ''  --host <addr>  address to bind (default: $HOST or 0.0.0.0)'' @ [newline] @
         ''  -h, --help     print this help and exit'' @ [newline] @
         ''  -v, --version  print the version and exit'')]"

definition packageVersion :: "fs_node \<Rightarrow> string \<Rightarrow> js" where
  "packageVersion t packageDir =
     (case read_file_sync t (segs [] (path_join packageDir ''package.json'')) of
        None \<Rightarrow> Str ''unknown''
      | Some text \<Rightarrow>
          (case js_parse text of
             None \<Rightarrow> Str ''unknown''
           | Some manifest \<Rightarrow>
               if nullish manifest then Str ''unknown'' else nullish_or (member manifest ''version'') (Str ''unknown'')))"

definition listening_message :: "server_options \<Rightarrow> string" where
  "listening_message opts =
     ''allowlister-remote-web: serving the PWA at http://'' @ (case so_host opts of None \<Rightarrow> ''undefined'' | Some h \<Rightarrow> h) @ '':'' @ number_to_string (so_port opts) @
     ''  (set your broker URL in the app, or open with ?broker=wss://your-broker)'' @ [newline]"

definition dev_listening_message :: "string \<Rightarrow> dev_options \<Rightarrow> string" where
  "dev_listening_message dir opts =
     ''serve-web: serving '' @ dir @ '' at http://'' @ (case do_host opts of None \<Rightarrow> ''undefined'' | Some h \<Rightarrow> h) @ '':'' @
     number_to_string (do_port opts) @ [newline]"

section \<open>Ending\<close>

text \<open>The open connections, each with whether it waits for a response.\<close>

record http_server =
  hs_listening :: bool
  hs_closing :: bool
  hs_conns :: "(nat \<times> bool) list"
  hs_next :: nat
  hs_timer :: bool
  hs_exited :: bool

definition listening_server :: http_server where
  "listening_server =
     \<lparr>hs_listening = True, hs_closing = False, hs_conns = [], hs_next = 0, hs_timer = False, hs_exited = False\<rparr>"

text \<open>The callback of \<open>close\<close> exits the process.\<close>

definition close_if_drained :: "http_server \<Rightarrow> http_server" where
  "close_if_drained s = (if hs_closing s \<and> hs_conns s = [] then s\<lparr>hs_exited := True\<rparr> else s)"

definition server_close :: "http_server \<Rightarrow> http_server" where
  "server_close s =
     close_if_drained (s\<lparr>hs_listening := False, hs_closing := True, hs_conns := filter snd (hs_conns s)\<rparr>)"

definition closeAllConnections :: "http_server \<Rightarrow> http_server" where
  "closeAllConnections s = s\<lparr>hs_conns := []\<rparr>"

definition shutdown :: "http_server \<Rightarrow> http_server" where
  "shutdown s = server_close s"

definition dev_shutdown :: "http_server \<Rightarrow> http_server" where
  "dev_shutdown s = (server_close (closeAllConnections s))\<lparr>hs_timer := True\<rparr>"

datatype server_event = Connects | Asks nat | Answers nat | Leaves nat | Signal | TimeIsUp

definition set_waiting :: "nat \<Rightarrow> bool \<Rightarrow> http_server \<Rightarrow> http_server" where
  "set_waiting c w s = s\<lparr>hs_conns := map (\<lambda>(c', w'). (c', if c' = c then w else w')) (hs_conns s)\<rparr>"

fun server_step :: "(http_server \<Rightarrow> http_server) \<Rightarrow> http_server \<Rightarrow> server_event \<Rightarrow> http_server" where
  "server_step on_signal s Connects =
     (if hs_listening s then s\<lparr>hs_conns := hs_conns s @ [(hs_next s, False)], hs_next := hs_next s + 1\<rparr> else s)"
| "server_step on_signal s (Asks c) = set_waiting c True s"
| "server_step on_signal s (Answers c) = set_waiting c False s"
| "server_step on_signal s (Leaves c) = close_if_drained (s\<lparr>hs_conns := filter (\<lambda>(c', w). c' \<noteq> c) (hs_conns s)\<rparr>)"
| "server_step on_signal s Signal = on_signal s"
| "server_step on_signal s TimeIsUp = (if hs_timer s then s\<lparr>hs_exited := True\<rparr> else s)"

definition server_life :: "(http_server \<Rightarrow> http_server) \<Rightarrow> server_event list \<Rightarrow> http_server" where
  "server_life on_signal es = foldl (server_step on_signal) listening_server es"

section \<open>Lemmas\<close>

definition exits_when_drained :: "http_server \<Rightarrow> bool" where
  "exits_when_drained s \<longleftrightarrow>
     hs_exited s = (hs_closing s \<and> hs_conns s = []) \<and> hs_listening s = (\<not> hs_closing s) \<and> \<not> hs_timer s"

lemma web_step: "exits_when_drained s \<Longrightarrow> exits_when_drained (server_step shutdown s e)"
  by (cases e) (auto simp: exits_when_drained_def close_if_drained_def shutdown_def server_close_def set_waiting_def)

text \<open>The published server ends exactly when it has had a signal and its last connection is over.\<close>

lemma web_ends: "exits_when_drained (server_life shutdown es)"
proof -
  have run: "exits_when_drained (foldl (server_step shutdown) s es)" if "exits_when_drained s" for s
    using that by (induction es arbitrary: s) (auto intro: web_step)
  show ?thesis unfolding server_life_def by (rule run) (simp add: exits_when_drained_def listening_server_def)
qed

lemma exited_stays: "hs_exited s \<Longrightarrow> hs_exited (server_step dev_shutdown s e)"
  by (cases e) (auto simp: close_if_drained_def dev_shutdown_def server_close_def closeAllConnections_def set_waiting_def)

text \<open>The server of the tests ends with the signal, whatever is connected and whatever comes after.\<close>

lemma dev_ends: "Signal \<in> set es \<Longrightarrow> hs_exited (server_life dev_shutdown es)"
proof -
  have stays: "hs_exited (foldl (server_step dev_shutdown) s es)" if "hs_exited s" for s es
    using that by (induction es arbitrary: s) (auto intro: exited_stays)
  have now: "hs_exited (dev_shutdown s)" for s
    by (simp add: dev_shutdown_def server_close_def closeAllConnections_def close_if_drained_def)
  assume "Signal \<in> set es"
  then obtain as bs where "es = as @ Signal # bs" by (auto simp: in_set_conv_decomp)
  then show ?thesis by (simp add: server_life_def stays now)
qed

lemma isFile_copies: "dev_isFile = isFile"
  by (intro ext) (simp add: dev_isFile_def isFile_def)

end
