(* ===== verification/WorkflowFiles.thy ===== *)
theory WorkflowFiles
  imports WorkflowGraph FileTree "HOL-Library.List_Lexorder" "HOL-Library.Multiset"
begin

text \<open>
  The parts of \<^verbatim>\<open>.github/workflow-graph.mjs\<close> that deal with files and with the expression library:
  the listing of the workflows, the digest of the sources the proof of the CI rests on, and the
  conversion of a value to the library's data.
\<close>

section \<open>Data of the expression library\<close>

datatype expr_data =
    DNull
  | DString string
  | DBoolean bool
  | DNumber number
  | DArray "expr_data list"
  | DDictionary "(string \<times> expr_data) list"

fun convert :: "js \<Rightarrow> expr_data"
  and convert_members :: "(string \<times> js) list \<Rightarrow> (string \<times> expr_data) list" where
  "convert Undefined = DNull"
| "convert Null = DNull"
| "convert (Str s) = DString s"
| "convert (Bool b) = DBoolean b"
| "convert (Num x) = DNumber x"
| "convert (Arr xs) = DArray (map convert xs)"
| "convert (Obj ms) = DDictionary (convert_members ms)"
| "convert_members [] = []"
| "convert_members ((k, v) # ms) = (k, convert v) # convert_members ms"

text \<open>The library sees a value but for the difference between null and undefined.\<close>

fun defined :: "js \<Rightarrow> bool" where
  "defined Undefined \<longleftrightarrow> False"
| "defined (Arr xs) \<longleftrightarrow> (\<forall>x \<in> set xs. defined x)"
| "defined (Obj ms) \<longleftrightarrow> (\<forall>m \<in> set ms. defined (snd m))"
| "defined _ \<longleftrightarrow> True"

lemma convert_inject:
  "defined v \<Longrightarrow> defined w \<Longrightarrow> convert v = convert w \<Longrightarrow> v = w"
  "\<forall>m \<in> set ms. defined (snd m) \<Longrightarrow> \<forall>m \<in> set ns. defined (snd m) \<Longrightarrow> convert_members ms = convert_members ns \<Longrightarrow> ms = ns"
proof (induction v and ms arbitrary: w and ns rule: convert_convert_members.induct)
  case (6 xs)
  obtain ys where ys: "w = Arr ys" using 6(3,4) by (cases w) auto
  have "map convert xs = map convert ys" using 6(4) by (simp add: ys)
  moreover have "\<forall>y \<in> set ys. defined y" using 6(3) by (simp add: ys)
  ultimately have "xs = ys" using 6(1,2)
  proof (induction xs arbitrary: ys)
    case (Cons x xs)
    from Cons.prems(1) obtain y ys' where y: "ys = y # ys'" by (cases ys) auto
    have "x = y" by (rule Cons.prems(3)) (use Cons.prems(1,2,4) y in simp_all)
    moreover have "xs = ys'"
    proof (rule Cons.IH)
      fix v w assume "v \<in> set xs" "defined v" "defined w" "convert v = convert w"
      then show "v = w" using Cons.prems(3) [of v w] by simp
    qed (use Cons.prems(1,2,4) y in simp_all)
    ultimately show ?case by (simp add: y)
  qed simp
  then show ?case by (simp add: ys)
next
  case (9 k v ms)
  from 9(5) obtain w ns' where ns: "ns = (k, w) # ns'" by (cases ns) auto
  have "v = w" by (rule 9(1)) (use 9(3-5) ns in simp_all)
  moreover have "ms = ns'" by (rule 9(2)) (use 9(3-5) ns in simp_all)
  ultimately show ?case by (simp add: ns)
next
  case (7 ms)
  from 7(3,4) obtain ns where w: "w = Obj ns" by (cases w) auto
  have "ms = ns" by (rule 7(1)) (use 7(2-4) w in simp_all)
  then show ?case by (simp add: w)
next
  case (3 s)
  then show ?case by (cases w) auto
next
  case (4 b)
  then show ?case by (cases w) auto
next
  case (5 x)
  then show ?case by (cases w) auto
next
  case 2
  then show ?case by (cases w) auto
next
  case (8 ns)
  then show ?case by (cases ns) auto
qed simp

section \<open>The listing\<close>

definition workflow_names :: "fs_node \<Rightarrow> string \<Rightarrow> string \<Rightarrow> string list option" where
  "workflow_names t root dir =
     map_option (\<lambda>es. filter (\<lambda>n. ends_with ''.yml'' n \<or> ends_with ''.yaml'' n) (map fst es))
       (readdir_sync t (segs [] (path_join root dir)))"

fun load_all :: "(string \<times> js) list \<Rightarrow> string \<Rightarrow> string list \<Rightarrow> graph_error + (string \<times> js) list" where
  "load_all files dir [] = Inr []"
| "load_all files dir (n # ns) =
     (case load_file files (dir @ ''/'' @ n) of
        Inl e \<Rightarrow> Inl e
      | Inr workflow \<Rightarrow>
          (case load_all files dir ns of Inl e \<Rightarrow> Inl e | Inr ws \<Rightarrow> Inr ((dir @ ''/'' @ n, workflow) # ws)))"

definition workflows :: "fs_node \<Rightarrow> string \<Rightarrow> (string \<times> js) list \<Rightarrow> string \<Rightarrow> graph_error + (string \<times> js) list" where
  "workflows t root files dir =
     (case workflow_names t root dir of
        None \<Rightarrow> Inl (UnreadableFile dir)
      | Some ns \<Rightarrow> load_all files dir ns)"

section \<open>The digest\<close>

definition SKIPPED :: "string list" where
  "SKIPPED = [''node_modules'', ''.telemetry'']"

fun walk_entries :: "string \<Rightarrow> (string \<times> fs_node) list \<Rightarrow> string list" where
  "walk_entries path [] = []"
| "walk_entries path ((name, entry) # es) =
     (if name \<in> set SKIPPED then []
      else
        (case entry of
           Dir xs \<Rightarrow> walk_entries (join_path path name) xs
         | File b m \<Rightarrow> [join_path path name])) @ walk_entries path es"

definition SOURCES :: "string list" where
  "SOURCES =
     [''package.json'', ''package-lock.json'', ''screencomp.toml'', ''rust-toolchain.toml'',
      ''packages/allowlister-remote-plugin/scripts/build-release-binaries.sh'',
      ''packages/allowlister-remote-plugin/scripts/smoke-native-release.sh'',
      ''scripts/smoke-npm-package.sh'', ''scripts/stage-npm-package.mjs'']"

text \<open>\<open>v.k\<close>, a TypeError where \<open>v\<close> has no members.\<close>

definition get :: "js \<Rightarrow> string \<Rightarrow> graph_error + js" where
  "get v k = (if nullish v then Inl TypeError else Inr (member v k))"

fun get_path :: "js \<Rightarrow> string list \<Rightarrow> graph_error + js" where
  "get_path v [] = Inr v"
| "get_path v (k # ks) = (case get v k of Inl e \<Rightarrow> Inl e | Inr w \<Rightarrow> get_path w ks)"

fun platform_manifests :: "js list \<Rightarrow> graph_error + string list" where
  "platform_manifests [] = Inr []"
| "platform_manifests (p # ps) =
     (case get p ''platform'' of
        Inl e \<Rightarrow> Inl e
      | Inr name \<Rightarrow>
          (case to_text name of
             Inl e \<Rightarrow> Inl e
           | Inr s \<Rightarrow>
               (case platform_manifests ps of
                  Inl e \<Rightarrow> Inl e
                | Inr rest \<Rightarrow> Inr ((''packages/allowlister-remote-plugin-'' @ s @ ''/package.json'') # rest))))"

definition published_platforms :: "(string \<times> js) list \<Rightarrow> graph_error + string list" where
  "published_platforms files =
     (case load_file files ''.github/workflows/publish.yml'' of
        Inl e \<Rightarrow> Inl e
      | Inr w \<Rightarrow>
          (case get_path w [''jobs'', ''build-binary'', ''strategy'', ''matrix'', ''include''] of
             Inl e \<Rightarrow> Inl e
           | Inr rows \<Rightarrow> (case iterate rows of None \<Rightarrow> Inl TypeError | Some ps \<Rightarrow> platform_manifests ps)))"

text \<open>\<open>paths.sort()\<close>, by code units.\<close>

definition code_units :: "string \<Rightarrow> nat list" where
  "code_units s = map of_char s"

definition sort_paths :: "string list \<Rightarrow> string list" where
  "sort_paths ps = sort_key code_units ps"

definition source_paths :: "fs_node \<Rightarrow> string \<Rightarrow> (string \<times> js) list \<Rightarrow> graph_error + string list" where
  "source_paths t root files =
     (case readdir_sync t (segs [] (path_join root ''.github'')) of
        None \<Rightarrow> Inl (UnreadableFile ''.github'')
      | Some es \<Rightarrow>
          (case published_platforms files of
             Inl e \<Rightarrow> Inl e
           | Inr ps \<Rightarrow> Inr (sort_paths (walk_entries ''.github'' es @ SOURCES @ ps))))"

fun hash_input :: "fs_node \<Rightarrow> string \<Rightarrow> string list \<Rightarrow> graph_error + string" where
  "hash_input t root [] = Inr []"
| "hash_input t root (p # ps) =
     (case read_file_sync t (segs [] (path_join root p)) of
        None \<Rightarrow> Inl (UnreadableFile p)
      | Some b \<Rightarrow> (case hash_input t root ps of Inl e \<Rightarrow> Inl e | Inr r \<Rightarrow> Inr (p @ b @ r)))"

definition sourceDigest :: "(string \<Rightarrow> string) \<Rightarrow> fs_node \<Rightarrow> string \<Rightarrow> (string \<times> js) list \<Rightarrow> graph_error + string" where
  "sourceDigest sha256 t root files =
     (case source_paths t root files of
        Inl e \<Rightarrow> Inl e
      | Inr ps \<Rightarrow> (case hash_input t root ps of Inl e \<Rightarrow> Inl e | Inr input \<Rightarrow> Inr (sha256 input)))"

section \<open>What the digest depends on\<close>

text \<open>The order in which a directory lists its entries does not matter: sorting by code units puts equal
  multisets of paths into one list.\<close>

lemma code_units_inj: "inj_on code_units A"
proof (rule inj_onI)
  fix a b assume "code_units a = code_units b"
  then show "a = b"
    by (simp add: code_units_def) (metis inj_def inj_map_eq_map char_of_char)
qed

lemma sort_paths_mset: "mset ps = mset qs \<Longrightarrow> sort_paths ps = sort_paths qs"
proof -
  assume m: "mset ps = mset qs"
  have "map code_units (sort_paths xs) = sort (map code_units xs)" for xs
    by (rule properties_for_sort [symmetric]) (simp_all add: sort_paths_def)
  moreover have "sort (map code_units ps) = sort (map code_units qs)"
    by (rule properties_for_sort) (use m in \<open>simp_all flip: mset_map\<close>, metis mset_map mset_sort)
  ultimately have "map code_units (sort_paths ps) = map code_units (sort_paths qs)" by simp
  then show ?thesis by (rule map_inj_on) (rule code_units_inj)
qed

lemma walk_append: "walk_entries path (xs @ ys) = walk_entries path xs @ walk_entries path ys"
  by (induction xs) auto

lemma walk_order: "mset es = mset es' \<Longrightarrow> mset (walk_entries path es) = mset (walk_entries path es')"
proof -
  have one: "mset (walk_entries path es) = sum_mset (image_mset (\<lambda>e. mset (walk_entries path [e])) (mset es))" for es
    by (induction es) auto
  assume m: "mset es = mset es'"
  have "mset (walk_entries path es) = sum_mset (image_mset (\<lambda>e. mset (walk_entries path [e])) (mset es'))"
    by (rule one [of es, unfolded m])
  then show ?thesis by (rule trans [OF _ one [symmetric]])
qed

lemma digest_ignores_order:
  assumes "readdir_sync t (segs [] (path_join root ''.github'')) = Some es"
    and "readdir_sync t' (segs [] (path_join root ''.github'')) = Some es'" and "mset es = mset es'"
    and "\<And>p. read_file_sync t p = read_file_sync t' p"
  shows "sourceDigest sha256 t root files = sourceDigest sha256 t' root files"
proof -
  have "sort_paths (walk_entries ''.github'' es @ r) = sort_paths (walk_entries ''.github'' es' @ r)" for r
    by (rule sort_paths_mset) (simp add: walk_order [OF assms(3)])
  then have "source_paths t root files = source_paths t' root files"
    using assms(1,2) by (simp add: source_paths_def split: sum.split)
  moreover have "hash_input t root = hash_input t' root"
  proof
    fix ps show "hash_input t root ps = hash_input t' root ps"
    by (induction ps) (simp_all add: assms(4) split: option.split)
  qed
  ultimately show ?thesis by (simp add: sourceDigest_def split: sum.split)
qed

end
