(* ===== verification/Doubles.thy ===== *)
theory Doubles
  imports JsonRoundtrip Complex_Main
begin

text \<open>
  The arithmetic of Numbers that the reports do: a finite double is the rational it stands for, and
  an operation rounds its exact result to the nearest double of 53 bits, ties to even. The exponent
  is not bounded (the reports divide sizes and counts), and the zeros are one. \<open>toFixed\<close> prints the
  exact value of a double, for values below \<open>10^21\<close>.
\<close>

section \<open>Rounding\<close>

fun bits :: "nat \<Rightarrow> nat" where
  "bits n = (if n = 0 then 0 else Suc (bits (n div 2)))"

declare bits.simps [simp del]

definition pow2 :: "int \<Rightarrow> rat" where
  "pow2 e = (if 0 \<le> e then 2 ^ nat e else 1 / 2 ^ nat (- e))"

text \<open>The exponent of a positive rational: the power of two it lies between and the next.\<close>

definition binade :: "rat \<Rightarrow> int" where
  "binade x =
     (case quotient_of x of
        (a, b) \<Rightarrow>
          (let l = int (bits (nat a)) - int (bits (nat b)) in if x < pow2 l then l - 1 else l))"

definition round_even :: "rat \<Rightarrow> int" where
  "round_even q =
     (let f = \<lfloor>q\<rfloor>; r = q - of_int f
      in if r < 1 / 2 then f else if 1 / 2 < r then f + 1 else if even f then f else f + 1)"

definition round53 :: "rat \<Rightarrow> rat" where
  "round53 x =
     (if x = 0 then 0
      else (let e = binade \<bar>x\<bar> - 52 in sgn x * of_int (round_even (\<bar>x\<bar> / pow2 e)) * pow2 e))"

lemma bits_bounds: "0 < n \<Longrightarrow> 2 ^ bits n \<le> 2 * n \<and> n < 2 ^ bits n"
proof (induction n rule: bits.induct)
  case (1 n)
  show ?case
  proof (cases "n div 2 = 0")
    case True
    then have "n = 1" using 1(2) by linarith
    then show ?thesis by (simp add: bits.simps)
  next
    case False
    then have "2 ^ bits (n div 2) \<le> 2 * (n div 2) \<and> n div 2 < 2 ^ bits (n div 2)" using 1 by simp
    moreover have "bits n = Suc (bits (n div 2))" using 1(2) bits.simps [of n] by simp
    ultimately show ?thesis by (simp, linarith)
  qed
qed

lemma pow2_pos [simp]: "0 < pow2 e"
  by (simp add: pow2_def)

lemma pow2_add: "pow2 (a + b) = pow2 a * pow2 b"
proof -
  have pi: "pow2 e = 2 powi e" for e by (simp add: pow2_def power_int_def field_simps)
  show ?thesis unfolding pi by (rule power_int_add) simp
qed

lemma pow2_diff: "pow2 (int m - int n) = 2 ^ m / 2 ^ n"
proof -
  have "pow2 (int m) = pow2 (int m - int n) * pow2 (int n)" by (simp flip: pow2_add)
  then show ?thesis by (simp add: pow2_def field_simps)
qed

lemma binade_le: "0 < x \<Longrightarrow> pow2 (binade x) \<le> x"
proof -
  assume pos: "0 < x"
  obtain a b where q: "quotient_of x = (a, b)" by fastforce
  have b: "0 < b" using quotient_of_denom_pos [OF q] .
  have x: "x = of_int a / of_int b" using quotient_of_div [OF q] .
  have a: "0 < a" using pos b by (simp add: x zero_less_divide_iff)
  obtain m n where mn: "a = int m" "b = int n" "0 < m" "0 < n" using a b by (metis pos_int_cases)
  let ?l = "int (bits m) - int (bits n)"
  have "(2::rat) ^ bits m \<le> 2 * of_nat m" "(of_nat n :: rat) < 2 ^ bits n"
    using bits_bounds [OF mn(3)] bits_bounds [OF mn(4)] by (metis of_nat_le_iff of_nat_less_iff of_nat_mult of_nat_numeral of_nat_power)+
  then have "2 ^ bits m * of_nat n \<le> 2 * of_nat m * (2::rat) ^ bits n"
    by (intro mult_mono) auto
  then have low: "pow2 ?l \<le> 2 * x"
    using mn(4) by (simp add: pow2_diff x mn(1,2) field_simps)
  have half: "pow2 (?l - 1) = pow2 ?l / 2" using pow2_add [of "?l - 1" 1] by (simp add: pow2_def [of 1])
  show ?thesis using low by (auto simp: binade_def q mn(1,2) Let_def half)
qed

lemma round_even_of_int [simp]: "round_even (of_int k) = k"
  by (simp add: round_even_def)

lemma round_even_floor: "\<lfloor>q\<rfloor> \<le> round_even q"
  by (simp add: round_even_def Let_def)

lemma round53_sgn: "sgn (round53 x) = sgn x"
proof (cases "x = 0")
  case False
  let ?e = "binade \<bar>x\<bar> - 52"
  have "pow2 (binade \<bar>x\<bar>) \<le> \<bar>x\<bar>" using binade_le [of "\<bar>x\<bar>"] False by simp
  then have "1 \<le> \<bar>x\<bar> / pow2 ?e"
  proof -
    have "pow2 (binade \<bar>x\<bar>) = pow2 ?e * pow2 52" by (simp flip: pow2_add)
    then have "pow2 ?e \<le> pow2 (binade \<bar>x\<bar>)" by (simp add: pow2_def [of 52])
    then show ?thesis using \<open>pow2 (binade \<bar>x\<bar>) \<le> \<bar>x\<bar>\<close> by (simp add: le_divide_eq)
  qed
  then have "0 < round_even (\<bar>x\<bar> / pow2 ?e)"
    using round_even_floor [of "\<bar>x\<bar> / pow2 ?e"] by linarith
  then show ?thesis using False by (simp add: round53_def Let_def sgn_mult)
qed (simp add: round53_def)

text \<open>Whole numbers of 53 bits are doubles.\<close>

lemma round53_of_nat: "n < 2 ^ 53 \<Longrightarrow> round53 (of_nat n) = of_nat n"
proof (cases "n = 0")
  case False
  assume n: "n < 2 ^ 53"
  let ?e = "binade (of_nat n) - 52"
  have "pow2 (binade (of_nat n)) \<le> of_nat n" using binade_le [of "of_nat n"] False by simp
  also have "\<dots> < pow2 53" using n by (simp add: pow2_def)
  finally have "binade (of_nat n) < 53"
  proof (rule contrapos_pp)
    assume "\<not> binade (of_nat n) < 53"
    then obtain k where "binade (of_nat n) = 53 + int k" using zle_iff_zadd by force
    then have "pow2 (binade (of_nat n)) = 2 ^ k * pow2 53" by (simp add: pow2_add) (simp add: pow2_def)
    then show "\<not> pow2 (binade (of_nat n)) < pow2 53" by (simp add: not_less)
  qed
  then have "- ?e = int (nat (- ?e))" by simp
  then obtain k where k: "?e = - int k" by (metis minus_minus)
  have "of_nat n / pow2 ?e = of_int (int n * 2 ^ k)" by (simp add: k pow2_def)
  then have "round_even (of_nat n / pow2 ?e) = int n * 2 ^ k" by (metis round_even_of_int)
  then show ?thesis using False by (simp add: round53_def Let_def k pow2_def)
qed (simp add: round53_def)

section \<open>Doubles\<close>

datatype double = NotANumber | Inf bool | Fin rat

definition pow10 :: "int \<Rightarrow> rat" where
  "pow10 e = (if 0 \<le> e then 10 ^ nat e else 1 / 10 ^ nat (- e))"

fun to_double :: "number \<Rightarrow> double" where
  "to_double NaN = NotANumber"
| "to_double (Infinity neg) = Inf neg"
| "to_double (Dec neg s n) =
     Fin (round53 ((if neg then - 1 else 1) * of_nat s * pow10 (n - int (length (digits s)))))"

fun neg_double :: "double \<Rightarrow> double" where
  "neg_double NotANumber = NotANumber"
| "neg_double (Inf n) = Inf (\<not> n)"
| "neg_double (Fin x) = Fin (- x)"

fun add_double :: "double \<Rightarrow> double \<Rightarrow> double" where
  "add_double (Fin x) (Fin y) = Fin (round53 (x + y))"
| "add_double NotANumber y = NotANumber"
| "add_double x NotANumber = NotANumber"
| "add_double (Inf a) (Inf b) = (if a = b then Inf a else NotANumber)"
| "add_double (Inf a) (Fin y) = Inf a"
| "add_double (Fin x) (Inf b) = Inf b"

definition sub_double :: "double \<Rightarrow> double \<Rightarrow> double" where
  "sub_double x y = add_double x (neg_double y)"

text \<open>Division by a number that is not zero, and multiplication by a positive finite one.\<close>

fun div_double :: "double \<Rightarrow> double \<Rightarrow> double" where
  "div_double (Fin x) (Fin y) = Fin (round53 (x / y))"
| "div_double NotANumber y = NotANumber"
| "div_double x NotANumber = NotANumber"
| "div_double (Inf a) (Inf b) = NotANumber"
| "div_double (Inf a) (Fin y) = Inf (a \<noteq> (y < 0))"
| "div_double (Fin x) (Inf b) = Fin 0"

fun scale_double :: "rat \<Rightarrow> double \<Rightarrow> double" where
  "scale_double k (Fin x) = Fin (round53 (k * x))"
| "scale_double k NotANumber = NotANumber"
| "scale_double k (Inf a) = Inf a"

fun less_double :: "double \<Rightarrow> double \<Rightarrow> bool" where
  "less_double (Fin x) (Fin y) \<longleftrightarrow> x < y"
| "less_double (Inf True) (Fin y) \<longleftrightarrow> True"
| "less_double (Fin x) (Inf False) \<longleftrightarrow> True"
| "less_double (Inf True) (Inf False) \<longleftrightarrow> True"
| "less_double x y \<longleftrightarrow> False"

fun at_least_zero :: "double \<Rightarrow> bool" where
  "at_least_zero (Fin x) \<longleftrightarrow> 0 \<le> x"
| "at_least_zero (Inf neg) \<longleftrightarrow> \<not> neg"
| "at_least_zero NotANumber \<longleftrightarrow> False"

section \<open>toFixed\<close>

definition zero_pad :: "nat \<Rightarrow> string \<Rightarrow> string" where
  "zero_pad k s = replicate (k - length s) (CHR ''0'') @ s"

definition fixed_text :: "nat \<Rightarrow> nat \<Rightarrow> string" where
  "fixed_text k n = digits (n div 10 ^ k) @ (if k = 0 then [] else ''.'' @ zero_pad k (digits (n mod 10 ^ k)))"

text \<open>The integer nearest to \<open>x * 10^k\<close>, the larger of two.\<close>

definition fixed_units :: "nat \<Rightarrow> rat \<Rightarrow> nat" where
  "fixed_units k x = nat \<lfloor>x * 10 ^ k + 1 / 2\<rfloor>"

fun toFixed :: "nat \<Rightarrow> double \<Rightarrow> string" where
  "toFixed k NotANumber = ''NaN''"
| "toFixed k (Inf neg) = (if neg then ''-Infinity'' else ''Infinity'')"
| "toFixed k (Fin x) = (if x < 0 then ''-'' @ fixed_text k (fixed_units k (- x)) else fixed_text k (fixed_units k x))"

section \<open>Whole numbers\<close>

text \<open>The Number a whole number reads back as.\<close>

definition nat_number :: "nat \<Rightarrow> number" where
  "nat_number n = string_to_number (digits n)"

lemma to_double_nat: "n < 2 ^ 53 \<Longrightarrow> to_double (nat_number n) = Fin (of_nat n)"
proof (cases "n = 0")
  case True
  have "nat_number 0 = Dec False 0 1" by code_simp
  then show ?thesis using True by (simp add: round53_def)
next
  case False
  assume n: "n < 2 ^ 53"
  obtain core b where c: "string_to_number (digits n) = Dec False core (int (length (digits n)))"
    "length (digits n) = length (digits core) + b" "core * 10 ^ b = n"
    using whole_number [of n] False by (metis gr0I)
  have "of_nat core * pow10 (int (length (digits n)) - int (length (digits core))) = (of_nat n :: rat)"
  proof -
    have "(of_nat n :: rat) = of_nat core * 10 ^ b" using c(3) by (metis of_nat_mult of_nat_power of_nat_numeral)
    then show ?thesis using c(2) by (simp add: pow10_def)
  qed
  then show ?thesis using round53_of_nat [OF n] by (simp add: nat_number_def c(1))
qed

end
