(* ===== verification/SizeReport.thy ===== *)
theory SizeReport
  imports Doubles FileTree Markup
begin

text \<open>
  \<^verbatim>\<open>scripts/web-bundle-size.mjs\<close>: what the built app weighs, by category, and how that has changed
  against another build. The build is a file tree; \<open>gzip\<close> is a parameter, the length of what
  \<open>gzipSync\<close> yields. \<open>None\<close> is an exception.
\<close>

section \<open>Weighing\<close>

record asset =
  as_gzip :: nat
  as_raw :: nat

text \<open>\<open>assets\<close>: the scripts and style sheets below a directory, keyed by path.\<close>

definition is_asset :: "string \<Rightarrow> bool" where
  "is_asset name \<longleftrightarrow> ends_with ''.js'' name \<or> ends_with ''.css'' name"

definition weigh :: "(string \<Rightarrow> nat) \<Rightarrow> string \<Rightarrow> asset" where
  "weigh gzip b = \<lparr>as_gzip = gzip b, as_raw = length b\<rparr>"

fun walk_assets :: "(string \<Rightarrow> nat) \<Rightarrow> string \<Rightarrow> (string \<times> fs_node) list \<Rightarrow> (string \<times> asset) list" where
  "walk_assets gzip dir [] = []"
| "walk_assets gzip dir ((name, entry) # es) =
     (case entry of
        Dir xs \<Rightarrow> walk_assets gzip (dir @ ''/'' @ name) xs
      | File b m \<Rightarrow> if is_asset name then [(dir @ ''/'' @ name, weigh gzip b)] else [])
     @ walk_assets gzip dir es"

definition no_weight :: asset where
  "no_weight = \<lparr>as_gzip = 0, as_raw = 0\<rparr>"

definition add_weight :: "asset \<Rightarrow> asset \<Rightarrow> asset" where
  "add_weight a b = \<lparr>as_gzip = as_gzip a + as_gzip b, as_raw = as_raw a + as_raw b\<rparr>"

text \<open>\<open>sum\<close>: a path may be any value; only a string can be a key of the map.\<close>

definition asset_at :: "(string \<times> asset) list \<Rightarrow> js \<Rightarrow> asset option" where
  "asset_at assets path = (case path of Str p \<Rightarrow> map_of assets p | _ \<Rightarrow> None)"

definition sum_assets :: "(string \<times> asset) list \<Rightarrow> js list \<Rightarrow> asset" where
  "sum_assets assets paths =
     foldl (\<lambda>acc path. case asset_at assets path of None \<Rightarrow> acc | Some a \<Rightarrow> add_weight acc a) no_weight paths"

definition jsAssets :: "(string \<times> asset) list \<Rightarrow> (string \<times> asset) list" where
  "jsAssets assets = filter (\<lambda>(path, a). ends_with ''.js'' path) assets"

definition cssAssets :: "(string \<times> asset) list \<Rightarrow> (string \<times> asset) list" where
  "cssAssets assets = filter (\<lambda>(path, a). ends_with ''.css'' path) assets"

definition paths_of :: "(string \<times> asset) list \<Rightarrow> js list" where
  "paths_of assets = map (\<lambda>(path, a). Str path) assets"

definition categories :: "(string \<times> asset) list \<Rightarrow> js list \<Rightarrow> js list \<Rightarrow> (string \<times> asset) list" where
  "categories assets shellFiles polyfillFiles =
     [(''app shell (rootMainFiles)'', sum_assets assets shellFiles),
      (''polyfills'', sum_assets assets polyfillFiles),
      (''first-load JS (shell + polyfills)'', sum_assets assets (shellFiles @ polyfillFiles)),
      (''all client JS'', sum_assets assets (paths_of (jsAssets assets))),
      (''all client CSS'', sum_assets assets (paths_of (cssAssets assets)))]"

definition topChunks :: "(string \<times> asset) list \<Rightarrow> (string \<times> asset) list" where
  "topChunks assets = take 5 (sort_key (\<lambda>(path, a). - int (as_gzip a)) (jsAssets assets))"

text \<open>\<open>manifest.rootMainFiles ?? []\<close>, iterated.\<close>

definition manifest_files :: "js \<Rightarrow> string \<Rightarrow> js list option" where
  "manifest_files manifest key =
     (if nullish manifest then None else iterate (nullish_or (member manifest key) (Arr [])))"

section \<open>Printing\<close>

definition fmtBytes :: "number \<Rightarrow> string" where
  "fmtBytes b =
     (if less_double (to_double b) (Fin 1024) then number_to_string b @ '' B''
      else toFixed 1 (div_double (to_double b) (Fin 1024)) @ '' kB'')"

definition summary_row :: "string \<times> asset \<Rightarrow> utext" where
  "summary_row = (\<lambda>(name, a).
     [S (''| '' @ name @ '' | '' @ fmtBytes (nat_number (as_gzip a)) @ '' | '' @ fmtBytes (nat_number (as_raw a)) @ '' |'')])"

definition CHUNKS :: string where
  "CHUNKS = ''static/chunks/''"

definition chunk_row :: "string \<times> asset \<Rightarrow> utext" where
  "chunk_row = (\<lambda>(path, a).
     [S (''| `'' @ (if starts_with CHUNKS path then drop (length CHUNKS) path else path) @ ''` | '' @
         fmtBytes (nat_number (as_gzip a)) @ '' | '' @ fmtBytes (nat_number (as_raw a)) @ '' |'')])"

definition size_markdown :: "(string \<times> asset) list \<Rightarrow> (string \<times> asset) list \<Rightarrow> utext list" where
  "size_markdown cats largest =
     [[S ''| category | gzip | raw |''], [S ''|---|---:|---:|'']] @ map summary_row cats @
     [[], [S ''Largest client JS chunks (gzip):''], [], [S ''| chunk | gzip | raw |''], [S ''|---|---:|---:|'']] @
     map chunk_row largest"

definition asset_members :: "asset \<Rightarrow> (string \<times> js) list" where
  "asset_members a = [(''gzip'', Num (nat_number (as_gzip a))), (''raw'', Num (nat_number (as_raw a)))]"

definition size_json :: "(string \<times> asset) list \<Rightarrow> (string \<times> asset) list \<Rightarrow> string" where
  "size_json cats largest =
     pretty_line
       (Obj [(''categories'', Obj (map (\<lambda>(name, a). (name, Obj (asset_members a))) cats)),
             (''topChunks'', Arr (map (\<lambda>(path, a). Obj ((''path'', Str path) # asset_members a)) largest))])"

definition tab :: char where
  "tab = CHR 0x09"

definition size_tsv :: "(string \<times> asset) list \<Rightarrow> string" where
  "size_tsv cats =
     join [newline] (map (\<lambda>(name, a). name @ [tab] @ digits (as_gzip a) @ [tab] @ digits (as_raw a)) cats) @ [newline]"

record size_report =
  sr_md :: "utext list"
  sr_json :: string
  sr_tsv :: string

text \<open>The script on a build: the manifest, and the files under \<open>static\<close> in its \<open>.next\<close> directory.\<close>

definition bundle_size :: "(string \<Rightarrow> nat) \<Rightarrow> fs_node \<Rightarrow> string list \<Rightarrow> size_report option" where
  "bundle_size gzip t nextDir =
     Option.bind (read_file_sync t (nextDir @ [''build-manifest.json''])) (\<lambda>text.
     Option.bind (js_parse text) (\<lambda>manifest.
     Option.bind (readdir_sync t (nextDir @ [''static''])) (\<lambda>es.
       (let assets = walk_assets gzip ''static'' es
        in Option.bind (manifest_files manifest ''rootMainFiles'') (\<lambda>shell.
           Option.bind (manifest_files manifest ''polyfillFiles'') (\<lambda>polyfills.
             (let cats = categories assets shell polyfills; largest = topChunks assets
              in Some \<lparr>sr_md = size_markdown cats largest, sr_json = size_json cats largest, sr_tsv = size_tsv cats\<rparr>)))))))"

section \<open>The difference of two reports\<close>

definition column :: "string list \<Rightarrow> nat \<Rightarrow> number" where
  "column cells i = (if i < length cells then string_to_number (cells ! i) else NaN)"

definition parse_sizes :: "string \<Rightarrow> (string \<times> number \<times> number) list" where
  "parse_sizes tsv =
     foldl (\<lambda>rows line.
         if js_trim line = [] then rows
         else
           (let cells = split_on tab line
            in AList.update (hd cells) (column cells 1, column cells 2) rows))
       [] (split_on newline tsv)"

text \<open>\<open>((head - base) / base) * 100\<close>, with its sign.\<close>

definition delta_of :: "number \<Rightarrow> number \<Rightarrow> double" where
  "delta_of now prior = scale_double 100 (div_double (sub_double (to_double now) (to_double prior)) (to_double prior))"

definition delta_text :: "double \<Rightarrow> string" where
  "delta_text delta = (if at_least_zero delta then ''+'' else []) @ toFixed 2 delta @ ''%''"

definition size_row :: "(string \<times> number \<times> number) list \<Rightarrow> string \<times> number \<times> number \<Rightarrow> utext" where
  "size_row base = (\<lambda>(name, gzip, raw).
     (case map_of base name of
        Some (prior, prior_raw) \<Rightarrow>
          if less_double (Fin 0) (to_double prior)
          then [S (''| '' @ name @ '' | '' @ fmtBytes prior @ '' | '' @ fmtBytes gzip @ '' | '' @ delta_text (delta_of gzip prior) @ '' |'')]
          else [S (''| '' @ name @ '' | ''), U 0x2014, S ('' | '' @ fmtBytes gzip @ '' ('' @ fmtBytes raw @ '' raw) | new |'')]
      | None \<Rightarrow> [S (''| '' @ name @ '' | ''), U 0x2014, S ('' | '' @ fmtBytes gzip @ '' ('' @ fmtBytes raw @ '' raw) | new |'')]))"

definition size_delta :: "string \<Rightarrow> string \<Rightarrow> utext list" where
  "size_delta baseTsv headTsv =
     [[S ''| category | base (gzip) | head (gzip) | '', U 0x394, S '' gzip |''], [S ''|---|---:|---:|---:|'']] @
     map (size_row (parse_sizes baseTsv)) (parse_sizes headTsv)"

section \<open>Sums\<close>

lemma add_weight_simps [simp]:
  "add_weight no_weight a = a" "add_weight a no_weight = a"
  by (simp_all add: add_weight_def no_weight_def)

lemma add_weight_assoc: "add_weight (add_weight a b) c = add_weight a (add_weight b c)"
  by (simp add: add_weight_def)

lemma add_weight_commute: "add_weight a b = add_weight b a"
  by (simp add: add_weight_def)

definition total :: "asset list \<Rightarrow> asset" where
  "total as = foldr add_weight as no_weight"

lemma total_append: "total (as @ bs) = add_weight (total as) (total bs)"
  by (induction as) (simp_all add: total_def add_weight_assoc)

lemma sum_assets_total:
  "sum_assets assets paths = total (concat (map (\<lambda>p. case asset_at assets p of None \<Rightarrow> [] | Some a \<Rightarrow> [a]) paths))"
proof -
  have "foldl (\<lambda>acc path. case asset_at assets path of None \<Rightarrow> acc | Some a \<Rightarrow> add_weight acc a) w paths =
      add_weight w (total (concat (map (\<lambda>p. case asset_at assets p of None \<Rightarrow> [] | Some a \<Rightarrow> [a]) paths)))" for w
    by (induction paths arbitrary: w) (auto simp: total_def add_weight_assoc split: option.split)
  then show ?thesis by (simp add: sum_assets_def)
qed

text \<open>The first load is what the shell and the polyfills weigh together.\<close>

lemma sum_assets_append: "sum_assets assets (xs @ ys) = add_weight (sum_assets assets xs) (sum_assets assets ys)"
  by (simp add: sum_assets_total total_append)

lemma sum_of_own:
  assumes "distinct (map fst assets)" "set xs \<subseteq> set assets"
  shows "sum_assets assets (paths_of xs) = total (map snd xs)"
proof -
  have "concat (map (\<lambda>p. case asset_at assets p of None \<Rightarrow> [] | Some a \<Rightarrow> [a]) (paths_of xs)) = map snd xs"
    using assms(2)
  proof (induction xs)
    case (Cons x xs)
    have "map_of assets (fst x) = Some (snd x)" using Cons.prems assms(1) by (intro map_of_is_SomeI) auto
    then show ?case using Cons by (cases x) (simp add: paths_of_def asset_at_def)
  qed (simp add: paths_of_def)
  then show ?thesis by (simp add: sum_assets_total)
qed

lemma total_split:
  assumes "\<And>x. x \<in> set xs \<Longrightarrow> P x \<noteq> Q x"
  shows "add_weight (total (map f (filter P xs))) (total (map f (filter Q xs))) = total (map f xs)"
  using assms
proof (induction xs)
  case (Cons x xs)
  have ih: "add_weight (total (map f (filter P xs))) (total (map f (filter Q xs))) = total (map f xs)"
    using Cons by simp
  have "P x \<noteq> Q x" using Cons.prems by simp
  then consider "P x" "\<not> Q x" | "\<not> P x" "Q x" by blast
  then show ?case
    by cases (simp_all add: total_def ih [symmetric, unfolded total_def] add_weight_def)
qed (simp add: total_def)

section \<open>The files of a build\<close>

fun tree_files :: "(string \<times> fs_node) list \<Rightarrow> (string \<times> string) list" where
  "tree_files [] = []"
| "tree_files ((name, entry) # es) =
     (case entry of Dir xs \<Rightarrow> tree_files xs | File b m \<Rightarrow> [(name, b)]) @ tree_files es"

fun proper_entries :: "(string \<times> fs_node) list \<Rightarrow> bool" where
  "proper_entries [] \<longleftrightarrow> True"
| "proper_entries ((name, entry) # es) \<longleftrightarrow>
     CHR ''/'' \<notin> set name \<and> name \<notin> fst ` set es \<and>
     (case entry of Dir xs \<Rightarrow> proper_entries xs | File b m \<Rightarrow> True) \<and> proper_entries es"

lemma walk_weights:
  "map snd (walk_assets gzip dir es) = map (weigh gzip \<circ> snd) (filter (is_asset \<circ> fst) (tree_files es))"
  by (induction gzip dir es rule: walk_assets.induct) (auto split: fs_node.splits)

lemma walk_below:
  "p \<in> fst ` set (walk_assets gzip dir es) \<Longrightarrow>
     \<exists>name \<in> fst ` set es. p = dir @ ''/'' @ name \<or> (\<exists>r. p = dir @ ''/'' @ name @ ''/'' @ r)"
proof (induction gzip dir es rule: walk_assets.induct)
  case (2 gzip dir name entry es)
  show ?case
  proof (cases "p \<in> fst ` set (walk_assets gzip dir es)")
    case True
    then show ?thesis using 2(2) by force
  next
    case False
    show ?thesis
    proof (cases entry)
      case (File b m)
      then show ?thesis using 2(3) False by (auto split: if_splits)
    next
      case (Dir xs)
      then have "p \<in> fst ` set (walk_assets gzip (dir @ ''/'' @ name) xs)" using 2(3) False by auto
      then show ?thesis using 2(1) [OF Dir] by force
    qed
  qed
qed simp

lemma walk_below_name:
  assumes "p \<in> fst ` set (walk_assets gzip dir es)"
  obtains n r where "n \<in> fst ` set es" "p = dir @ ''/'' @ n @ r" "r = [] \<or> hd r = CHR ''/''"
proof -
  obtain n where n: "n \<in> fst ` set es" "p = dir @ ''/'' @ n \<or> (\<exists>r. p = dir @ ''/'' @ n @ ''/'' @ r)"
    using walk_below [OF assms] by blast
  then consider "p = dir @ ''/'' @ n @ []" | r where "p = dir @ ''/'' @ n @ (''/'' @ r)" by auto
  then show ?thesis
    by cases (use that [OF n(1)] in force)+
qed

lemma same_first_name:
  assumes "CHR ''/'' \<notin> set a" "CHR ''/'' \<notin> set b"
    "dir @ ''/'' @ a @ r = dir @ ''/'' @ b @ q" "r = [] \<or> hd r = CHR ''/''" "q = [] \<or> hd q = CHR ''/''"
  shows "a = b"
proof -
  have first: "takeWhile (\<lambda>c. c \<noteq> CHR ''/'') (x @ y) = x" if "CHR ''/'' \<notin> set x" "y = [] \<or> hd y = CHR ''/''" for x y :: string
    using that by (induction x) (cases y, auto)
  have "a @ r = b @ q" using assms(3) by simp
  then show ?thesis using first [OF assms(1,4)] first [OF assms(2,5)] by simp
qed

lemma proper_names: "proper_entries es \<Longrightarrow> n \<in> fst ` set es \<Longrightarrow> CHR ''/'' \<notin> set n"
  by (induction es) force+

lemma walk_distinct: "proper_entries es \<Longrightarrow> distinct (map fst (walk_assets gzip dir es))"
proof (induction gzip dir es rule: walk_assets.induct)
  case (2 gzip dir name entry es)
  let ?first = "case entry of Dir xs \<Rightarrow> walk_assets gzip (dir @ ''/'' @ name) xs
      | File b m \<Rightarrow> if is_asset name then [(dir @ ''/'' @ name, weigh gzip b)] else []"
  have "distinct (map fst ?first)" using 2 by (auto split: fs_node.splits)
  moreover have "distinct (map fst (walk_assets gzip dir es))" using 2 by auto
  moreover have "fst ` set ?first \<inter> fst ` set (walk_assets gzip dir es) = {}"
  proof -
    have names: "CHR ''/'' \<notin> set n" if "n \<in> fst ` set es" for n
      using that 2(3) by (intro proper_names [of es]) simp_all
    have "n = name" if first: "p \<in> fst ` set ?first" and rest: "p \<in> fst ` set (walk_assets gzip dir es)"
        and n: "n \<in> fst ` set es" "p = dir @ ''/'' @ n @ r" "r = [] \<or> hd r = CHR ''/''" for p n r
    proof -
      obtain q where "p = dir @ ''/'' @ name @ q" "q = [] \<or> hd q = CHR ''/''"
        using first walk_below [of p gzip "dir @ ''/'' @ name"] by (cases entry) (force split: if_splits)+
      then show ?thesis using same_first_name [of n name dir r q] names [OF n(1)] n(2,3) 2(3) by auto
    qed
    then have apart: "n = name" if "p \<in> fst ` set ?first" "p \<in> fst ` set (walk_assets gzip dir es)"
        "n \<in> fst ` set es" "p = dir @ ''/'' @ n @ r" "r = [] \<or> hd r = CHR ''/''" for p n r using that by blast
    show ?thesis
    proof (rule equals0I)
      fix p assume "p \<in> fst ` set ?first \<inter> fst ` set (walk_assets gzip dir es)"
      then have p: "p \<in> fst ` set ?first" "p \<in> fst ` set (walk_assets gzip dir es)" by simp_all
      obtain n r where n: "n \<in> fst ` set es" "p = dir @ ''/'' @ n @ r" "r = [] \<or> hd r = CHR ''/''"
        using walk_below_name [OF p(2)] .
      have "n = name" by (rule apart [OF p n])
      then show False using n(1) 2(3) by simp
    qed
  qed
  ultimately show ?case by simp
qed simp

text \<open>The categories of scripts and of style sheets weigh every asset of the build once.\<close>

lemma suffix_kinds: "ends_with ''.js'' p \<Longrightarrow> ends_with ''.css'' p \<Longrightarrow> False"
  by (auto simp: ends_with_def starts_with_iff)

lemma path_kind: "p \<in> fst ` set (walk_assets gzip dir es) \<Longrightarrow> ends_with ''.js'' p \<noteq> ends_with ''.css'' p"
proof (induction gzip dir es rule: walk_assets.induct)
  case (2 gzip dir name entry es)
  have "ends_with x (dir @ ''/'' @ name)" if "ends_with x name" for x
    using that by (auto simp: ends_with_def starts_with_iff)
  then have "is_asset name \<Longrightarrow> ends_with ''.js'' (dir @ ''/'' @ name) \<noteq> ends_with ''.css'' (dir @ ''/'' @ name)"
    using suffix_kinds by (auto simp: is_asset_def)
  then show ?case using 2 by (cases entry) (auto split: if_splits)
qed simp

lemma categories_weigh_all:
  assumes "proper_entries es"
  shows "(let assets = walk_assets gzip dir es
          in add_weight (sum_assets assets (paths_of (jsAssets assets))) (sum_assets assets (paths_of (cssAssets assets)))) =
    total (map (weigh gzip \<circ> snd) (filter (is_asset \<circ> fst) (tree_files es)))"
proof -
  let ?a = "walk_assets gzip dir es"
  have d: "distinct (map fst ?a)" by (rule walk_distinct [OF assms])
  have "sum_assets ?a (paths_of (jsAssets ?a)) = total (map snd (jsAssets ?a))"
    "sum_assets ?a (paths_of (cssAssets ?a)) = total (map snd (cssAssets ?a))"
    by (rule sum_of_own [OF d]; auto simp: jsAssets_def cssAssets_def)+
  moreover have "add_weight (total (map snd (jsAssets ?a))) (total (map snd (cssAssets ?a))) = total (map snd ?a)"
    unfolding jsAssets_def cssAssets_def
  proof (rule total_split)
    fix x assume "x \<in> set ?a"
    then have "fst x \<in> fst ` set ?a" by simp
    from path_kind [OF this] show "(case x of (path, a) \<Rightarrow> ends_with ''.js'' path) \<noteq> (case x of (path, a) \<Rightarrow> ends_with ''.css'' path)"
      by (cases x) simp
  qed
  ultimately show ?thesis by (simp add: walk_weights Let_def)
qed

section \<open>Reading a report back\<close>

lemma tsv_lines:
  assumes "\<forall>l \<in> set ls. newline \<notin> set l" "ls \<noteq> []"
  shows "split_on newline (join [newline] ls @ [newline]) = ls @ [[]]"
proof -
  have "join [newline] ls @ [newline] = join [newline] (ls @ [[]])"
    using join_snoc [OF assms(2), of "[newline]" "[]"] by simp
  then show ?thesis using assms(1) by (simp only:) (rule split_on_join, auto)
qed

definition plain_cell :: "string \<Rightarrow> bool" where
  "plain_cell c \<longleftrightarrow> js_trim c = c \<and> c \<noteq> [] \<and> tab \<notin> set c \<and> newline \<notin> set c"

lemma digits_cell: "tab \<notin> set (digits n)" "newline \<notin> set (digits n)"
  using digits_are_digits [of n] by (auto simp: list_all_iff is_digit_def tab_def newline_def)

lemma update_new: "k \<notin> fst ` set xs \<Longrightarrow> AList.update k v xs = xs @ [(k, v)]"
  by (induction xs) auto

definition size_line :: "string \<times> asset \<Rightarrow> string" where
  "size_line = (\<lambda>(name, a). name @ [tab] @ digits (as_gzip a) @ [tab] @ digits (as_raw a))"

lemma size_line_cells:
  assumes "plain_cell name"
  shows "split_on tab (size_line (name, a)) = [name, digits (as_gzip a), digits (as_raw a)]" and
    "newline \<notin> set (size_line (name, a))" and "js_trim (size_line (name, a)) \<noteq> []"
proof -
  have n: "tab \<notin> set name" "newline \<notin> set name" using assms by (simp_all add: plain_cell_def)
  show "split_on tab (size_line (name, a)) = [name, digits (as_gzip a), digits (as_raw a)]"
    using n(1) digits_cell by (simp add: size_line_def split_on_append split_on_single)
  show "newline \<notin> set (size_line (name, a))"
    using n(2) digits_cell by (simp add: size_line_def) (simp add: tab_def newline_def)
  have "js_trim name \<noteq> []" using assms by (simp add: plain_cell_def)
  then have "\<not> (\<forall>c \<in> set name. js_space c)" by (simp add: js_trim_blank)
  then show "js_trim (size_line (name, a)) \<noteq> []" by (auto simp: js_trim_blank size_line_def)
qed

definition read_back :: "(string \<times> asset) list \<Rightarrow> (string \<times> number \<times> number) list" where
  "read_back cats = map (\<lambda>(name, a). (name, nat_number (as_gzip a), nat_number (as_raw a))) cats"

lemma parse_size_tsv:
  assumes "\<forall>c \<in> set cats. plain_cell (fst c)" "distinct (map fst cats)" "cats \<noteq> []"
  shows "parse_sizes (size_tsv cats) = read_back cats"
proof -
  let ?step = "\<lambda>rows line. if js_trim line = [] then rows
      else (let cells = split_on tab line in AList.update (hd cells) (column cells 1, column cells 2) rows)"
  have "foldl ?step rows (map size_line cs) = rows @ read_back cs"
    if "\<forall>c \<in> set cs. plain_cell (fst c)" "distinct (map fst cs)" "fst ` set rows \<inter> fst ` set cs = {}" for rows cs
    using that
  proof (induction cs arbitrary: rows)
    case (Cons c cs)
    obtain name a where c: "c = (name, a)" by fastforce
    have p: "plain_cell name" using Cons.prems(1) by (simp add: c)
    have "?step rows (size_line c) = AList.update name (nat_number (as_gzip a), nat_number (as_raw a)) rows"
      using size_line_cells [OF p, of a] by (simp add: c column_def nat_number_def)
    also have "\<dots> = rows @ read_back [c]"
      using Cons.prems(3) by (simp add: c update_new read_back_def)
    finally have "foldl ?step rows (map size_line (c # cs)) = foldl ?step (rows @ read_back [c]) (map size_line cs)" by simp
    also have "\<dots> = (rows @ read_back [c]) @ read_back cs"
      by (rule Cons.IH) (use Cons.prems in \<open>auto simp: c read_back_def\<close>)
    finally show ?case by (simp add: read_back_def)
  qed (simp add: read_back_def)
  then have all: "foldl ?step [] (map size_line cats) = read_back cats" using assms(1,2) by simp
  have "size_tsv cats = join [newline] (map size_line cats) @ [newline]"
    by (simp add: size_tsv_def size_line_def)
  moreover have "split_on newline (join [newline] (map size_line cats) @ [newline]) = map size_line cats @ [[]]"
    by (rule tsv_lines) (use assms(1,3) size_line_cells(2) in auto)
  moreover have "js_trim [] = []" by (simp add: js_trim_def)
  ultimately show ?thesis using all by (simp add: parse_sizes_def)
qed

lemma category_names: "map fst (categories assets shell polyfills) =
    [''app shell (rootMainFiles)'', ''polyfills'', ''first-load JS (shell + polyfills)'', ''all client JS'', ''all client CSS'']"
  by (simp add: categories_def)

lemma category_cells:
  "\<forall>c \<in> set (categories assets shell polyfills). plain_cell (fst c)"
  "distinct (map fst (categories assets shell polyfills))" "categories assets shell polyfills \<noteq> []"
proof -
  have "\<forall>n \<in> set [''app shell (rootMainFiles)'', ''polyfills'', ''first-load JS (shell + polyfills)'', ''all client JS'', ''all client CSS'']. plain_cell n"
    by code_simp
  then have "\<forall>n \<in> set (map fst (categories assets shell polyfills)). plain_cell n" unfolding category_names .
  then show "\<forall>c \<in> set (categories assets shell polyfills). plain_cell (fst c)" by simp
  show "distinct (map fst (categories assets shell polyfills))" unfolding category_names by simp
  show "categories assets shell polyfills \<noteq> []" by (simp add: categories_def)
qed

section \<open>The sign of a difference\<close>

lemma round53_neg: "round53 x < 0 \<longleftrightarrow> x < 0" and round53_nonneg: "0 \<le> round53 x \<longleftrightarrow> 0 \<le> x"
  using round53_sgn [of x] by (metis not_less sgn_less)+

lemma delta_sign:
  assumes "0 < o'" "o' < 2 ^ 53" "n < 2 ^ 53"
  shows "at_least_zero (delta_of (nat_number n) (nat_number o')) \<longleftrightarrow> o' \<le> n"
  using assms by (simp add: delta_of_def sub_double_def to_double_nat round53_nonneg zero_le_divide_iff zero_le_mult_iff)

lemma fixed_no_plus: "toFixed k x \<noteq> CHR ''+'' # r"
proof -
  have d: "digits n \<noteq> CHR ''+'' # r" "digits n @ s \<noteq> CHR ''+'' # r" for n r s
    using digits_are_digits [of n] by (cases "digits n"; auto simp: is_digit_def)+
  show ?thesis by (cases x) (auto simp: fixed_text_def d)
qed

lemma delta_text_sign: "starts_with ''+'' (delta_text delta) \<longleftrightarrow> at_least_zero delta"
  using fixed_no_plus [of 2 delta] by (cases "toFixed 2 delta") (auto simp: delta_text_def)

text \<open>What is shown of a number is within half a unit of its last place.\<close>

lemma fixed_accurate: "0 \<le> x \<Longrightarrow> \<bar>x - of_nat (fixed_units k x) / 10 ^ k\<bar> \<le> 1 / 2 / 10 ^ k"
proof -
  assume x: "0 \<le> x"
  let ?y = "x * 10 ^ k"
  have "0 \<le> \<lfloor>?y + 1 / 2\<rfloor>" using x by (simp add: le_floor_iff)
  then have u: "(of_nat (fixed_units k x) :: rat) = of_int \<lfloor>?y + 1 / 2\<rfloor>" by (simp add: fixed_units_def)
  have "\<bar>?y - of_nat (fixed_units k x)\<bar> \<le> 1 / 2" unfolding u by linarith
  then have "\<bar>?y - of_nat (fixed_units k x)\<bar> / 10 ^ k \<le> 1 / 2 / 10 ^ k" by (rule divide_right_mono) simp
  moreover have "\<bar>?y - of_nat (fixed_units k x)\<bar> / 10 ^ k = \<bar>(?y - of_nat (fixed_units k x)) / 10 ^ k\<bar>" by simp
  moreover have "(?y - of_nat (fixed_units k x)) / 10 ^ k = x - of_nat (fixed_units k x) / 10 ^ k"
    by (simp add: diff_divide_distrib)
  ultimately show ?thesis by simp
qed

section \<open>The difference of two builds\<close>

definition size_compare :: "string \<Rightarrow> asset \<Rightarrow> asset \<Rightarrow> utext" where
  "size_compare name old new =
     (let prior = nat_number (as_gzip old); gzip = nat_number (as_gzip new)
      in if 0 < as_gzip old
         then [S (''| '' @ name @ '' | '' @ fmtBytes prior @ '' | '' @ fmtBytes gzip @ '' | '' @ delta_text (delta_of gzip prior) @ '' |'')]
         else [S (''| '' @ name @ '' | ''), U 0x2014,
               S ('' | '' @ fmtBytes gzip @ '' ('' @ fmtBytes (nat_number (as_raw new)) @ '' raw) | new |'')])"

lemma nat_number_positive: "n < 2 ^ 53 \<Longrightarrow> less_double (Fin 0) (to_double (nat_number n)) \<longleftrightarrow> 0 < n"
  by (simp add: to_double_nat)

lemma size_row_compare:
  assumes "distinct (map fst old)" "(name, o') \<in> set old" "as_gzip o' < 2 ^ 53"
  shows "size_row (read_back old) (name, nat_number (as_gzip n), nat_number (as_raw n)) = size_compare name o' n"
proof -
  have "map_of (read_back old) name = Some (nat_number (as_gzip o'), nat_number (as_raw o'))"
    using assms(1,2) by (induction old) (auto simp: read_back_def image_iff)
  then show ?thesis
    using nat_number_positive [OF assms(3)] by (simp add: size_row_def size_compare_def Let_def)
qed

text \<open>
  C39. What the size report says of two builds. The categories of scripts and style sheets weigh every
  asset below the static directory once. The table of the difference, made from the two reports as
  they were written and read back, has one row for each category, in order, with the sizes of both
  builds, or calls it new where the base had none; and the sign of the change is a plus exactly
  where the category has not become smaller.
\<close>

theorem size_report_exact:
  assumes "proper_entries es" and "assets' = walk_assets gzip dir es"
    and "old = categories assets shell polyfills" and "new = categories assets' shell' polyfills'"
    and "\<forall>c \<in> set (old @ new). as_gzip (snd c) < 2 ^ 53"
  shows "add_weight (snd (new ! 3)) (snd (new ! 4)) =
           total (map (weigh gzip \<circ> snd) (filter (is_asset \<circ> fst) (tree_files es))) \<and>
         size_delta (size_tsv old) (size_tsv new) =
           [[S ''| category | base (gzip) | head (gzip) | '', U 0x394, S '' gzip |''], [S ''|---|---:|---:|---:|'']] @
           map (\<lambda>(o', n). size_compare (fst n) (snd o') (snd n)) (zip old new) \<and>
         (\<forall>(o', n) \<in> set (zip old new). 0 < as_gzip (snd o') \<longrightarrow>
            starts_with ''+'' (delta_text (delta_of (nat_number (as_gzip (snd n))) (nat_number (as_gzip (snd o'))))) =
              (as_gzip (snd o') \<le> as_gzip (snd n)))"
proof (intro conjI)
  show "add_weight (snd (new ! 3)) (snd (new ! 4)) =
      total (map (weigh gzip \<circ> snd) (filter (is_asset \<circ> fst) (tree_files es)))"
    using categories_weigh_all [OF assms(1)] by (simp add: assms(2,4) categories_def Let_def)
  have names: "map fst old = map fst new" by (simp only: assms(3,4) category_names)
  have rows: "size_row (read_back old) (fst n, nat_number (as_gzip (snd n)), nat_number (as_raw (snd n))) =
      size_compare (fst n) (snd o') (snd n)" if "(o', n) \<in> set (zip old new)" for o' n
  proof (rule size_row_compare)
    have "fst o' = fst n" using that names by (auto simp: in_set_zip) (metis length_map nth_map)
    then have "(fst n, snd o') = o'" by (simp add: prod_eq_iff)
    then show "(fst n, snd o') \<in> set old" using set_zip_leftD [OF that] by simp
    show "as_gzip (snd o') < 2 ^ 53" using set_zip_leftD [OF that] assms(5) by simp
  qed (simp only: assms(3) category_cells(2))
  have "read_back new = map (\<lambda>(o', n). (fst n, nat_number (as_gzip (snd n)), nat_number (as_raw (snd n)))) (zip old new)"
    using arg_cong [OF names, of length] by (intro nth_equalityI) (auto simp: read_back_def split: prod.split)
  then show "size_delta (size_tsv old) (size_tsv new) =
      [[S ''| category | base (gzip) | head (gzip) | '', U 0x394, S '' gzip |''], [S ''|---|---:|---:|---:|'']] @
      map (\<lambda>(o', n). size_compare (fst n) (snd o') (snd n)) (zip old new)"
    using rows unfolding size_delta_def assms(3,4)
    by (simp only: parse_size_tsv [OF category_cells] map_map o_def) auto
  show "\<forall>(o', n) \<in> set (zip old new). 0 < as_gzip (snd o') \<longrightarrow>
      starts_with ''+'' (delta_text (delta_of (nat_number (as_gzip (snd n))) (nat_number (as_gzip (snd o'))))) =
        (as_gzip (snd o') \<le> as_gzip (snd n))"
  proof (clarify)
    fix k a k' b assume m: "((k, a), (k', b)) \<in> set (zip old new)" and pos: "0 < as_gzip (snd (k, a))"
    have "as_gzip a < 2 ^ 53" "as_gzip b < 2 ^ 53"
      using set_zip_leftD [OF m] set_zip_rightD [OF m] assms(5) by force+
    then show "starts_with ''+'' (delta_text (delta_of (nat_number (as_gzip (snd (k', b)))) (nat_number (as_gzip (snd (k, a)))))) =
        (as_gzip (snd (k, a)) \<le> as_gzip (snd (k', b)))"
      using delta_sign [of "as_gzip a" "as_gzip b"] pos by (simp only: delta_text_sign snd_conv)
  qed
qed

definition sample_build :: "(string \<times> fs_node) list" where
  "sample_build =
     [(''chunks'', Dir [(''main.js'', File ''main'' 420), (''main.js.map'', File ''map'' 420)]), (''app.css'', File ''css'' 420)]"

theorem size_report_exact_witness:
  "\<exists>old new. new = categories (walk_assets length ''static'' sample_build) [Str ''static/chunks/main.js''] [] \<and>
     size_delta (size_tsv old) (size_tsv new) ! 5 =
       size_compare ''all client JS'' \<lparr>as_gzip = 8, as_raw = 9\<rparr> \<lparr>as_gzip = 4, as_raw = 4\<rparr> \<and>
     \<not> starts_with ''+'' (delta_text (delta_of (nat_number 4) (nat_number 8)))"
proof (intro exI conjI)
  let ?old = "categories [(''static/a.js'', \<lparr>as_gzip = 8, as_raw = 9\<rparr>)] [] []"
  let ?new = "categories (walk_assets length ''static'' sample_build) [Str ''static/chunks/main.js''] []"
  have p: "proper_entries sample_build" by code_simp
  have g: "map (\<lambda>c. as_gzip (snd c)) (?old @ ?new) = [0, 0, 0, 8, 0, 4, 0, 4, 4, 3]" by code_simp
  have bound: "\<forall>x \<in> set (map (\<lambda>c. as_gzip (snd c)) (?old @ ?new)). x < 2 ^ 53" unfolding g by simp
  have small: "\<forall>c \<in> set (?old @ ?new). as_gzip (snd c) < 2 ^ 53"
  proof
    fix c assume "c \<in> set (?old @ ?new)"
    then have "as_gzip (snd c) \<in> set (map (\<lambda>c. as_gzip (snd c)) (?old @ ?new))" unfolding set_map by (rule imageI)
    then show "as_gzip (snd c) < 2 ^ 53" using bound by blast
  qed
  have z: "zip ?old ?new ! 3 = ((''all client JS'', \<lparr>as_gzip = 8, as_raw = 9\<rparr>), (''all client JS'', \<lparr>as_gzip = 4, as_raw = 4\<rparr>))"
    by code_simp
  have l: "length (zip ?old ?new) = 5" by (simp add: categories_def)
  note all = size_report_exact [OF p refl refl refl small]
  show "?new = ?new" ..
  have "size_delta (size_tsv ?old) (size_tsv ?new) =
      [[S ''| category | base (gzip) | head (gzip) | '', U 0x394, S '' gzip |''], [S ''|---|---:|---:|---:|'']] @
      map (\<lambda>(o', n). size_compare (fst n) (snd o') (snd n)) (zip ?old ?new)"
    using all by blast
  then show "size_delta (size_tsv ?old) (size_tsv ?new) ! 5 =
      size_compare ''all client JS'' \<lparr>as_gzip = 8, as_raw = 9\<rparr> \<lparr>as_gzip = 4, as_raw = 4\<rparr>"
    using z l by (simp add: nth_append)
  have "zip ?old ?new ! 3 \<in> set (zip ?old ?new)" by (rule nth_mem) (simp add: categories_def)
  then show "\<not> starts_with ''+'' (delta_text (delta_of (nat_number 4) (nat_number 8)))"
    using all z by force
qed

end
