(* ===== verification/HeapReport.thy ===== *)
theory HeapReport
  imports SizeReport HeapFootprint
begin

text \<open>
  From the figures of the heap harness (\<^verbatim>\<open>apps/web/src/perf/heap.perf.ts\<close>) to the tables of
  \<^verbatim>\<open>scripts/web-heap.mjs\<close>: the report the harness writes as JSON, its rendering as a table and as a
  list of metrics, and the difference of two such lists. The script reads the report back as an
  untyped value; \<open>None\<close> is a TypeError.
\<close>

section \<open>The report\<close>

record heap_figures =
  hf_perRequest :: "(string \<times> tally) list"
  hf_scaling :: "(nat \<times> tally) list"
  hf_snapshotCount :: nat
  hf_addedCount :: nat
  hf_heldCount :: nat
  hf_heldFootprint :: tally
  hf_drainedCount :: nat
  hf_drainedFootprint :: tally
  hf_baselineFootprint :: tally

definition count_value :: "nat \<Rightarrow> js" where
  "count_value n = Num (nat_number n)"

definition tally_value :: "tally \<Rightarrow> js" where
  "tally_value f =
     Obj [(''objects'', count_value (objects f)), (''arrays'', count_value (arrays f)),
          (''strings'', count_value (strings f)), (''stringChars'', count_value (stringChars f))]"

text \<open>\<open>+(x / n).toFixed(2)\<close> and \<open>Math.round(x / n)\<close>; something is always held.\<close>

definition per_held :: "nat \<Rightarrow> nat \<Rightarrow> double" where
  "per_held x n = div_double (Fin (of_nat x)) (Fin (of_nat n))"

definition held_objects :: "heap_figures \<Rightarrow> number" where
  "held_objects r = string_to_number (toFixed 2 (per_held (objects (hf_heldFootprint r)) (hf_heldCount r)))"

fun negate_number :: "number \<Rightarrow> number" where
  "negate_number (Dec neg s n) = Dec (\<not> neg) s n"
| "negate_number (Infinity neg) = Infinity (\<not> neg)"
| "negate_number NaN = NaN"

definition int_number :: "int \<Rightarrow> number" where
  "int_number i = (if 0 \<le> i then nat_number (nat i) else negate_number (nat_number (nat (- i))))"

fun math_round :: "double \<Rightarrow> number" where
  "math_round (Fin x) = int_number \<lfloor>x + 1 / 2\<rfloor>"
| "math_round NotANumber = NaN"
| "math_round (Inf neg) = Infinity neg"

definition held_chars :: "heap_figures \<Rightarrow> number" where
  "held_chars r = math_round (per_held (stringChars (hf_heldFootprint r)) (hf_heldCount r))"

definition released_clean :: "heap_figures \<Rightarrow> bool" where
  "released_clean r \<longleftrightarrow>
     hf_drainedCount r = 0 \<and> stringChars (hf_drainedFootprint r) = stringChars (hf_baselineFootprint r)"

definition totalPerRequest :: "heap_figures \<Rightarrow> tally" where
  "totalPerRequest r = foldl (\<lambda>sum entry. addFootprint sum (snd entry)) emptyFootprint (hf_perRequest r)"

definition heap_report :: "heap_figures \<Rightarrow> js" where
  "heap_report r =
     Obj [(''perRequest'', Arr (map (\<lambda>(ident, f). Obj [(''id'', Str ident), (''footprint'', tally_value f)]) (hf_perRequest r))),
          (''scaling'', Arr (map (\<lambda>(len, f). Obj [(''scriptLen'', count_value len), (''footprint'', tally_value f)]) (hf_scaling r))),
          (''retention'',
             Obj [(''snapshotCount'', count_value (hf_snapshotCount r)), (''addedCount'', count_value (hf_addedCount r)),
                  (''heldCount'', count_value (hf_heldCount r)), (''heldFootprint'', tally_value (hf_heldFootprint r)),
                  (''perHeld'', Obj [(''objects'', Num (held_objects r)), (''stringChars'', Num (held_chars r))]),
                  (''drainedCount'', count_value (hf_drainedCount r)),
                  (''drainedFootprint'', tally_value (hf_drainedFootprint r)),
                  (''baselineFootprint'', tally_value (hf_baselineFootprint r)),
                  (''releasedClean'', Bool (released_clean r))]),
          (''totalPerRequest'', tally_value (totalPerRequest r))]"

definition heap_json :: "heap_figures \<Rightarrow> string" where
  "heap_json r = pretty_line (heap_report r)"

text \<open>What the harness expects of its own figures.\<close>

definition heap_expectations :: "heap_figures \<Rightarrow> bool" where
  "heap_expectations r \<longleftrightarrow>
     0 < objects (totalPerRequest r) \<and> hf_heldCount r = hf_snapshotCount r + hf_addedCount r \<and> released_clean r"

section \<open>The tables\<close>

text \<open>\<open>v.k1.k2\<close> in a template.\<close>

fun get_field :: "js \<Rightarrow> string list \<Rightarrow> js option" where
  "get_field v [] = Some v"
| "get_field v (k # ks) = (if nullish v then None else get_field (member v k) ks)"

definition cell :: "js \<Rightarrow> string list \<Rightarrow> string option" where
  "cell v path = Option.bind (get_field v path) js_String"

fun cells :: "js \<Rightarrow> string list list \<Rightarrow> string list option" where
  "cells v [] = Some []"
| "cells v (p # ps) =
     (case cell v p of None \<Rightarrow> None | Some c \<Rightarrow> (case cells v ps of None \<Rightarrow> None | Some cs \<Rightarrow> Some (c # cs)))"

definition table_row :: "string list \<Rightarrow> utext" where
  "table_row cs = [S (''| '' @ join '' | '' cs @ '' |'')]"

definition request_row :: "js \<Rightarrow> utext option" where
  "request_row entry =
     Option.bind (cell entry [''id'']) (\<lambda>ident.
       map_option (\<lambda>cs. table_row ((''`'' @ ident @ ''`'') # cs))
         (cells entry [[''footprint'', ''objects''], [''footprint'', ''arrays''], [''footprint'', ''strings''],
                       [''footprint'', ''stringChars'']]))"

definition scaling_row :: "js \<Rightarrow> utext option" where
  "scaling_row entry =
     map_option table_row (cells entry [[''scriptLen''], [''footprint'', ''objects''], [''footprint'', ''stringChars'']])"

definition retention_rows :: "js \<Rightarrow> utext list option" where
  "retention_rows r =
     (case (cells r [[''heldCount''], [''perHeld'', ''objects''], [''perHeld'', ''stringChars''], [''drainedCount''],
                     [''drainedFootprint'', ''stringChars'']], get_field r [''releasedClean'']) of
        (Some [held, objs, chars, drained, left], Some clean) \<Rightarrow>
          Some
            [table_row [''requests held at peak'', held], table_row [''objects per held card'', objs],
             table_row [''string chars per held card'', chars],
             table_row [''retained after resolving all'', drained @ '' requests, '' @ left @ '' chars''],
             [S ''| released clean (no leak) | ''] @
               (if truthy clean then [U 0x2705, S '' yes'']
                else [U 0x274C, S '' NO '', U 0x2014, S '' retained state after drain'']) @ [S '' |'']]
      | _ \<Rightarrow> None)"

definition heap_markdown :: "js \<Rightarrow> utext list option" where
  "heap_markdown report =
     Option.bind (Option.bind (get_field report [''perRequest'']) iterate) (\<lambda>requests.
     Option.bind (traverse request_row requests) (\<lambda>request_rows.
     Option.bind (Option.bind (get_field report [''scaling'']) iterate) (\<lambda>scaling.
     Option.bind (traverse scaling_row scaling) (\<lambda>scaling_rows.
     Option.bind (Option.bind (get_field report [''retention'']) retention_rows) (\<lambda>retention.
       Some
         ([[S ''Per-request retained decision surface (objects '', U 0xB7, S '' string chars '', U 0x2014, S '' lower is better):''],
           [], [S ''| request | objects | arrays | strings | string chars |''], [S ''|---|---:|---:|---:|---:|'']] @
          request_rows @
          [[], [S ''Footprint vs script length (one shell card):''], [], [S ''| fragments | objects | string chars |''],
           [S ''|---:|---:|---:|'']] @
          scaling_rows @
          [[], [S ''Inbox retention over a session (snapshot + added '', U 0x2192, S '' resolve all):''], [],
           [S ''| metric | value |''], [S ''|---|---:|'']] @
          retention))))))"

definition METRICS :: "(string \<times> string list) list" where
  "METRICS =
     [(''total surface objects'', [''totalPerRequest'', ''objects'']),
      (''total surface arrays'', [''totalPerRequest'', ''arrays'']),
      (''total surface string chars'', [''totalPerRequest'', ''stringChars'']),
      (''objects per held card'', [''retention'', ''perHeld'', ''objects'']),
      (''string chars per held card'', [''retention'', ''perHeld'', ''stringChars'']),
      (''retained after drain (chars)'', [''retention'', ''drainedFootprint'', ''stringChars''])]"

definition heap_tsv :: "js \<Rightarrow> string option" where
  "heap_tsv report =
     map_option (\<lambda>cs. join [newline] (map (\<lambda>(name, c). name @ [tab] @ c) (zip (map fst METRICS) cs)) @ [newline])
       (cells report (map snd METRICS))"

section \<open>The difference of two lists of metrics\<close>

definition parse_metrics :: "string \<Rightarrow> (string \<times> number) list" where
  "parse_metrics tsv =
     foldl (\<lambda>rows line.
         if js_trim line = [] then rows
         else (let cs = split_on tab line in AList.update (hd cs) (column cs 1) rows))
       [] (split_on newline tsv)"

definition is_zero :: "number \<Rightarrow> bool" where
  "is_zero x \<longleftrightarrow> to_double x = Fin 0"

definition metric_row :: "(string \<times> number) list \<Rightarrow> string \<times> number \<Rightarrow> utext" where
  "metric_row base = (\<lambda>(name, v).
     (case map_of base name of
        None \<Rightarrow> [S (''| '' @ name @ '' | ''), U 0x2014, S ('' | '' @ number_to_string v @ '' | new |'')]
      | Some prior \<Rightarrow>
          table_row [name, number_to_string prior, number_to_string v,
            (if is_zero prior then (if is_zero v then ''0'' else ''+'' @ number_to_string v)
             else delta_text (delta_of v prior))]))"

definition heap_delta :: "string \<Rightarrow> string \<Rightarrow> utext list" where
  "heap_delta baseTsv headTsv =
     [[S ''| metric | base | head | '', U 0x394, S '' |''], [S ''|---|---:|---:|---:|'']] @
     map (metric_row (parse_metrics baseTsv)) (parse_metrics headTsv)"

section \<open>Lemmas\<close>

lemma parse_metrics_distinct: "distinct (map fst (parse_metrics tsv))"
proof -
  have "distinct (map fst (foldl (\<lambda>rows line. if js_trim line = [] then rows
      else (let cs = split_on tab line in AList.update (hd cs) (column cs 1) rows)) rows ls))"
    if "distinct (map fst rows)" for rows :: "(string \<times> number) list" and ls
    using that by (induction ls arbitrary: rows) (auto simp: Let_def distinct_update)
  then show ?thesis by (simp add: parse_metrics_def)
qed

text \<open>A list of metrics against itself: nothing has changed, whatever it holds.\<close>

lemma heap_delta_same:
  assumes "(name, v) \<in> set (parse_metrics tsv)" "to_double v = Fin x"
  shows "metric_row (parse_metrics tsv) (name, v) =
    table_row [name, number_to_string v, number_to_string v, if x = 0 then ''0'' else ''+0.00%'']"
proof -
  have m: "map_of (parse_metrics tsv) name = Some v"
    using assms(1) parse_metrics_distinct by (intro map_of_is_SomeI) auto
  have "toFixed 2 (Fin 0) = ''0.00''" by code_simp
  then have "delta_text (delta_of v v) = ''+0.00%''"
    by (simp add: delta_of_def sub_double_def assms(2) round53_def delta_text_def)
  then show ?thesis using assms(2) by (simp add: metric_row_def m is_zero_def)
qed

text \<open>A session that has released everything is reported so.\<close>

lemma retention_row_clean:
  assumes "retention_rows (member (heap_report r) ''retention'') = Some rows"
  shows "last rows = [S ''| released clean (no leak) | ''] @
      (if released_clean r then [U 0x2705, S '' yes''] else [U 0x274C, S '' NO '', U 0x2014, S '' retained state after drain'']) @ [S '' |'']"
proof -
  have "get_field (member (heap_report r) ''retention'') [''releasedClean''] = Some (Bool (released_clean r))"
    by (simp add: heap_report_def nullish_def)
  then show ?thesis using assms by (auto simp: retention_rows_def split: option.splits list.splits)
qed

end
