(* ===== verification/PerfReports.thy ===== *)
theory PerfReports
  imports HeapReport
begin

text \<open>
  The other reports of the performance lanes: \<^verbatim>\<open>scripts/web-bench-report.mjs\<close>, the table of a
  benchmark run; \<^verbatim>\<open>scripts/web-render-cost.mjs\<close> with the figures
  \<^verbatim>\<open>apps/web/src/perf/render-cost.perf.tsx\<close> writes for it; and \<^verbatim>\<open>scripts/web-lighthouse.mjs\<close>, the
  audit of the served app with the processes it starts. What a benchmark, a render or the audit
  measures is an argument. \<open>None\<close> is a TypeError.
\<close>

section \<open>Benchmarks\<close>

text \<open>\<open>v.toFixed(k)\<close>: only a Number has it.\<close>

definition js_toFixed :: "nat \<Rightarrow> js \<Rightarrow> string option" where
  "js_toFixed k v = (case v of Num x \<Rightarrow> Some (toFixed k (to_double x)) | _ \<Rightarrow> None)"

definition fmtHz :: "js \<Rightarrow> string option" where
  "fmtHz v =
     Option.bind (js_Number v) (\<lambda>x.
       (let hz = to_double x
        in if \<not> less_double hz (Fin (10 ^ 6)) \<and> hz \<noteq> NotANumber then Some (toFixed 2 (div_double hz (Fin (10 ^ 6))) @ ''M'')
           else if \<not> less_double hz (Fin (10 ^ 3)) \<and> hz \<noteq> NotANumber then Some (toFixed 1 (div_double hz (Fin (10 ^ 3))) @ ''k'')
           else js_toFixed 0 v))"

definition thousandth :: double where
  "thousandth = to_double (Dec False 1 (- 2))"

definition fmtMs :: "js \<Rightarrow> utext option" where
  "fmtMs v =
     map_option (\<lambda>x.
       (let ms = to_double x
        in if less_double ms thousandth then [S (toFixed 0 (scale_double (10 ^ 6) ms) @ '' ns'')]
           else [S (toFixed 2 (scale_double (10 ^ 3) ms) @ '' ''), U 0xB5, S ''s'']))
       (js_Number v)"

text \<open>\<open>fullName.replace(/^.*>\s*/, "")\<close>: up to the last \<open>>\<close> of the first line, and the white space after it.\<close>

definition line_end :: "char \<Rightarrow> bool" where
  "line_end c \<longleftrightarrow> c = CHR 0x0A \<or> c = CHR 0x0D"

definition strip_prefix :: "string \<Rightarrow> string" where
  "strip_prefix s =
     (let first = takeWhile (Not \<circ> line_end) s
      in if CHR ''>'' \<in> set first
         then dropWhile js_space (rev (takeWhile (\<lambda>c. c \<noteq> CHR ''>'') (rev first)) @ dropWhile (Not \<circ> line_end) s)
         else s)"

definition groupName :: "js \<Rightarrow> string option" where
  "groupName grp = (case member grp ''fullName'' of Str s \<Rightarrow> Some (strip_prefix s) | _ \<Rightarrow> None)"

definition bench_row :: "string \<Rightarrow> js \<Rightarrow> utext option" where
  "bench_row grp bench =
     (if nullish bench then None
      else
        (case (js_String (member bench ''name''), fmtHz (member bench ''hz''), fmtMs (member bench ''mean''),
               js_toFixed 1 (member bench ''rme'')) of
           (Some name, Some hz, Some mean, Some rme) \<Rightarrow>
             Some ([S (''| '' @ grp @ '' | '' @ name @ '' | '' @ hz @ '' | '')] @ mean @ [S '' | '', U 0xB1, S (rme @ ''% |'')])
         | _ \<Rightarrow> None))"

text \<open>\<open>v.key ?? []\<close>, iterated.\<close>

definition listed :: "js \<Rightarrow> string \<Rightarrow> js list option" where
  "listed v key = (if nullish v then None else iterate (nullish_or (member v key) (Arr [])))"

definition group_rows :: "js \<Rightarrow> utext list option" where
  "group_rows grp =
     (if nullish grp then None
      else Option.bind (groupName grp) (\<lambda>name. Option.bind (listed grp ''benchmarks'') (traverse (bench_row name))))"

definition file_rows :: "js \<Rightarrow> utext list option" where
  "file_rows entry = map_option concat (Option.bind (listed entry ''groups'') (traverse group_rows))"

definition bench_table :: "js \<Rightarrow> utext list option" where
  "bench_table data =
     map_option (\<lambda>rows. [[S ''| group | case | ops/sec | mean | '', U 0xB1, S '' |''], [S ''|---|---|---:|---:|---:|'']] @ concat rows)
       (Option.bind (listed data ''files'') (traverse file_rows))"

lemma dropWhile_unless: "(xs = [] \<or> \<not> P (hd xs)) \<Longrightarrow> dropWhile P xs = xs"
  by (cases xs) auto

text \<open>The name of a group is what vitest's prefix was put before.\<close>

lemma strip_prefix_group:
  assumes "\<forall>c \<in> set f. \<not> line_end c" "CHR ''>'' \<notin> set name" "name \<noteq> []" "\<not> js_space (hd name)"
  shows "strip_prefix (f @ '' > '' @ name) = name"
proof -
  let ?first = "takeWhile (Not \<circ> line_end) name"
  have first: "takeWhile (Not \<circ> line_end) (f @ '' > '' @ name) = f @ '' > '' @ ?first"
    using assms(1) by (simp add: takeWhile_append2 line_end_def)
  have rest: "dropWhile (Not \<circ> line_end) (f @ '' > '' @ name) = dropWhile (Not \<circ> line_end) name"
    using assms(1) by (simp add: dropWhile_append2 line_end_def)
  have "CHR ''>'' \<notin> set (rev ('' '' @ ?first))" using assms(2) by (auto dest: set_takeWhileD)
  then have tail: "rev (takeWhile (\<lambda>c. c \<noteq> CHR ''>'') (rev (f @ '' > '' @ ?first))) = '' '' @ ?first"
    by (simp add: takeWhile_append takeWhile_eq_all_conv [THEN iffD2])
  have "dropWhile js_space ('' '' @ name) = name"
    using assms(3,4) by (simp add: js_space_def dropWhile_unless)
  then show ?thesis unfolding strip_prefix_def Let_def first rest tail by simp
qed

section \<open>Rendering cost\<close>

record render_sample =
  rs_decisionCalls :: nat
  rs_commits :: nat
  rs_durationMs :: number

record render_report =
  rr_compiler :: bool
  rr_inboxSize :: nat
  rr_mountDecisionCalls :: nat
  rr_toggleShortcuts :: render_sample
  rr_arrowNav :: render_sample

definition INBOX_SIZE :: nat where
  "INBOX_SIZE = 24"

definition render_fixture :: "nat \<Rightarrow> approval_request" where
  "render_fixture i = (let base = demoRequests ! (i mod length demoRequests) in base\<lparr>rq_id := rq_id base @ ''-'' @ digits i\<rparr>)"

definition render_fixtures :: "approval_request list" where
  "render_fixtures = map render_fixture [0..<INBOX_SIZE]"

text \<open>The calls of the watched functions since they were last cleared.\<close>

definition decisionCalls :: "nat list \<Rightarrow> nat" where
  "decisionCalls calls = foldl (\<lambda>sum n. sum + n) 0 calls"

definition sample_value :: "render_sample \<Rightarrow> js" where
  "sample_value s =
     Obj [(''decisionCalls'', count_value (rs_decisionCalls s)), (''commits'', count_value (rs_commits s)),
          (''durationMs'', Num (rs_durationMs s))]"

definition render_report_value :: "render_report \<Rightarrow> js" where
  "render_report_value r =
     Obj [(''compiler'', Bool (rr_compiler r)), (''inboxSize'', count_value (rr_inboxSize r)),
          (''mountDecisionCalls'', count_value (rr_mountDecisionCalls r)),
          (''interactions'', Obj [(''toggleShortcuts'', sample_value (rr_toggleShortcuts r)),
                                (''arrowNav'', sample_value (rr_arrowNav r))])]"

definition render_report_file :: "render_report \<Rightarrow> string \<times> string" where
  "render_report_file r =
     (''render-cost.'' @ (if rr_compiler r then ''compiler'' else ''baseline'') @ ''.json'', pretty_line (render_report_value r))"

definition INTERACTIONS :: "((render_report \<Rightarrow> render_sample) \<times> string) list" where
  "INTERACTIONS =
     [(rr_toggleShortcuts, ''Toggle shortcuts panel (unrelated state)''), (rr_arrowNav, ''Arrow-key inbox navigation'')]"

definition int_double :: "int \<Rightarrow> double" where
  "int_double i = Fin (round53 (of_int i))"

text \<open>\<open>base > 0 ? `-${base - comp} (-${Math.round(((base - comp) / base) * 100)}%)` : "-"\<close>, with the signs of the source.\<close>

definition calls_delta :: "nat \<Rightarrow> nat \<Rightarrow> utext" where
  "calls_delta base compiled =
     (if 0 < base
      then
        (let saved = int base - int compiled
         in [U 0x2212, S (number_to_string (int_number saved) @ '' (''), U 0x2212,
             S (number_to_string (math_round (scale_double 100 (div_double (int_double saved) (int_double (int base))))) @ ''%)'')])
      else [U 0x2014])"

definition calls_row :: "render_report \<Rightarrow> render_report \<Rightarrow> (render_report \<Rightarrow> render_sample) \<times> string \<Rightarrow> utext" where
  "calls_row baseline compiler = (\<lambda>(key, label).
     (let base = rs_decisionCalls (key baseline); compiled = rs_decisionCalls (key compiler)
      in [S (''| '' @ label @ '' | '' @ digits base @ '' | '' @ digits compiled @ '' | '')] @ calls_delta base compiled @ [S '' |'']))"

definition duration_row :: "render_report \<Rightarrow> render_report \<Rightarrow> (render_report \<Rightarrow> render_sample) \<times> string \<Rightarrow> utext" where
  "duration_row baseline compiler = (\<lambda>(key, label).
     table_row [label, toFixed 2 (to_double (rs_durationMs (key baseline))), toFixed 2 (to_double (rs_durationMs (key compiler)))])"

definition render_cost_markdown :: "render_report \<Rightarrow> render_report \<Rightarrow> utext list" where
  "render_cost_markdown baseline compiler =
     [[S (''Inbox size: '' @ digits (rr_inboxSize baseline) @ '' cards ''), U 0xB7,
       S ('' first paint: '' @ digits (rr_mountDecisionCalls baseline) @ '' decision calls'')],
      [], [S ''Decision-surface recomputations per interaction (lower is better):''], [],
      [S ''| interaction | baseline | compiler | '', U 0x394, S '' |''], [S ''|---|---:|---:|---:|'']] @
     map (calls_row baseline compiler) INTERACTIONS @
     [[], [S ''Profiler commit duration (ms, wall-clock '', U 0x2014, S '' noisy, context only):''], [],
      [S ''| interaction | baseline | compiler |''], [S ''|---|---:|---:|'']] @
     map (duration_row baseline compiler) INTERACTIONS"

text \<open>No card replaces another.\<close>

lemma render_fixtures_distinct: "distinct (map rq_id render_fixtures) \<and> length render_fixtures = INBOX_SIZE"
  by code_simp

text \<open>Halving the calls is shown as half.\<close>

lemma calls_delta_half: "calls_delta 240 120 = [U 0x2212, S ''120 ('', U 0x2212, S ''50%)'']"
  by code_simp

section \<open>The audit\<close>

text \<open>
  \<open>waitForServer\<close>: the replies in turn, with what each took; a failed one is followed by a pause.
\<close>

record server_probe =
  pb_ok :: "nat \<Rightarrow> bool"
  pb_took :: "nat \<Rightarrow> nat"

function wait_for_server :: "server_probe \<Rightarrow> nat \<Rightarrow> nat \<Rightarrow> nat \<Rightarrow> bool" where
  "wait_for_server pb deadline now k =
     (if now < deadline then if pb_ok pb k then True else wait_for_server pb deadline (now + pb_took pb k + 300) (k + 1)
      else False)"
  by pat_completeness auto
termination by (relation "measure (\<lambda>(pb, deadline, now, k). deadline - now)") auto

declare wait_for_server.simps [simp del]

definition timeoutMs :: nat where
  "timeoutMs = 30000"

definition waitForServer :: "server_probe \<Rightarrow> nat \<Rightarrow> string \<Rightarrow> string option" where
  "waitForServer pb now url =
     (if wait_for_server pb (now + timeoutMs) now 0 then None
      else Some (''server at '' @ url @ '' did not become ready within '' @ digits timeoutMs @ ''ms''))"

text \<open>The pauses bound the attempts, and one of them has found the server ready.\<close>

lemma wait_for_server_iff:
  "wait_for_server pb deadline now k \<Longrightarrow> \<exists>n. now + 300 * n < deadline \<and> pb_ok pb (k + n) \<and> (\<forall>i<n. \<not> pb_ok pb (k + i))"
proof (induction pb deadline now k rule: wait_for_server.induct)
  case (1 pb deadline now k)
  show ?case
  proof (cases "pb_ok pb k")
    case True
    then show ?thesis using 1(2) by (intro exI [of _ 0]) (auto simp: wait_for_server.simps [of pb deadline now k] split: if_splits)
  next
    case False
    then have d: "now < deadline" "wait_for_server pb deadline (now + pb_took pb k + 300) (k + 1)"
      using 1(2) by (auto simp: wait_for_server.simps [of pb deadline now k] split: if_splits)
    obtain n where n: "now + pb_took pb k + 300 + 300 * n < deadline" "pb_ok pb (k + 1 + n)" "\<forall>i<n. \<not> pb_ok pb (k + 1 + i)"
      using 1(1) [OF d(1) False d(2)] by blast
    have "\<forall>i<Suc n. \<not> pb_ok pb (k + i)" using n(3) False by (auto simp: less_Suc_eq_0_disj)
    then show ?thesis using n(1,2) by (intro exI [of _ "Suc n"]) auto
  qed
qed

record audit_metric =
  am_id :: string
  am_label :: string
  am_display :: js
  am_value :: js

definition metricIds :: "(string \<times> string) list" where
  "metricIds =
     [(''first-contentful-paint'', ''First Contentful Paint''), (''largest-contentful-paint'', ''Largest Contentful Paint''),
      (''total-blocking-time'', ''Total Blocking Time''), (''cumulative-layout-shift'', ''Cumulative Layout Shift''),
      (''speed-index'', ''Speed Index''), (''interactive'', ''Time to Interactive'')]"

text \<open>An absent display stays \<open>Undefined\<close> here; it is printed as a dash.\<close>

definition audit_metric_of :: "js \<Rightarrow> string \<times> string \<Rightarrow> audit_metric option" where
  "audit_metric_of audits = (\<lambda>(ident, label).
     (if nullish audits then None
      else
        (let entry = member audits ident
         in Some \<lparr>am_id = ident, am_label = label, am_display = nullish_or (member entry ''displayValue'') Undefined,
                  am_value = nullish_or (member entry ''numericValue'') Null\<rparr>)))"

definition audit_score :: "js \<Rightarrow> number option" where
  "audit_score lhr =
     Option.bind (get_field lhr [''categories'', ''performance'', ''score'']) (\<lambda>score.
       map_option (\<lambda>x. math_round (scale_double 100 (to_double x))) (js_Number (nullish_or score (Num (Dec False 0 1)))))"

definition metric_line :: "audit_metric \<Rightarrow> utext option" where
  "metric_line m =
     (if am_display m = Undefined then Some [S (''| '' @ am_label m @ '' | ''), U 0x2014, S '' |'']
      else map_option (\<lambda>d. table_row [am_label m, d]) (js_String (am_display m)))"

record audit_report =
  ad_score :: number
  ad_metrics :: "audit_metric list"
  ad_md :: "utext list"

definition audit_markdown :: "number \<Rightarrow> utext list \<Rightarrow> utext list" where
  "audit_markdown score rows =
     [[S (''**Performance score: '' @ number_to_string score @ '' / 100** ''), U 0x2014, S '' `app shell`''], [],
      [S ''| metric | value |''], [S ''|---|---:|'']] @ rows"

definition audit_report_of :: "js \<Rightarrow> audit_report option" where
  "audit_report_of lhr =
     Option.bind (audit_score lhr) (\<lambda>score.
     Option.bind (traverse (audit_metric_of (member lhr ''audits'')) metricIds) (\<lambda>metrics.
     map_option (\<lambda>rows. \<lparr>ad_score = score, ad_metrics = metrics, ad_md = audit_markdown score rows\<rparr>)
       (traverse metric_line metrics)))"

text \<open>
  The run: \<open>Inl\<close> of a message is an exception of what is called. A \<open>fail\<close> inside the \<open>try\<close>, or in
  its \<open>catch\<close>, ends the process at once: the listener of \<open>exit\<close> stops the server, and the \<open>finally\<close>
  block is not reached.
\<close>

record audit_world =
  aw_probe :: server_probe
  aw_now :: nat
  aw_url :: string
  aw_launch :: "string option"
  aw_lighthouse :: "string + js"
  aw_write :: "string option"

record audit_run =
  ar_server :: bool
  ar_chrome :: bool
  ar_exit :: nat
  ar_message :: "string option"
  ar_report :: "audit_report option"

definition exit_failed :: "string \<Rightarrow> bool \<Rightarrow> audit_run" where
  "exit_failed message chrome =
     \<lparr>ar_server = False, ar_chrome = chrome, ar_exit = 1, ar_message = Some (''FAIL: '' @ message), ar_report = None\<rparr>"

definition audit_result :: "string option \<Rightarrow> js \<Rightarrow> audit_run" where
  "audit_result write_error result =
     (if \<not> truthy (member result ''lhr'') then exit_failed ''Lighthouse returned no result'' True
      else
        (case audit_report_of (member result ''lhr'') of
           None \<Rightarrow> exit_failed ''TypeError'' True
         | Some report \<Rightarrow>
             (case write_error of
                Some e \<Rightarrow> exit_failed e True
              | None \<Rightarrow> \<lparr>ar_server = False, ar_chrome = False, ar_exit = 0, ar_message = None, ar_report = Some report\<rparr>)))"

definition run_audit :: "audit_world \<Rightarrow> audit_run" where
  "run_audit w =
     (case waitForServer (aw_probe w) (aw_now w) (aw_url w) of
        Some e \<Rightarrow> exit_failed e False
      | None \<Rightarrow>
          (case aw_launch w of
             Some e \<Rightarrow> exit_failed e False
           | None \<Rightarrow>
               (case aw_lighthouse w of
                  Inl e \<Rightarrow> exit_failed e True
                | Inr result \<Rightarrow> audit_result (aw_write w) result)))"

text \<open>The server is stopped however the run ends; the browser only if it succeeds.\<close>

lemma run_audit_cleans_up:
  "\<not> ar_server (run_audit w) \<and>
   (ar_chrome (run_audit w) \<longleftrightarrow>
      ar_exit (run_audit w) = 1 \<and> waitForServer (aw_probe w) (aw_now w) (aw_url w) = None \<and> aw_launch w = None) \<and>
   (ar_exit (run_audit w) = 0 \<longleftrightarrow> ar_report (run_audit w) \<noteq> None)"
  by (simp add: run_audit_def audit_result_def exit_failed_def split: option.split sum.split)

end
