(* ===== verification/PoolResult.thy ===== *)
theory PoolResult
  imports FileTree JsonRoundtrip
begin

text \<open>
  \<^verbatim>\<open>pool-maintenance/result.mjs\<close>: the names of the crates from the metadata of Cargo, and the
  merging of the reports of a timed and an untimed run. \<open>Inl\<close> is the message of \<open>fail\<close>, which exits
  with status 2; the engine's text for a JSON error is left out of it. The names are printed as
  they are checked, so a failure comes after the ones before it.
\<close>

section \<open>crates\<close>

definition name_char :: "char \<Rightarrow> bool" where
  "name_char c \<longleftrightarrow> word_char c \<or> c = CHR ''-''"

definition plain_package :: "js \<Rightarrow> string option" where
  "plain_package pkg =
     (case member pkg ''name'' of
        Str s \<Rightarrow> if s \<noteq> [] \<and> list_all name_char s then Some s else None
      | _ \<Rightarrow> None)"

fun print_crates :: "js list \<Rightarrow> string list \<Rightarrow> string list outcome" where
  "print_crates [] out = (out, None)"
| "print_crates (pkg # pkgs) out =
     (case plain_package pkg of
        None \<Rightarrow> (out, Some (''cargo metadata listed a package without a plain name: '' @ json_text (member pkg ''name'')))
      | Some name \<Rightarrow> print_crates pkgs (out @ [name @ [newline]]))"

definition crates :: "string option \<Rightarrow> string list outcome" where
  "crates stdin =
     (case Option.bind stdin js_parse of
        None \<Rightarrow> ([], Some ''cargo metadata did not print JSON'')
      | Some metadata \<Rightarrow>
          (case member metadata ''packages'' of
             Arr pkgs \<Rightarrow>
               if pkgs = [] then ([], Some ''cargo metadata listed no `packages`'') else print_crates pkgs []
           | _ \<Rightarrow> ([], Some ''cargo metadata listed no `packages`'')))"

section \<open>merge\<close>

text \<open>A report: its value, finite and not negative, and its detail.\<close>

definition valid_report :: "js \<Rightarrow> (number \<times> string) option" where
  "valid_report report =
     (case (member report ''value'', member report ''detail'') of
        (Num (Dec neg s n), Str detail) \<Rightarrow> if neg \<and> s \<noteq> 0 then None else Some (Dec neg s n, detail)
      | _ \<Rightarrow> None)"

definition readReport :: "fs_node \<Rightarrow> string \<Rightarrow> string \<Rightarrow> string + number \<times> string" where
  "readReport t cwd file_name =
     (case Option.bind (read_file_sync t (segs cwd file_name)) js_parse of
        None \<Rightarrow> Inl (file_name @ '' is not the pruner'' @ [CHR 0x27] @ ''s onebudgetspec report'')
      | Some report \<Rightarrow>
          (case valid_report report of
             None \<Rightarrow> Inl (file_name @ '' lacks a non-negative numeric `value` and a string `detail`'')
           | Some r \<Rightarrow> Inr r))"

text \<open>\<open>/^\s*\d+\s*$/\<close>.\<close>

definition is_count :: "string \<Rightarrow> bool" where
  "is_count s \<longleftrightarrow> js_trim s \<noteq> [] \<and> list_all is_digit (js_trim s)"

fun check_counts :: "(string \<times> string) list \<Rightarrow> string option" where
  "check_counts [] = None"
| "check_counts ((name, count) # cs) =
     (if is_count count then check_counts cs else Some (name @ '' entry count must be an integer''))"

definition merged_detail :: "string \<Rightarrow> string \<Rightarrow> string \<Rightarrow> number \<Rightarrow> string" where
  "merged_detail detail created removed backlog =
     join ''; ''
       [detail, ''alternative entries created: '' @ js_trim created, ''entries removed: '' @ js_trim removed,
        ''untimed backlog pass (not in the figure): '' @ number_to_string backlog @ '' seconds'']"

definition merged :: "number \<Rightarrow> string \<Rightarrow> js" where
  "merged v detail = Obj [(''value'', Num v), (''detail'', Str detail)]"

definition merge_reports :: "string \<Rightarrow> string \<Rightarrow> string \<Rightarrow> string \<Rightarrow> string \<Rightarrow> string \<Rightarrow> fs_node \<Rightarrow> fs_node outcome" where
  "merge_reports cwd timedFile backlogFile out created removed t =
     (case check_counts [(''created'', created), (''removed'', removed)] of
        Some e \<Rightarrow> (t, Some e)
      | None \<Rightarrow>
          (case readReport t cwd timedFile of
             Inl e \<Rightarrow> (t, Some e)
           | Inr (v, detail) \<Rightarrow>
               (case readReport t cwd backlogFile of
                  Inl e \<Rightarrow> (t, Some e)
                | Inr (backlog, backlog_detail) \<Rightarrow>
                    (case write_file_sync t (segs cwd out) (json_text (merged v (merged_detail detail created removed backlog))) of
                       None \<Rightarrow> (t, Some ''cannot write'')
                     | Some t' \<Rightarrow> (t', None)))))"

section \<open>The command line\<close>

datatype result_output = Names "string list outcome" | Written "fs_node outcome" | Usage

definition result_main :: "string \<Rightarrow> string option \<Rightarrow> fs_node \<Rightarrow> string list \<Rightarrow> result_output" where
  "result_main cwd stdin t argv =
     (case argv of
        [] \<Rightarrow> Usage
      | command # args \<Rightarrow>
          if command = ''crates'' \<and> args = [] then Names (crates stdin)
          else if command = ''merge''
          then (case args of [timed, backlog, out, created, removed] \<Rightarrow> Written (merge_reports cwd timed backlog out created removed t)
                           | _ \<Rightarrow> Usage)
          else Usage)"

section \<open>Lemmas\<close>

text \<open>What has been printed is plain, whether the listing fails or not.\<close>

lemma printed_plain:
  "fst (print_crates pkgs out) = out @ map (\<lambda>n. n @ [newline]) (map (the \<circ> plain_package) (takeWhile (\<lambda>p. plain_package p \<noteq> None) pkgs))"
  by (induction pkgs arbitrary: out) (auto split: option.split)

lemma print_crates_ok: "snd (print_crates pkgs out) = None \<longleftrightarrow> (\<forall>p \<in> set pkgs. plain_package p \<noteq> None)"
  by (induction pkgs arbitrary: out) (auto split: option.split)

text \<open>A report that was read is one to merge: what the merge writes is a valid report with the value
  of the timed run.\<close>

lemma valid_merged: "valid_report report = Some (v, d) \<Longrightarrow> valid_report (merged v detail) = Some (v, detail)"
  by (auto simp: valid_report_def merged_def split: js.splits number.splits if_splits)

lemma merge_writes:
  assumes "merge_reports cwd timed backlog out created removed t = (t', None)"
  obtains v detail b bd where "readReport t cwd timed = Inr (v, detail)" "readReport t cwd backlog = Inr (b, bd)"
    "read_file_sync t' (segs cwd out) = Some (json_text (merged v (merged_detail detail created removed b)))"
proof -
  obtain v detail b bd where r: "readReport t cwd timed = Inr (v, detail)" "readReport t cwd backlog = Inr (b, bd)"
    and w: "write_file_sync t (segs cwd out) (json_text (merged v (merged_detail detail created removed b))) = Some t'"
    using assms by (auto simp: merge_reports_def split: option.splits sum.splits)
  have "read_file_sync t' (segs cwd out) = Some (json_text (merged v (merged_detail detail created removed b)))"
    using w by (auto simp: write_file_sync_def read_file_sync_def dest: at_put_same split: option.splits fs_node.splits)
  with r show ?thesis by (rule that)
qed

lemma merged_report_valid:
  assumes "merge_reports cwd timed backlog out created removed t = (t', None)"
    and "readReport t cwd timed = Inr (v, detail)" "exact_number v"
  shows "\<exists>d. readReport t' cwd out = Inr (v, d)"
proof -
  obtain w e b bd where m: "readReport t cwd timed = Inr (w, e)"
    "read_file_sync t' (segs cwd out) = Some (json_text (merged w (merged_detail e created removed b)))"
    using merge_writes [OF assms(1)] by metis
  have w: "w = v" using m(1) assms(2) by simp
  obtain report where v: "valid_report report = Some (v, detail)"
    using assms(2) by (auto simp: readReport_def split: option.splits)
  let ?m = "merged v (merged_detail e created removed b)"
  have "json_exact ?m"
    using assms(3) by (simp add: merged_def make_object_def put_member_def comes_before_def array_index_def is_digit_def)
  then have "js_parse (json_text ?m) = Some ?m"
    using js_parse_json_text [of ?m] json_image_exact(1) [of ?m] by (simp add: merged_def)
  then show ?thesis using m(2) valid_merged [OF v] by (simp add: w readReport_def)
qed

end
