(* ===== verification/BrokerHarness.thy ===== *)
theory BrokerHarness
  imports BrokerConfig NodePath JsonRoundtrip
begin

text \<open>
  \<^verbatim>\<open>apps/web-e2e/specs/broker-harness.ts\<close>: the harness that runs the real broker, daemon and plugin for
  the end-to-end tests. Its processes are a table of the children it has spawned, with whether each
  still runs. What the processes do is the world's: whether a program can be started, how a build
  ends, when the port opens and the socket appears, which children end by themselves while the
  harness waits, and how long one takes to be gone once it is killed.
\<close>

section \<open>The world\<close>

text \<open>A program starts, or its child raises an \<open>error\<close> event with an error number (a program that is
  not there), or \<open>spawn\<close> itself throws (an empty name).\<close>

datatype spawning = Spawns | SpawnErrors nat | SpawnThrows string

datatype phase = AwaitPort | AwaitSocket

text \<open>Nothing listens for the \<open>error\<close> event of a child; \<open>wd_uncaught_ends\<close> is whether the runner ends
  by an uncaught error, as Node does, or records it and goes on.\<close>

record world =
  wd_windows :: bool
  wd_env :: "string \<Rightarrow> string option"
  wd_exists :: "string \<Rightarrow> bool"
  wd_spawn :: "string \<Rightarrow> spawning"
  wd_uncaught_ends :: bool
  wd_build_code :: "string \<Rightarrow> nat option"
  wd_port_open :: "nat \<Rightarrow> bool"
  wd_socket_exists :: "nat \<Rightarrow> bool"
  wd_pipe_connects :: "nat \<Rightarrow> bool"
  wd_late_socket :: bool
  wd_exits :: "phase \<Rightarrow> nat \<Rightarrow> bool"
  wd_kill_takes :: "nat \<Rightarrow> nat"
  wd_rm_error :: "string option"

text \<open>\<open>ch_env\<close> is what is set beside the environment of the runner.\<close>

record child =
  ch_program :: string
  ch_running :: bool
  ch_arguments :: "string list"
  ch_env :: "(string \<times> string) list"

record harness =
  hn_port :: nat
  hn_socketPath :: string
  hn_children :: "child list"
  hn_broker :: "nat option"
  hn_daemon :: "nat option"
  hn_socket_file :: bool
  hn_built :: "string list"
  hn_signalled :: "nat list"


section \<open>Programs\<close>

definition exe :: "world \<Rightarrow> string" where
  "exe w = (if wd_windows w then ''.exe'' else [])"

definition targetDir :: "string \<Rightarrow> string" where
  "targetDir root = join_path (join_path root ''target'') ''debug''"

definition program :: "world \<Rightarrow> string \<Rightarrow> string \<Rightarrow> string \<Rightarrow> string" where
  "program w root override name =
     (case wd_env w override of Some bin \<Rightarrow> bin | None \<Rightarrow> join_path (targetDir root) (name @ exe w))"



definition pluginBin :: "world \<Rightarrow> string \<Rightarrow> string" where
  "pluginBin w root = program w root ''ALLOWLISTER_REMOTE_PLUGIN_BIN'' ''allowlister-remote-plugin''"


section \<open>Waiting\<close>






section \<open>Children\<close>

definition spawn_child :: "world \<Rightarrow> string \<Rightarrow> string list \<Rightarrow> (string \<times> string) list \<Rightarrow> harness \<Rightarrow> string + nat \<times> harness" where
  "spawn_child w bin args env h =
     (case wd_spawn w bin of
        SpawnThrows e \<Rightarrow> Inl e
      | started \<Rightarrow>
          Inr (length (hn_children h),
               h\<lparr>hn_children := hn_children h @
                  [\<lparr>ch_program = bin, ch_running = (started = Spawns), ch_arguments = args, ch_env = env\<rparr>]\<rparr>))"


definition exit_child :: "nat \<Rightarrow> harness \<Rightarrow> harness" where
  "exit_child i h = h\<lparr>hn_children := (hn_children h)[i := (hn_children h ! i)\<lparr>ch_running := False\<rparr>]\<rparr>"


text \<open>Whether a child has neither exited nor been ended by a signal.\<close>

definition alive :: "harness \<Rightarrow> nat \<Rightarrow> bool" where
  "alive h i \<longleftrightarrow> i < length (hn_children h) \<and> ch_running (hn_children h ! i)"

definition KILL_WAIT :: nat where
  "KILL_WAIT = 2000"

text \<open>SIGKILL, and the wait for the end of the child or of the time that is given to it.\<close>

definition stop_child :: "world \<Rightarrow> nat \<Rightarrow> harness \<Rightarrow> harness" where
  "stop_child w i h = (if wd_kill_takes w i \<le> KILL_WAIT then exit_child i h else h)"

definition terminate :: "world \<Rightarrow> nat option \<Rightarrow> harness \<Rightarrow> harness" where
  "terminate w c h =
     (case c of
        None \<Rightarrow> h
      | Some i \<Rightarrow> if \<not> alive h i then h else stop_child w i h)"

section \<open>The harness\<close>



text \<open>\<open>runPlugin\<close>: the child, and what it is given on its standard input.\<close>

definition runPlugin :: "world \<Rightarrow> string \<Rightarrow> js \<Rightarrow> harness \<Rightarrow> string + nat \<times> string \<times> harness" where
  "runPlugin w root payload h =
     (case spawn_child w (pluginBin w root) [''--daemon-socket'', hn_socketPath h] [(''NO_COLOR'', ''1'')] h of
        Inl e \<Rightarrow> Inl e
      | Inr (i, h') \<Rightarrow> Inr (i, json_text payload, h'))"

definition shell_payload :: "string \<Rightarrow> js" where
  "shell_payload command =
     Obj [(''subject'', Str ''shell''), (''current_verdict'', Str ''ask''), (''command'', Str command),
          (''cwd'', Str ''/workspace/repo'')]"

definition runShell :: "world \<Rightarrow> string \<Rightarrow> string \<Rightarrow> harness \<Rightarrow> string + nat \<times> string \<times> harness" where
  "runShell w root command h = runPlugin w root (shell_payload command) h"


text \<open>The script that runs in the page before it loads.\<close>

definition seed_broker :: "nat \<Rightarrow> storage \<Rightarrow> storage option" where
  "seed_broker port st = setItem st ''allowlister-remote-broker-url'' (''ws://127.0.0.1:'' @ digits port)"














section \<open>What is left running\<close>




lemma terminate_keeps:
  "hn_broker (terminate w c h) = hn_broker h" "hn_daemon (terminate w c h) = hn_daemon h"
  by (simp_all add: terminate_def stop_child_def exit_child_def split: option.splits)



lemma alive_spawn:
  assumes "spawn_child w bin args env h = Inr (i, h')"
  shows "i = length (hn_children h) \<and> (alive h' j \<longrightarrow> alive h j \<or> j = i) \<and>
    hn_broker h' = hn_broker h \<and> hn_daemon h' = hn_daemon h"
  using assms by (auto simp: spawn_child_def alive_def nth_append split: spawning.splits)















text \<open>The key the script seeds is the app's own: the page it opens resolves the harness's broker.\<close>

lemma seeded_broker:
  assumes "seed_broker port st = Some st'" "st_enabled st" "url_param search QUERY_PARAM = None"
  shows "resolveBrokerBase url_param env search st' = (Some (''ws://127.0.0.1:'' @ digits port), st')"
proof -
  have "readStored st' = Some (''ws://127.0.0.1:'' @ digits port)"
    using assms(1,2) by (auto simp: seed_broker_def setItem_def readStored_def BROKER_URL_STORAGE_KEY_def getItem_def split: if_splits)
  then show ?thesis using assms(3) by (simp add: resolveBrokerBase_def)
qed










end
