(* ===== verification/Spec2Isabelle.thy ===== *)
theory Spec2Isabelle
  imports JsonLexemes Theme Reconnect ServiceWorkerCache AppView Registration DevServer Installer
    WorkflowGraph MacosPolicy Boundaries BrokerStreams CiGate HeapFootprint ReleaseStaging TerminalSvg
    CaptureIndex Shell ServerLife WorkflowFiles PerfReports PoolResult BrokerHarness
begin

text \<open>
  A verification library for allowlister-remote: the PWA on which an operator allows or denies,
  from another device, what a coding agent wants to run.

  \<^bold>\<open>The program.\<close> A plugin in the agent's harness sends a request to a broker. In the
  operator's browser one service worker (\<^verbatim>\<open>apps/web/public/sw.js\<close>) holds the WebSocket to
  that broker, relays what it says to every open page and shows notifications. A page
  (\<^verbatim>\<open>apps/web/src/App.tsx\<close> and what it imports) asks the worker to connect through its bridge,
  folds the relayed events into an inbox, shows the pending requests and posts the operator's
  decisions back. The same worker caches the static files so that the page opens offline. The
  browser's storage keeps the broker and the theme.

  \<^bold>\<open>The theories\<close>, in the order in which they build on each other.

  \<^item> \<open>Prelude\<close>: option-valued traversal, the ECMAScript string operations the code calls, the
    locale \<open>event_machine\<close> of a component with an invariant.
  \<^item> \<open>JsValue\<close>: the untyped values of the wire with \<open>String\<close>, \<open>Number\<close>,
    \<open>Object.entries\<close> and \<open>JSON.stringify\<close>.
  \<^item> \<open>ApprovalTypes\<close> (\<^verbatim>\<open>types.ts\<close>), \<open>Normalize\<close> (\<^verbatim>\<open>approval-normalize.ts\<close>): the data
    model, and the reading of an untrusted payload, with when it throws, the round trip of a
    well-formed request and that allow is never made up.
  \<^item> \<open>Approval\<close> (\<^verbatim>\<open>approval.ts\<close>): flagged fragments, headline and the script line by line.
  \<^item> \<open>Inbox\<close> (\<^verbatim>\<open>inbox.ts\<close>): the folds; the locale \<open>keyed_list\<close> is the contract, a list
    that refines a map, interpreted on the folds.
  \<^item> \<open>JsonHighlight\<close>, \<open>JsonLexemes\<close> (\<^verbatim>\<open>lib/json-highlight.ts\<close>): the scanner on indices,
    the locale \<open>lossless_scanner\<close>, and the reference tokenization it equals.
  \<^item> \<open>LocalStorage\<close>, \<open>BrokerConfig\<close> (\<^verbatim>\<open>lib/broker-config.ts\<close>), \<open>Theme\<close>
    (\<^verbatim>\<open>lib/theme.tsx\<close>, the toggle, the bootstrap script): the store as the locale
    \<open>key_value_store\<close>, and its two clients.
  \<^item> \<open>Keyboard\<close> (\<^verbatim>\<open>lib/keyboard.ts\<close>, \<^verbatim>\<open>lib/focus-trap.ts\<close>): dispatch of keys, focus trap.
  \<^item> \<open>BrokerBridge\<close> (\<^verbatim>\<open>pwa/broker-bridge.ts\<close>): the page's end of the channel to the worker.
  \<^item> \<open>Notifications\<close>, \<open>ServiceWorker\<close>, \<open>ServiceWorkerCache\<close> (\<^verbatim>\<open>public/sw.js\<close>): what a
    notification says; sockets, reconnection, relay, decisions and clicks as a state machine;
    install, activate and fetch over a model of the Cache API.
  \<^item> \<open>AppModel\<close> (\<^verbatim>\<open>App.tsx\<close>, the form of \<^verbatim>\<open>broker-setup.tsx\<close>): the component's state, its
    effects as the commit of a step, its handlers and its shortcut maps.
  \<^item> \<open>Markup\<close>, \<open>InboxView\<close>, \<open>DetailView\<close>, \<open>AppView\<close> (\<^verbatim>\<open>components/approval/*.tsx\<close>,
    \<^verbatim>\<open>connection-status.tsx\<close>, \<^verbatim>\<open>ui/json-view.tsx\<close>): the rendered trees with their actions.
  \<^item> \<open>Reconnect\<close> (\<^verbatim>\<open>public/sw.js\<close>): that the worker always finds its way back to a connection.
  \<^item> \<open>Registration\<close> (\<^verbatim>\<open>pwa/register-service-worker.tsx\<close>): registering the worker and asking for
    the permission. \<open>Shell\<close> (\<^verbatim>\<open>components/ui/*.tsx\<close>, \<^verbatim>\<open>lib/utils.ts\<close>, \<^verbatim>\<open>app/layout.tsx\<close>, the
    error screens): primitives with their classes, the document, what an error shows.
  \<^item> \<open>Fixtures\<close> (\<^verbatim>\<open>src/fixtures.ts\<close>, \<^verbatim>\<open>test/broker-fixtures.ts\<close>, \<^verbatim>\<open>perf/decision.bench.ts\<close>): the
    demonstration requests and the payloads that normalize to them.
  \<^item> Texts and files: \<open>JsonParse\<close> and \<open>JsonRoundtrip\<close>, the JSON text of a value and its parser;
    \<open>NodePath\<close> and \<open>FileTree\<close>, \<open>node:path\<close> on a POSIX system and the part of \<open>node:fs\<close> the
    scripts use, on a tree of files; \<open>Doubles\<close>, binary64 arithmetic and \<open>toFixed\<close>.
  \<^item> Servers: \<open>StaticServer\<close> (\<^verbatim>\<open>packages/allowlister-remote-web/bin/serve.mjs\<close>), options, path
    resolution, responses and the stream of their body; \<open>DevServer\<close> (\<^verbatim>\<open>scripts/serve-web.mjs\<close>), its copy for the tests, and
    that the copies agree; \<open>ServerLife\<close>, their start and shutdown.
  \<^item> The prototype broker (\<^verbatim>\<open>docs/design/prototypes/broker-proto.mjs\<close>): \<open>EventStream\<close>, the frames of
    a server-sent event stream and the client that reads them; \<open>BrokerProto\<close>, store and server as
    a step function; \<open>BrokerStreams\<close>, what a client has seen after any run.
  \<^item> Release: \<open>Installer\<close> (\<^verbatim>\<open>packages/allowlister-remote-plugin\<close>, \<^verbatim>\<open>lib/platform.mjs\<close> and
    \<^verbatim>\<open>install.mjs\<close>), the platform table, the search for a source checkout, the post-install step;
    \<open>ReleaseStaging\<close> (\<^verbatim>\<open>scripts/stage-npm-package.mjs\<close>, \<^verbatim>\<open>stage-web-package.mjs\<close>,
    \<^verbatim>\<open>set-npm-package-version.mjs\<close>), which lays out what that step looks for.
  \<^item> The repository's own checks: \<open>WorkflowGraph\<close> and \<open>WorkflowFiles\<close>
    (\<^verbatim>\<open>.github/workflow-graph.mjs\<close>), which jobs of the CI run for an event, the listing of the
    workflow files and the digest of their sources; \<open>MacosPolicy\<close> (\<^verbatim>\<open>.github/macos-policy.mjs\<close>), when
    the macOS lane is left out; \<open>CiGate\<close> (\<^verbatim>\<open>.github/cli-args.mjs\<close>, \<^verbatim>\<open>check-results.mjs\<close>,
    \<^verbatim>\<open>macos-budget.mjs\<close>), the final gate and the budget; \<open>Boundaries\<close>
    (\<^verbatim>\<open>tools/workspace/check-boundaries.mjs\<close>), the module boundaries; \<open>PoolResult\<close>
    (\<^verbatim>\<open>pool-maintenance/result.mjs\<close>), names of crates and merged measurements.
  \<^item> Pictures: \<open>TerminalSvg\<close> (\<^verbatim>\<open>scripts/terminal-svg.mjs\<close>), a terminal prompt as SVG;
    \<open>CaptureIndex\<close> (\<^verbatim>\<open>apps/web/screenshots/capture-index.ts\<close>), the index of the screenshots.
  \<^item> Measurements: \<open>HeapFootprint\<close> and \<open>HeapReport\<close> (\<^verbatim>\<open>perf/heap.perf.ts\<close>, \<^verbatim>\<open>scripts/web-heap.mjs\<close>),
    the walk over the object graph and its report; \<open>SizeReport\<close> (\<^verbatim>\<open>scripts/web-bundle-size.mjs\<close>),
    the weight of a build and its change; \<open>PerfReports\<close> (\<^verbatim>\<open>scripts/web-bench-report.mjs\<close>,
    \<^verbatim>\<open>web-render-cost.mjs\<close>, \<^verbatim>\<open>web-lighthouse.mjs\<close>), the other tables; \<open>BrokerHarness\<close>
    (\<^verbatim>\<open>apps/web-e2e/specs/broker-harness.ts\<close>), the processes of the end-to-end tests, which may not
    start, may end by themselves, and are killed within a bound.
  \<^item> This theory: what holds of page and worker together.

  \<^bold>\<open>How code and model correspond.\<close> A pure function is a function of the same name (a second
  definition of a name takes a prefix, as \<open>sw_connectBroker\<close>). A component with state is a
  record, its handlers are functions on the record, and its events a datatype with a step
  function; a run is a fold of the step over a list of events, so a statement about every run
  covers every interleaving. What a handler does to the outside is appended to a log in the state
  (\<open>sw_effects\<close>, \<open>bg_posted\<close>). A promise that is already settled runs with its event. A thrown
  exception is \<open>None\<close>, or the flag \<open>ap_crashed\<close> where it ends the page; in the scripts it is
  \<open>Inl\<close> of its message or kind, beside the files it leaves where it has changed some. A loop is
  a recursion with a termination proof; no fuel is used.

  \<^bold>\<open>Parameters.\<close> The browser's URL and query parsers, the identifiers it draws, the URLs its
  WebSocket accepts, the APIs it has, the network, the environment, \<open>decodeURIComponent\<close>, the file
  systems the page and the servers see, what git, \<^verbatim>\<open>nx\<close>, \<^verbatim>\<open>cargo\<close> and Lighthouse yield, the YAML
  parser and the library that evaluates the expressions of GitHub Actions, the hash functions,
  \<open>localeCompare\<close>, the length of a compressed file and the two libraries that merge class names are
  arguments, as are the programs that start or end by themselves, the time a kill takes, and which
  files can be read. \<open>JSON.parse\<close> of a frame the app receives is represented by its result; the scripts
  parse texts with the parser of \<open>JsonParse\<close>.

  \<^bold>\<open>What the properties show.\<close> Only the operator decides, for the card on the screen
  (\<open>decisions_are_intended\<close>, in a page that a worker controls); frames reach the inbox and decisions the broker
  (\<open>broker_frames_reach_inbox\<close>, \<open>decision_reaches_broker\<close>); the inbox is a map by
  identifier (\<open>inbox_refines_map\<close>); one socket, retried after the capped powers of two
  (\<open>one_live_socket\<close>, \<open>backoff_schedule\<close>), and a way back to a connection from every state
  (\<open>always_reconnects\<close>); the screens show every flagged command and the whole script; the views,
  the notifications and the highlighter agree with their references; settings survive a reload.
  A client of the prototype broker that resumes its stream reads the log exactly once
  (\<open>broker_stream_exact\<close>), and the first decision wins (\<open>first_decision_wins\<close>). The server hands
  out its own files only (\<open>served_files_contained\<close>); a release stages what an installation looks
  for (\<open>staged_for_installer\<close>, \<open>version_stamped\<close>), which changes two files at most
  (\<open>install_effect\<close>). The checks of the CI enforce what they are for (\<open>resolve_results\<close>,
  \<open>macos_skipped_iff\<close>, \<open>boundaries_enforced\<close>, \<open>gate_passes_iff\<close>, \<open>budget_type_safe\<close>). The reports
  say what they measure: \<open>footprint_counts_reachable\<close>, \<open>size_report_exact\<close>,
  \<open>terminal_svg_shows_prompt\<close>, \<open>index_records_last_shots\<close>; and the test harness leaves no process
  that a kill ends in time (\<open>harness_leaves_nothing\<close>).

  Some behaviour that surprises: a built-in broker shadows the configured one
  (\<open>default_broker_shadows_configured\<close>), saving the broker in use hides the pending requests
  (\<open>save_broker_effect\<close>), a garbled announcement ends the page
  (\<open>broker_frames_reach_inbox\<close>), an error page replaces the cached app (\<open>cache_stores_iff\<close>), one
  malformed request, or one for a file that cannot be read, ends a server (\<open>request_crashes_iff\<close>,
  \<open>broker_down_iff\<close>), a daemon that cannot be started leaves a broker behind where the unhandled
  error ends the runner (\<open>harness_leaves_nothing\<close>), a decision can be planted before
  its request exists (\<open>planted_decision\<close>), and a failed audit leaves its browser running
  (\<open>run_audit_cleans_up\<close>).

  \<^bold>\<open>Limits.\<close> Characters are the code units below 256, with single larger code points in rendered
  texts; numbers are decimal (see \<open>JsValue\<close>), and rounded where the reports compute with them (see
  \<open>Doubles\<close>). Not modelled: the layout classes of the approval screens, scrolling, the
  subscription to events of the DOM and what React does between a state and its tree; the object
  graph of a request in the memory report and the profiler in the render report, whose figures
  are arguments; the scripts that drive a browser to take screenshots and the configurations of
  the test runners, which hold no logic of their own; the driver of the prototype; the running of
  \<^verbatim>\<open>nx\<close>, \<^verbatim>\<open>cargo\<close>, git and vitest; and the Rust crates, the other side of the wire, in another
  language.
\<close>

section \<open>Page and worker together\<close>

lemma show_effects [simp]: "sw_effects (showRequestNotification pf r s) = sw_effects s"
  by (simp add: showRequestNotification_def split: js.split option.split)

lemma close_effects [simp]: "sw_effects (closeRequestNotification pf r s) = sw_effects s"
  by (simp add: closeRequestNotification_def)

lemma frame_effects:
  "sw_effects (on_frame pf (Some payload) s) = sw_effects s @ [Broadcast (broker_event payload)]"
  by (simp add: on_frame_def Let_def broadcastToClients_def emit_def)

text \<open>The messages of the broker as the page decodes them from the worker's relay.\<close>

definition announcement :: "js \<Rightarrow> js" where
  "announcement x = Obj [(''type'', Str ''added''), (''request'', x)]"

abbreviation added_frame :: "approval_request \<Rightarrow> js" where
  "added_frame r \<equiv> announcement (encode_request r)"

definition snapshot_frame :: "approval_request list \<Rightarrow> js" where
  "snapshot_frame rs = Obj [(''type'', Str ''snapshot''), (''requests'', Arr (map encode_request rs))]"

definition resolved_frame :: "string \<Rightarrow> js" where
  "resolved_frame ident = Obj [(''type'', Str ''resolved''), (''requestId'', Str ident)]"

lemma decode_relayed [simp]:
  "decode_message (broker_event (announcement x)) = Some (OnAdded x)"
  "decode_message (broker_event (snapshot_frame rs)) = Some (OnSnapshot (Arr (map encode_request rs)))"
  "decode_message (broker_event (resolved_frame ident)) = Some (OnResolved (Str ident))"
  by (simp_all add: decode_message_def broker_event_def announcement_def snapshot_frame_def resolved_frame_def Let_def)

text \<open>A connected page hands a message to its handlers.\<close>

lemma relayed_step:
  assumes "app_inv s" and "\<not> ap_crashed s" and "ap_bootState s = Ready" and "decode_message m = Some c"
  shows "\<exists>s'. ap_requests s' = ap_requests s \<and> ap_drawn s' = ap_drawn s \<and> \<not> ap_crashed s' \<and>
              app_step br s (WorkerMessage m) = commit s (on_call br c s')"
proof -
  have "link_ok s" using assms(1,2) by (simp add: app_inv_def)
  then obtain b where b: "ap_bridge s = Some b" "bg_listening b" using assms(3) by (auto simp: link_ok_def)
  then show ?thesis using assms(2,4)
    by (intro exI [of _ "s\<lparr>ap_bridge := Some (on_message m b)\<rparr>"]) (simp add: app_step_def Let_def)
qed

definition relays_as ::
    "platform \<Rightarrow> worker \<Rightarrow> nat \<Rightarrow> js \<Rightarrow> browser \<Rightarrow> app \<Rightarrow> approval_request list \<Rightarrow> bool" where
  "relays_as pf w i payload br s rs \<longleftrightarrow>
     (\<exists>m. sw_effects (worker_step pf w (SocketFrame i (Some payload))) = sw_effects w @ [Broadcast m] \<and>
          ap_requests (app_step br s (WorkerMessage m)) = rs \<and>
          \<not> ap_crashed (app_step br s (WorkerMessage m)))"

lemma relays_asI:
  assumes "ready w i = OPEN" and "app_inv s" and "\<not> ap_crashed s" and "ap_bootState s = Ready"
    and "decode_message (broker_event payload) = Some c"
    and "\<And>s'. ap_requests s' = ap_requests s \<Longrightarrow> ap_drawn s' = ap_drawn s \<Longrightarrow> \<not> ap_crashed s' \<Longrightarrow>
           ap_requests (on_call br c s') = rs \<and> \<not> ap_crashed (on_call br c s')"
  shows "relays_as pf w i payload br s rs"
proof -
  obtain s' where s': "ap_requests s' = ap_requests s" "ap_drawn s' = ap_drawn s" "\<not> ap_crashed s'"
    and step: "app_step br s (WorkerMessage (broker_event payload)) = commit s (on_call br c s')"
    using relayed_step [OF assms(2-5)] by blast
  have "sw_effects (worker_step pf w (SocketFrame i (Some payload))) = sw_effects w @ [Broadcast (broker_event payload)]"
    using assms(1) by (simp add: frame_effects)
  then show ?thesis using assms(6) [OF s'] unfolding relays_as_def by (intro exI [of _ "broker_event payload"]) (simp add: step)
qed

section \<open>Properties\<close>

definition relays_crash :: "platform \<Rightarrow> worker \<Rightarrow> nat \<Rightarrow> js \<Rightarrow> browser \<Rightarrow> app \<Rightarrow> bool" where
  "relays_crash pf w i payload br s \<longleftrightarrow>
     (\<exists>m. sw_effects (worker_step pf w (SocketFrame i (Some payload))) = sw_effects w @ [Broadcast m] \<and>
          ap_crashed (app_step br s (WorkerMessage m)))"

lemma relays_crashI:
  assumes "ready w i = OPEN" and "app_inv s" and "\<not> ap_crashed s" and "ap_bootState s = Ready"
    and "normalizeBrokerRequest (br_uuid br) (ap_drawn s) x = None"
  shows "relays_crash pf w i (announcement x) br s"
proof -
  obtain s' where s': "ap_drawn s' = ap_drawn s"
    and step: "app_step br s (WorkerMessage (broker_event (announcement x))) = commit s (on_call br (OnAdded x) s')"
    using relayed_step [OF assms(2-4) decode_relayed(1)] by blast
  have "sw_effects (worker_step pf w (SocketFrame i (Some (announcement x)))) =
      sw_effects w @ [Broadcast (broker_event (announcement x))]"
    using assms(1) by (simp add: frame_effects)
  then show ?thesis
    unfolding relays_crash_def using s' assms(5)
    by (intro exI [of _ "broker_event (announcement x)"]) (simp add: step applyAdded_def)
qed

lemma relays_nothing:
  assumes "ready w i = OPEN" and "\<not> ap_crashed s" and "decode_message (broker_event payload) = None"
  shows "relays_as pf w i payload br s (ap_requests s)"
proof -
  have "sw_effects (worker_step pf w (SocketFrame i (Some payload))) = sw_effects w @ [Broadcast (broker_event payload)]"
    using assms(1) by (simp add: frame_effects)
  then show ?thesis using assms(2,3) unfolding relays_as_def
    by (intro exI [of _ "broker_event payload"]) (simp add: app_step_def Let_def split: option.split)
qed

text \<open>
  C2. Broker to inbox: a frame on the open socket is relayed to the page exactly once. There the
  announcement of a well-formed request puts it behind the others, or changes nothing if its
  identifier is known; a snapshot of well-formed requests replaces the inbox; a resolution
  removes the request of that identifier; a frame of another type changes nothing. An announcement
  of anything else adds what normalization makes of it, or, when that throws, ends the page.
\<close>

theorem broker_frames_reach_inbox:
  assumes "ready w i = OPEN" and "app_inv s" and "\<not> ap_crashed s" and "ap_bootState s = Ready"
    and "\<forall>r \<in> set rs. request_wf r" and "request_wf r"
    and "appended = (\<lambda>r. if \<exists>q \<in> set (ap_requests s). rq_id q = rq_id r then ap_requests s else ap_requests s @ [r])"
  shows "relays_as pf w i (added_frame r) br s (appended r) \<and>
         relays_as pf w i (snapshot_frame rs) br s rs \<and>
         relays_as pf w i (resolved_frame ident) br s (filter (\<lambda>r. rq_id r \<noteq> ident) (ap_requests s)) \<and>
         ((\<forall>kind \<in> {''added'', ''snapshot'', ''resolved''}. member payload ''type'' \<noteq> Str kind) \<longrightarrow>
            relays_as pf w i payload br s (ap_requests s)) \<and>
         (case normalizeBrokerRequest (br_uuid br) (ap_drawn s) x of
            Some (q, n) \<Rightarrow> relays_as pf w i (announcement x) br s (appended q)
          | None \<Rightarrow> relays_crash pf w i (announcement x) br s)"
proof (intro conjI impI)
  have app: "appended q = add_request (ap_requests s) q" for q
    by (auto simp: assms(7) add_request_def list_ex_iff)
  have announced: "relays_as pf w i (announcement x) br s (appended q)"
    if "normalizeBrokerRequest (br_uuid br) (ap_drawn s) x = Some (q, n)" for x q n
    by (rule relays_asI [OF assms(1-4) decode_relayed(1)]) (simp add: applyAdded_def that app)
  show "relays_as pf w i (added_frame r) br s (appended r)"
    by (rule announced [OF normalizeBrokerRequest_encode [OF assms(6)]])
  show "relays_as pf w i (snapshot_frame rs) br s rs"
    by (rule relays_asI [OF assms(1-4) decode_relayed(2)])
      (simp add: applySnapshot_def normalize_all_encode [OF assms(5)])
  show "relays_as pf w i (resolved_frame ident) br s (filter (\<lambda>r. rq_id r \<noteq> ident) (ap_requests s))"
    by (rule relays_asI [OF assms(1-4) decode_relayed(3)]) (simp add: applyResolved_def)
  show "relays_as pf w i payload br s (ap_requests s)"
    if "\<forall>kind \<in> {''added'', ''snapshot'', ''resolved''}. member payload ''type'' \<noteq> Str kind"
    by (rule relays_nothing [OF assms(1,3)]) (use that in \<open>simp add: decode_message_def broker_event_def Let_def\<close>)
  show "case normalizeBrokerRequest (br_uuid br) (ap_drawn s) x of
      Some (q, n) \<Rightarrow> relays_as pf w i (announcement x) br s (appended q)
    | None \<Rightarrow> relays_crash pf w i (announcement x) br s"
    using announced relays_crashI [OF assms(1-4), of br x] by (auto split: option.split)
qed

text \<open>A request that is announced again, and then resolved, over an open socket.\<close>

definition sample_platform :: platform where
  "sample_platform =
     \<lparr>pf_websocket = True, pf_url_ok = (\<lambda>_. True), pf_showNotification = True, pf_getNotifications = True,
      pf_openWindow = True\<rparr>"

definition open_worker :: worker where
  "open_worker = (fresh_worker [] True)\<lparr>sw_sockets := [\<lparr>ws_url = [], ws_ready = OPEN\<rparr>]\<rparr>"

theorem broker_frames_reach_inbox_witness:
  "\<exists>s r. ap_requests s = [r] \<and>
     relays_as sample_platform open_worker 0 (added_frame r) demo_browser s [r] \<and>
     relays_as sample_platform open_worker 0 (added_frame (sample_card ''b'' [])) demo_browser s [r, sample_card ''b'' []] \<and>
     relays_as sample_platform open_worker 0 (resolved_frame (rq_id r)) demo_browser s [] \<and>
     relays_crash sample_platform open_worker 0 (announcement (Obj [(''id'', Str []), (''cwd'', Obj [(''toString'', Null)])])) demo_browser s"
proof -
  define s where "s = app_step demo_browser (mount_app demo_browser (Some True) True empty_storage) announce_a"
  let ?bad = "Obj [(''id'', Str []), (''cwd'', Obj [(''toString'', Null)])]"
  have o: "ready open_worker 0 = OPEN" by (simp add: ready_def open_worker_def)
  have "app_inv (foldl (app_step demo_browser) (mount_app demo_browser (Some True) True empty_storage) [announce_a])"
    by (rule app.run_inv [OF mount_inv])
  then have i: "app_inv s" by (simp add: s_def)
  have c: "\<not> ap_crashed s" and b: "ap_bootState s = Ready" and l: "length (ap_requests s) = 1"
    and h: "rq_id (hd (ap_requests s)) = ''a''" and hw: "request_wf (hd (ap_requests s))"
    and bad: "normalizeBrokerRequest (br_uuid demo_browser) (ap_drawn s) ?bad = None"
    unfolding s_def by code_simp+
  obtain r where e: "ap_requests s = [r]" using l by (auto simp: length_Suc_conv)
  have w: "request_wf r" and ids: "rq_id r = ''a''" using h hw unfolding e by simp_all
  have w2: "request_wf (sample_card ''b'' [])" and q: "rq_id (sample_card ''b'' []) = ''b''"
    by (simp_all add: request_wf_def sample_card_def)
  have n: "\<forall>r \<in> set []. request_wf r" by simp
  note all = broker_frames_reach_inbox [OF o i c b n _ refl, where pf = sample_platform and br = demo_browser]
  have "relays_as sample_platform open_worker 0 (added_frame r) demo_browser s [r]"
    "relays_as sample_platform open_worker 0 (resolved_frame (rq_id r)) demo_browser s []"
    "relays_crash sample_platform open_worker 0 (announcement ?bad) demo_browser s"
    using all [OF w, of "rq_id r" Null ?bad] unfolding e bad by simp_all
  moreover have "relays_as sample_platform open_worker 0 (added_frame (sample_card ''b'' [])) demo_browser s [r, sample_card ''b'' []]"
    using all [OF w2, of "[]" Null ?bad] unfolding e by (simp add: ids q)
  ultimately show ?thesis using e by blast
qed

text \<open>
  C3. Decision to broker: the decision the operator intends leaves the page as one message, and
  the worker forwards exactly that message to the broker if its connection is open; if it is
  not, the worker drops it without a trace, although the page has already dropped the card.
\<close>

theorem decision_reaches_broker:
  assumes "app_inv s" and "\<not> ap_crashed s" and "reachable_worker s" and "intended s e = Some d"
  shows "decisions (app_step br s e) = decisions s @ [decision_message d] \<and>
         ap_requests (app_step br s e) = filter (\<lambda>r. rq_id r \<noteq> dc_requestId d) (ap_requests s) \<and>
         (\<forall>i. sw_brokerSocket w = Some i \<and> ready w i = OPEN \<longrightarrow>
            sw_effects (worker_step pf w (FromPage (decision_message d))) =
              sw_effects w @ [Send i (frame (decision_message d))]) \<and>
         ((\<forall>i. sw_brokerSocket w = Some i \<longrightarrow> ready w i \<noteq> OPEN) \<longrightarrow>
            worker_step pf w (FromPage (decision_message d)) = w)"
proof -
  have i: "boot_ok s" "link_ok s" using assms(1,2) by (auto simp: app_inv_def)
  have step: "app_step br s e = commit s (handle br s e)" using assms(2) by (simp add: app_step_def)
  obtain h: "handle br s e = decide (dc_requestId d) (dc_verdict d) s"
    and m: "d = decision_of (dc_requestId d) (dc_verdict d)" and r: "ap_bootState s = Ready"
    using handle_intended [OF i(1), of e br] assms(4) by auto
  have "decisions (app_step br s e) = decisions s @ [decision_message d]"
    using h assms(3) decisions_decide [OF i(2) r, of "dc_requestId d" "dc_verdict d"]
    by (simp add: step m [symmetric])
  moreover have "ap_requests (app_step br s e) = filter (\<lambda>r. rq_id r \<noteq> dc_requestId d) (ap_requests s)"
    using h by (simp add: step applyResolved_def)
  moreover have "worker_step pf w (FromPage (decision_message d)) =
      snd (sendDecision (Str (dc_requestId d)) (Str (choice_string (dc_verdict d))) (Str (dc_reason d)) w)"
    by (simp add: on_page_message_def decision_message_def)
  ultimately show ?thesis
    by (auto simp: sendDecision_def emit_def decision_frame_def decision_message_def split: option.splits)
qed

theorem decision_reaches_broker_witness:
  "sw_effects (worker_step \<lparr>pf_websocket = True, pf_url_ok = (\<lambda>_. True), pf_showNotification = True,
                            pf_getNotifications = True, pf_openWindow = True\<rparr>
       ((fresh_worker [] True)\<lparr>sw_sockets := [\<lparr>ws_url = [], ws_ready = OPEN\<rparr>], sw_brokerSocket := Some 0\<rparr>)
       (FromPage (decision_message (decision_of ''a'' ChooseAllow)))) =
     [Send 0 (frame (decision_message (decision_of ''a'' ChooseAllow)))]"
proof -
  let ?w = "(fresh_worker [] True)\<lparr>sw_sockets := [\<lparr>ws_url = [], ws_ready = OPEN\<rparr>], sw_brokerSocket := Some 0\<rparr>"
  let ?s = "foldl (app_step demo_browser) (mount_app demo_browser (Some True) True empty_storage) [announce_a]"
  have i: "app_inv ?s" by (rule app.run_inv [OF mount_inv])
  have c: "\<not> ap_crashed ?s" by code_simp
  have r: "reachable_worker ?s" by code_simp
  have d: "intended ?s (DecideCard 0 ChooseAllow) = Some (decision_of ''a'' ChooseAllow)" by code_simp
  have o: "sw_brokerSocket ?w = Some 0 \<and> ready ?w 0 = OPEN" by (simp add: ready_def)
  have e: "sw_effects ?w = []" by (simp add: fresh_worker_def)
  have "sw_effects (worker_step \<lparr>pf_websocket = True, pf_url_ok = (\<lambda>_. True), pf_showNotification = True,
                            pf_getNotifications = True, pf_openWindow = True\<rparr> ?w
          (FromPage (decision_message (decision_of ''a'' ChooseAllow)))) =
        sw_effects ?w @ [Send 0 (frame (decision_message (decision_of ''a'' ChooseAllow)))]"
    using decision_reaches_broker [OF i c r d, where w = ?w] o by blast
  then show ?thesis unfolding e by simp
qed

text \<open>
  C19. A built-in broker shadows the configured one: when the page boots with a broker saved or
  deep-linked that differs from the build-time default, a worker without a connection ends up
  connecting to the default, although the page believes it talks to the configured broker.
\<close>

theorem default_broker_shadows_configured:
  assumes "buildTimeBrokerBase (br_env br) = Some built"
    and "fst (resolveBrokerBase (br_url_param br) (br_env br) (br_search br) st) = Some configured"
    and "configured \<noteq> built" and "pf_websocket pf" and "pf_url_ok pf (brokerWsUrl built)"
    and "w = foldl (worker_step pf) (fresh_worker cs p)
               (map FromPage (posted (mount_app br (Some True) desktop st)))"
  shows "ap_brokerBase (mount_app br (Some True) desktop st) = Some configured \<and>
         sw_sockets w = [\<lparr>ws_url = brokerWsUrl built, ws_ready = CONNECTING\<rparr>] \<and>
         sw_brokerUrl w = Some (brokerWsUrl configured)"
proof -
  have posts: "posted (mount_app br (Some True) desktop st) =
      [connect_message (brokerWsUrl built), connect_message (brokerWsUrl configured)]"
    using assms(1-3) by (simp add: mount_posts Let_def)
  let ?w1 = "sw_connectBroker pf (brokerWsUrl built) (fresh_worker cs p)"
  have w1: "sw_sockets ?w1 = [\<lparr>ws_url = brokerWsUrl built, ws_ready = CONNECTING\<rparr>]" "sw_brokerSocket ?w1 = Some 0"
    using assms(4,5) by (simp_all add: sw_connectBroker_def fresh_worker_def Let_def)
  then have l: "live ?w1 0" by (simp add: live_iff ready_def)
  have "w = sw_connectBroker pf (brokerWsUrl configured) ?w1"
    unfolding assms(6) posts by (simp add: on_page_message_def connect_message_def)
  then have "sw_sockets w = [\<lparr>ws_url = brokerWsUrl built, ws_ready = CONNECTING\<rparr>]"
    and "sw_brokerUrl w = Some (brokerWsUrl configured)"
    using connect_live(1) [OF w1(2) l] w1(1) by (simp_all add: connect_url)
  moreover have "ap_brokerBase (mount_app br (Some True) desktop st) = Some configured"
    by (simp add: mount_base assms(2))
  ultimately show ?thesis by blast
qed

theorem default_broker_shadows_configured_witness:
  "\<exists>br st w. ap_brokerBase (mount_app br (Some True) True st) = Some ''wss://mine'' \<and>
             w = foldl (worker_step \<lparr>pf_websocket = True, pf_url_ok = (\<lambda>_. True), pf_showNotification = True,
                            pf_getNotifications = True, pf_openWindow = True\<rparr>) (fresh_worker [] True)
                   (map FromPage (posted (mount_app br (Some True) True st))) \<and>
             sw_sockets w = [\<lparr>ws_url = ''wss://b/ws/pwa'', ws_ready = CONNECTING\<rparr>]"
proof -
  let ?st = "empty_storage\<lparr>st_items := [BROKER_URL_STORAGE_KEY \<mapsto> ''wss://mine'']\<rparr>"
  let ?pf = "\<lparr>pf_websocket = True, pf_url_ok = (\<lambda>_. True), pf_showNotification = True,
              pf_getNotifications = True, pf_openWindow = True\<rparr>"
  have b: "buildTimeBrokerBase (br_env demo_browser) = Some ''wss://b''" by (simp add: buildTimeBrokerBase_def)
  have c: "fst (resolveBrokerBase (br_url_param demo_browser) (br_env demo_browser) (br_search demo_browser) ?st)
             = Some ''wss://mine''"
    by (simp add: resolveBrokerBase_def readStored_def getItem_def)
  have u: "brokerWsUrl ''wss://b'' = ''wss://b/ws/pwa''" by (simp add: brokerWsUrl_def)
  have n: "''wss://mine'' \<noteq> ''wss://b''" "pf_websocket ?pf" "pf_url_ok ?pf (brokerWsUrl ''wss://b'')" by simp_all
  show ?thesis
    using default_broker_shadows_configured [OF b c n refl, of True "[]" True] unfolding u by blast
qed

end
